(* ===== verification/Prelude.thy ===== *)
theory Prelude
  imports Main "HOL-Library.AList"
begin

text \<open>
  What every component of the model shares.

  \<^item> Go maps (\<open>map[K]V\<close>) are association lists: \<open>mget\<close>, \<open>mput\<close> and \<open>mdel\<close> are the read
    \<open>v, ok := m[k]\<close>, the store \<open>m[k] = v\<close> and \<open>delete(m, k)\<close>.  The order of the list stands for
    the order in which \<open>range\<close> visits the map; Go leaves that order open, and every statement here
    is proved for all lists, hence for every order.
  \<^item> Go's \<open>int\<close> and \<open>int64\<close> are \<open>int\<close> with the two's complement wrap-around written out
    (\<open>wrap64\<close>).
  \<^item> The functions of the packages \<open>strings\<close> and \<open>fmt\<close> that the program calls.  A Go string is a
    sequence of bytes, which is what \<open>string\<close> is here.
\<close>

named_theorems gomap_simps "how reads of a Go map see its writes"

section \<open>Go maps\<close>

type_synonym ('k, 'v) gomap = "('k \<times> 'v) list"

definition mget :: "('k, 'v) gomap \<Rightarrow> 'k \<Rightarrow> 'v option" where
  "mget m k = map_of m k"

definition mput :: "('k, 'v) gomap \<Rightarrow> 'k \<Rightarrow> 'v \<Rightarrow> ('k, 'v) gomap" where
  "mput m k v = AList.update k v m"

definition mdel :: "('k, 'v) gomap \<Rightarrow> 'k \<Rightarrow> ('k, 'v) gomap" where
  "mdel m k = AList.delete k m"

definition mkeys :: "('k, 'v) gomap \<Rightarrow> 'k list" where
  "mkeys m = map fst m"

text \<open>A Go map has one entry per key.\<close>

definition wf_gomap :: "('k, 'v) gomap \<Rightarrow> bool" where
  "wf_gomap m \<longleftrightarrow> distinct (mkeys m)"

text \<open>A map built by storing a list of entries in order (the last store of a key wins).\<close>

definition mput_all :: "('k, 'v) gomap \<Rightarrow> ('k \<times> 'v) list \<Rightarrow> ('k, 'v) gomap" where
  "mput_all m kvs = foldl (\<lambda>acc (k, v). mput acc k v) m kvs"

section \<open>64-bit integers\<close>

definition min_int64 :: int where
  "min_int64 = - 9223372036854775808"

definition max_int64 :: int where
  "max_int64 = 9223372036854775807"

definition in_int64 :: "int \<Rightarrow> bool" where
  "in_int64 i \<longleftrightarrow> min_int64 \<le> i \<and> i \<le> max_int64"

definition wrap64 :: "int \<Rightarrow> int" where
  "wrap64 i = (i + 9223372036854775808) mod 18446744073709551616 - 9223372036854775808"

section \<open>Strings\<close>

text \<open>Decimal digits, the verb \<open>%d\<close>, and \<open>%05d\<close> / \<open>%.10d\<close> for the numbers the code prints.\<close>

definition digit_char :: "nat \<Rightarrow> char" where
  "digit_char d = char_of (48 + d)"

fun show_nat :: "nat \<Rightarrow> string" where
  "show_nat n = (if n < 10 then [digit_char n] else show_nat (n div 10) @ [digit_char (n mod 10)])"

declare show_nat.simps [simp del]

definition show_int :: "int \<Rightarrow> string" where
  "show_int i = (if i < 0 then ''-'' @ show_nat (nat (- i)) else show_nat (nat i))"

text \<open>\<open>%0wd\<close>: the sign counts towards the width.\<close>

definition show_int_width :: "nat \<Rightarrow> int \<Rightarrow> string" where
  "show_int_width w i =
     (if i < 0
      then ''-'' @ replicate (w - 1 - length (show_nat (nat (- i)))) CHR ''0'' @ show_nat (nat (- i))
      else replicate (w - length (show_nat (nat i))) CHR ''0'' @ show_nat (nat i))"

text \<open>\<open>%.wd\<close>: at least \<open>w\<close> digits, the sign apart.\<close>

definition show_int_prec :: "nat \<Rightarrow> int \<Rightarrow> string" where
  "show_int_prec w i =
     (let ds = show_nat (nat \<bar>i\<bar>)
      in (if i < 0 then ''-'' else []) @ replicate (w - length ds) CHR ''0'' @ ds)"

text \<open>\<open>strings.Split\<close> with a separator of one byte, \<open>strings.Join\<close>.\<close>

fun split_on :: "char \<Rightarrow> string \<Rightarrow> string list" where
  "split_on c [] = [[]]"
| "split_on c (x # xs) =
     (if x = c then [] # split_on c xs
      else (case split_on c xs of [] \<Rightarrow> [[x]] | p # ps \<Rightarrow> (x # p) # ps))"

fun join_with :: "string \<Rightarrow> string list \<Rightarrow> string" where
  "join_with sep [] = []"
| "join_with sep [p] = p"
| "join_with sep (p # q # ps) = p @ sep @ join_with sep (q # ps)"

definition has_prefix :: "string \<Rightarrow> string \<Rightarrow> bool" where
  "has_prefix p s \<longleftrightarrow> take (length p) s = p"

definition quoted :: "string \<Rightarrow> string" where
  "quoted s = CHR 0x27 # s @ [CHR 0x27]"

text \<open>\<open>strings.TrimPrefix\<close> and \<open>strings.TrimSuffix\<close>.\<close>

definition trim_prefix :: "string \<Rightarrow> string \<Rightarrow> string" where
  "trim_prefix p s = (if has_prefix p s then drop (length p) s else s)"

definition trim_suffix :: "string \<Rightarrow> string \<Rightarrow> string" where
  "trim_suffix p s =
     (if length p \<le> length s \<and> drop (length s - length p) s = p
      then take (length s - length p) s else s)"

lemma digit_char_simps [simp]:
  "digit_char 0 = CHR ''0''" "digit_char (Suc 0) = CHR ''1''" "digit_char 2 = CHR ''2''" "digit_char 3 = CHR ''3''" "digit_char 4 = CHR ''4''"
  "digit_char 5 = CHR ''5''" "digit_char 6 = CHR ''6''" "digit_char 7 = CHR ''7''" "digit_char 8 = CHR ''8''" "digit_char 9 = CHR ''9''"
  by code_simp+

section \<open>Lemmas on maps\<close>

lemma mget_Nil [simp, gomap_simps]: "mget [] k = None"
  by (simp add: mget_def)

lemma mget_Cons [simp]: "mget ((k', v) # m) k = (if k = k' then Some v else mget m k)"
  by (simp add: mget_def)

lemma mget_mput [simp, gomap_simps]: "mget (mput m k v) k' = (if k' = k then Some v else mget m k')"
  by (simp add: mget_def mput_def update_conv')

lemma mget_mdel [simp, gomap_simps]: "mget (mdel m k) k' = (if k' = k then None else mget m k')"
  by (simp add: mget_def mdel_def delete_conv')

lemma wf_gomap_Nil [simp]: "wf_gomap []"
  by (simp add: wf_gomap_def mkeys_def)

lemma wf_gomap_mput [simp, intro]: "wf_gomap m \<Longrightarrow> wf_gomap (mput m k v)"
  by (simp add: wf_gomap_def mkeys_def mput_def distinct_update)

lemma wf_gomap_mdel [simp, intro]: "wf_gomap m \<Longrightarrow> wf_gomap (mdel m k)"
  by (simp add: wf_gomap_def mkeys_def mdel_def distinct_delete)

lemma mkeys_mput: "set (mkeys (mput m k v)) = insert k (set (mkeys m))"
  by (simp add: mkeys_def mput_def dom_update)


lemma mget_None_iff: "mget m k = None \<longleftrightarrow> k \<notin> set (mkeys m)"
  by (simp add: mget_def mkeys_def map_of_eq_None_iff)

lemma mget_in_set: "wf_gomap m \<Longrightarrow> mget m k = Some v \<longleftrightarrow> (k, v) \<in> set m"
  by (simp add: wf_gomap_def mkeys_def mget_def)

lemma mget_SomeD: "mget m k = Some v \<Longrightarrow> (k, v) \<in> set m"
  by (simp add: mget_def map_of_SomeD)

lemma mput_entries: "x \<in> set (mput m k v) \<Longrightarrow> x = (k, v) \<or> x \<in> set m"
  by (induction m) (auto simp: mput_def split: if_splits)

lemma mdel_entries: "x \<in> set (mdel m k) \<Longrightarrow> x \<in> set m \<and> fst x \<noteq> k"
  by (induction m) (auto simp: mdel_def split: if_splits)


lemma mget_rev: "wf_gomap m \<Longrightarrow> mget (rev m) k = mget m k"
proof -
  assume w: "wf_gomap m"
  then have "wf_gomap (rev m)" by (simp add: wf_gomap_def mkeys_def rev_map [symmetric])
  with w show ?thesis by (metis mget_in_set not_None_eq set_rev)
qed

end
