(* ===== verification/GoJson.thy ===== *)
theory GoJson
  imports Prelude
begin

text \<open>
  Go values as the program sees them in a \<open>map[string]any\<close>, JSON texts, and the parts of
  \<open>encoding/json\<close> that the program runs between the two.

  \<^item> \<open>f64\<close>: a finite \<open>float64\<close>, as mantissa and exponent of two.  A number of a JSON text becomes
    the nearest \<open>float64\<close>, ties to even (\<open>f64_of_ratio\<close>), and Go's conversion \<open>int64(x)\<close> cuts the
    fraction; outside the range of \<open>int64\<close> it gives the value amd64 gives (the Dockerfile builds
    for \<open>GOARCH=amd64\<close>), the least \<open>int64\<close>.
  \<^item> \<open>json\<close>: the syntax tree of a JSON text, with the members of an object in order and duplicates
    kept.  \<open>JShortest f\<close> is the literal \<open>json.Marshal\<close> prints for the \<open>float64\<close> \<open>f\<close>: the shortest
    decimal that reads back as \<open>f\<close>.
  \<^item> \<open>gval\<close>: a Go value of type \<open>any\<close>.  \<open>json.Number\<close>, which two helpers of the program also
    accept, is left out: it only appears when a decoder asks for it with \<open>UseNumber\<close>, and no
    decoder of the program does.
  \<^item> \<open>decode_any\<close> is \<open>json.Unmarshal\<close> into \<open>any\<close>, \<open>encode\<close> is \<open>json.Marshal\<close>, and the \<open>dec_\<close>
    functions decode the members of a JSON object into the fields of a Go struct.
\<close>

section \<open>float64\<close>

text \<open>\<open>F64 m e\<close> is the number \<open>m * 2 ^ e\<close>.\<close>

datatype f64 = F64 int int

function ilog2 :: "int \<Rightarrow> int" where
  "ilog2 n = (if n < 2 then 0 else 1 + ilog2 (n div 2))"
  by pat_completeness auto
termination
  by (relation "measure nat") auto

declare ilog2.simps [simp del]

text \<open>\<open>n / d\<close> rounded to the nearest integer, ties to even (\<open>0 <= n\<close>, \<open>0 < d\<close>).\<close>

definition round_even :: "int \<Rightarrow> int \<Rightarrow> int" where
  "round_even n d =
     (let q = n div d; r = n mod d
      in if 2 * r < d then q else if d < 2 * r then q + 1 else if even q then q else q + 1)"

text \<open>The exponent of the binary digit that leads \<open>n / d\<close>, for positive \<open>n\<close> and \<open>d\<close>.\<close>

definition ratio_log2 :: "int \<Rightarrow> int \<Rightarrow> int" where
  "ratio_log2 n d =
     (let k = ilog2 n - ilog2 d
      in if d * 2 ^ nat k \<le> n * 2 ^ nat (- k) then k else k - 1)"

text \<open>
  The \<open>float64\<close> nearest to \<open>n / d\<close>: 53 significant bits, exponents from -1074 up, and \<open>None\<close>
  where the number is too large (\<open>strconv.ParseFloat\<close> reports a range error).
\<close>

definition f64_of_ratio :: "int \<Rightarrow> int \<Rightarrow> f64 option" where
  "f64_of_ratio n d =
     (let a = \<bar>n\<bar>;
          e = max (- 1074) (ratio_log2 a d - 52);
          m = round_even (a * 2 ^ nat (- e)) (d * 2 ^ nat e)
      in if 971 < e \<or> (e = 971 \<and> 2 ^ 53 \<le> m) then None else Some (F64 (sgn n * m) e))"

definition f64_of_int :: "int \<Rightarrow> f64 option" where
  "f64_of_int i = f64_of_ratio i 1"

fun f64_trunc :: "f64 \<Rightarrow> int" where
  "f64_trunc (F64 m e) =
     (if 0 \<le> e then m * 2 ^ nat e else sgn m * (\<bar>m\<bar> div 2 ^ nat (- e)))"

fun f64_integral :: "f64 \<Rightarrow> bool" where
  "f64_integral (F64 m e) = (0 \<le> e \<or> \<bar>m\<bar> mod 2 ^ nat (- e) = 0)"

text \<open>Go's conversion \<open>int64(x)\<close> (and \<open>int(x)\<close>, of the same width) of a \<open>float64\<close>.\<close>

definition f64_to_int :: "f64 \<Rightarrow> int" where
  "f64_to_int x = (let t = f64_trunc x in if in_int64 t then t else min_int64)"

section \<open>JSON texts and Go values\<close>

datatype jnum =
    JInt int            \<comment> \<open>a literal without fraction and exponent\<close>
  | JDec int int        \<comment> \<open>\<open>m * 10 ^ e\<close>, written with a fraction or an exponent\<close>
  | JShortest f64       \<comment> \<open>what \<open>json.Marshal\<close> prints for a \<open>float64\<close>\<close>

datatype json =
    JNull
  | JBool bool
  | JNum jnum
  | JStr string
  | JArr "json list"
  | JObj "(string \<times> json) list"

datatype gval =
    GNil
  | GBool bool
  | GFloat f64
  | GInt64 int
  | GInt int
  | GStr string
  | GArr "gval list"
  | GObj "(string \<times> gval) list"

text \<open>The Go type \<open>map[string]any\<close>.\<close>

type_synonym gobj = "(string, gval) gomap"

fun f64_of_num :: "jnum \<Rightarrow> f64 option" where
  "f64_of_num (JInt i) = f64_of_int i"
| "f64_of_num (JDec m e) = f64_of_ratio (m * 10 ^ nat e) (10 ^ nat (- e))"
| "f64_of_num (JShortest f) = Some f"

text \<open>A number literal decoded into an \<open>int\<close> or \<open>int64\<close> field: only integer literals in range.\<close>

fun int_of_num :: "jnum \<Rightarrow> int option" where
  "int_of_num (JInt i) = (if in_int64 i then Some i else None)"
| "int_of_num (JDec m e) = None"
| "int_of_num (JShortest f) =
     (if f64_integral f \<and> in_int64 (f64_trunc f) then Some (f64_trunc f) else None)"

text \<open>\<open>json.Unmarshal\<close> into \<open>any\<close>; \<open>None\<close> is its error (a number too large for \<open>float64\<close>).\<close>

primrec decode_any :: "json \<Rightarrow> gval option" where
  "decode_any JNull = Some GNil"
| "decode_any (JBool b) = Some (GBool b)"
| "decode_any (JNum n) = map_option GFloat (f64_of_num n)"
| "decode_any (JStr s) = Some (GStr s)"
| "decode_any (JArr js) = map_option GArr (those (map decode_any js))"
| "decode_any (JObj kvs) =
     map_option (\<lambda>vs. GObj (mput_all [] vs))
       (those (map (\<lambda>(k, v). map_option (Pair k) v) (map (map_prod id decode_any) kvs)))"

text \<open>\<open>json.Marshal\<close>.\<close>

primrec encode :: "gval \<Rightarrow> json" where
  "encode GNil = JNull"
| "encode (GBool b) = JBool b"
| "encode (GFloat f) = JNum (JShortest f)"
| "encode (GInt64 i) = JNum (JInt i)"
| "encode (GInt i) = JNum (JInt i)"
| "encode (GStr s) = JStr s"
| "encode (GArr vs) = JArr (map encode vs)"
| "encode (GObj kvs) = JObj (map (map_prod id encode) kvs)"

section \<open>Decoding into the fields of a struct\<close>

text \<open>
  \<open>encoding/json\<close> matches the key of a member with a field without regard to case, where the
  letters of Unicode that fold to an ASCII letter are the long s (bytes C5 BF) and the Kelvin
  sign (bytes E2 84 AA).  The fields of the program's structs have ASCII names.
\<close>

definition upper :: "char \<Rightarrow> char" where
  "upper c = (if 97 \<le> (of_char c :: nat) \<and> (of_char c :: nat) \<le> 122
              then char_of ((of_char c :: nat) - 32) else c)"

fun fold_name :: "string \<Rightarrow> string" where
  "fold_name [] = []"
| "fold_name (c # cs) =
     (case cs of
        d # ds \<Rightarrow>
          (if c = CHR 0xC5 \<and> d = CHR 0xBF then CHR ''S'' # fold_name ds
           else (case ds of
              x # xs \<Rightarrow> (if c = CHR 0xE2 \<and> d = CHR 0x84 \<and> x = CHR 0xAA
                         then CHR ''K'' # fold_name xs else upper c # fold_name cs)
            | [] \<Rightarrow> upper c # fold_name cs))
      | [] \<Rightarrow> [upper c])"

text \<open>The values of the members that go into a field, in the order of the text.\<close>

definition members :: "string \<Rightarrow> (string \<times> json) list \<Rightarrow> json list" where
  "members f kvs = map snd (filter (\<lambda>(k, v). fold_name k = fold_name f) kvs)"

text \<open>
  The decoders of the field types.  Each runs over the members of the field; \<open>null\<close> leaves a
  \<open>string\<close> or an \<open>int\<close> as it is and makes a pointer, map or slice nil; \<open>None\<close> is the error of
  \<open>json.Unmarshal\<close>.
\<close>

fun dec_string :: "string \<Rightarrow> json list \<Rightarrow> string option" where
  "dec_string s [] = Some s"
| "dec_string s (JNull # js) = dec_string s js"
| "dec_string s (JStr t # js) = dec_string t js"
| "dec_string s (j # js) = None"

fun dec_int :: "int \<Rightarrow> json list \<Rightarrow> int option" where
  "dec_int i [] = Some i"
| "dec_int i (JNull # js) = dec_int i js"
| "dec_int i (JNum n # js) = (case int_of_num n of None \<Rightarrow> None | Some k \<Rightarrow> dec_int k js)"
| "dec_int i (j # js) = None"

fun dec_int_ptr :: "int option \<Rightarrow> json list \<Rightarrow> int option option" where
  "dec_int_ptr p [] = Some p"
| "dec_int_ptr p (JNull # js) = dec_int_ptr None js"
| "dec_int_ptr p (JNum n # js) =
     (case int_of_num n of None \<Rightarrow> None | Some k \<Rightarrow> dec_int_ptr (Some k) js)"
| "dec_int_ptr p (j # js) = None"

text \<open>A \<open>map[string]any\<close>: nil or a map, into which a further member of the same field is stored.\<close>

fun dec_obj :: "gobj option \<Rightarrow> json list \<Rightarrow> gobj option option" where
  "dec_obj m [] = Some m"
| "dec_obj m (JNull # js) = dec_obj None js"
| "dec_obj m (JObj kvs # js) =
     (case decode_any (JObj kvs) of
        Some (GObj o') \<Rightarrow> dec_obj (Some (mput_all (case m of None \<Rightarrow> [] | Some o0 \<Rightarrow> o0) o')) js
      | _ \<Rightarrow> None)"
| "dec_obj m (j # js) = None"

text \<open>The elements of a \<open>[]string\<close>, \<open>[]int\<close> or \<open>[]int64\<close>, and the entries of a \<open>map[string]string\<close>: \<open>null\<close> leaves
  what was there.\<close>

fun elem_string :: "string \<Rightarrow> json \<Rightarrow> string option" where
  "elem_string s JNull = Some s"
| "elem_string s (JStr t) = Some t"
| "elem_string s _ = None"

fun elem_int :: "int \<Rightarrow> json \<Rightarrow> int option" where
  "elem_int i JNull = Some i"
| "elem_int i (JNum n) = int_of_num n"
| "elem_int i _ = None"

text \<open>
  A further member of the same field is decoded into the array of the slice that is there: \<open>old\<close> is what
  that array holds, beyond the length of the slice too, and \<open>z\<close> is the zero value.  \<open>null\<close> and an
  empty array start afresh.
\<close>

fun dec_elems :: "('a \<Rightarrow> json \<Rightarrow> 'a option) \<Rightarrow> 'a \<Rightarrow> 'a list \<Rightarrow> json list \<Rightarrow> 'a list option" where
  "dec_elems el z old [] = Some []"
| "dec_elems el z old (e # es) =
     (case el (case old of [] \<Rightarrow> z | o1 # _ \<Rightarrow> o1) e of
        None \<Rightarrow> None
      | Some v \<Rightarrow> map_option (Cons v) (dec_elems el z (tl old) es))"

fun dec_list :: "('a \<Rightarrow> json \<Rightarrow> 'a option) \<Rightarrow> 'a \<Rightarrow> 'a list \<Rightarrow> 'a list \<Rightarrow> json list \<Rightarrow> 'a list option" where
  "dec_list el z old xs [] = Some xs"
| "dec_list el z old xs (JNull # js) = dec_list el z [] [] js"
| "dec_list el z old xs (JArr es # js) =
     (case dec_elems el z old es of
        None \<Rightarrow> None
      | Some ys \<Rightarrow> dec_list el z (if ys = [] then [] else ys @ drop (length ys) old) ys js)"
| "dec_list el z old xs (j # js) = None"

fun dec_strmap :: "(string, string) gomap \<Rightarrow> json list \<Rightarrow> (string, string) gomap option" where
  "dec_strmap m [] = Some m"
| "dec_strmap m (JNull # js) = dec_strmap [] js"
| "dec_strmap m (JObj kvs # js) =
     (case those (map (\<lambda>(k, v). map_option (Pair k) (elem_string [] v)) kvs) of
        None \<Rightarrow> None
      | Some es \<Rightarrow> dec_strmap (mput_all m es) js)"
| "dec_strmap m (j # js) = None"

text \<open>The members of a text decoded into a struct: \<open>null\<close> leaves the struct as it is.\<close>

fun struct_members :: "json \<Rightarrow> (string \<times> json) list option" where
  "struct_members JNull = Some []"
| "struct_members (JObj kvs) = Some kvs"
| "struct_members _ = None"

section \<open>Lemmas on float64\<close>

lemma ilog2_bounds: "0 \<le> a \<Longrightarrow> a < 2 ^ n \<Longrightarrow> 0 < n \<Longrightarrow> 0 \<le> ilog2 a \<and> ilog2 a < int n"
proof (induction a arbitrary: n rule: ilog2.induct)
  case (1 a)
  show ?case
  proof (cases "a < 2")
    case True
    with 1 show ?thesis by (simp add: ilog2.simps [of a])
  next
    case False
    then have "n \<noteq> 1" using 1 by auto
    then obtain k where n: "n = Suc k" "0 < k"
      using 1 by (metis One_nat_def gr0_implies_Suc neq0_conv)
    from 1 False n have "0 \<le> ilog2 (a div 2) \<and> ilog2 (a div 2) < int k"
      by (intro "1.IH") auto
    with False n show ?thesis by (simp add: ilog2.simps [of a])
  qed
qed

lemma round_even_1 [simp]: "round_even n 1 = n"
  by (simp add: round_even_def)

lemma ilog2_1 [simp]: "ilog2 1 = 0"
  by (subst ilog2.simps) simp

lemma ratio_log2_int_le:
  assumes "0 \<le> a" "a < 2 ^ n" "0 < n"
  shows "ratio_log2 a 1 < int n"
  using ilog2_bounds [OF assms] by (simp add: ratio_log2_def Let_def)

lemma f64_trunc_scaled:
  assumes "e \<le> 0"
  shows "f64_trunc (F64 (sgn i * (\<bar>i\<bar> * 2 ^ nat (- e))) e) = i"
proof -
  have "sgn (sgn i * (\<bar>i\<bar> * 2 ^ nat (- e))) = sgn i"
    by (cases "i = 0") (simp_all add: sgn_mult)
  moreover have "\<bar>sgn i * (\<bar>i\<bar> * 2 ^ nat (- e))\<bar> div 2 ^ nat (- e) = \<bar>i\<bar>"
    by (simp add: abs_mult abs_sgn_eq)
  ultimately show ?thesis using assms by (auto simp: sgn_mult_abs)
qed

text \<open>Integers of at most 53 bits survive the way into a \<open>float64\<close> and back.\<close>

lemma f64_of_small_int:
  assumes "\<bar>i\<bar> < 2 ^ 53"
  shows "\<exists>m e. f64_of_int i = Some (F64 m e) \<and> f64_trunc (F64 m e) = i"
proof -
  let ?e = "max (- 1074) (ratio_log2 \<bar>i\<bar> 1 - 52)"
  have e: "?e \<le> 0"
    using ratio_log2_int_le [of "\<bar>i\<bar>" 53] assms by simp
  then have "?e \<noteq> 971" "\<not> 971 < ?e" "nat ?e = 0"
    by (auto simp del: max_less_iff_conj)
  then have f: "f64_of_int i = Some (F64 (sgn i * (\<bar>i\<bar> * 2 ^ nat (- ?e))) ?e)"
    unfolding f64_of_int_def f64_of_ratio_def Let_def by (simp only: simp_thms if_False round_even_1 power_0 mult_1_right)
  have "f64_trunc (F64 (sgn i * (\<bar>i\<bar> * 2 ^ nat (- ?e))) ?e) = i"
    using e by (rule f64_trunc_scaled)
  with f show ?thesis by blast
qed

lemma f64_of_int_2_53: "f64_of_int 9007199254740992 = Some (F64 4503599627370496 1)"
  by code_simp

lemma f64_of_int_m2_53: "f64_of_int (- 9007199254740992) = Some (F64 (- 4503599627370496) 1)"
  by code_simp

lemma f64_of_int_exact:
  assumes "\<bar>i\<bar> \<le> 2 ^ 53"
  obtains f where "f64_of_int i = Some f" "f64_to_int f = i"
proof -
  have r: "in_int64 i"
    using assms by (simp add: in_int64_def min_int64_def max_int64_def abs_le_iff)
  consider "\<bar>i\<bar> < 2 ^ 53" | "i = 9007199254740992" | "i = - 9007199254740992"
    using assms by fastforce
  then obtain f where "f64_of_int i = Some f" "f64_trunc f = i"
  proof cases
    case 1
    then show ?thesis using that f64_of_small_int by blast
  qed (use that f64_of_int_2_53 f64_of_int_m2_53 in auto)
  then show ?thesis using that r by (simp add: f64_to_int_def)
qed

text \<open>Above 53 bits distinct integers meet.\<close>

lemma f64_of_int_loss: "f64_of_int 9007199254740993 = f64_of_int 9007199254740992"
  by code_simp

text \<open>Every \<open>int64\<close> has a nearest \<open>float64\<close>.\<close>

lemma f64_of_int64_Some: "in_int64 i \<Longrightarrow> \<exists>f. f64_of_int i = Some f"
proof -
  assume "in_int64 i"
  then have "\<bar>i\<bar> < 2 ^ 64" by (auto simp: in_int64_def min_int64_def max_int64_def)
  then have "ratio_log2 \<bar>i\<bar> 1 < 64" using ratio_log2_int_le [of "\<bar>i\<bar>" 64] by simp
  then show ?thesis by (auto simp: f64_of_int_def f64_of_ratio_def Let_def)
qed

section \<open>Lemmas on decoding\<close>

text \<open>Values as they come out of \<open>json.Unmarshal\<close>: only floats as numbers, one entry per key.\<close>

primrec decoded :: "gval \<Rightarrow> bool" where
  "decoded GNil = True"
| "decoded (GBool b) = True"
| "decoded (GFloat f) = True"
| "decoded (GInt64 i) = False"
| "decoded (GInt i) = False"
| "decoded (GStr s) = True"
| "decoded (GArr vs) = list_all decoded vs"
| "decoded (GObj kvs) = (wf_gomap kvs \<and> list_all (pred_prod (\<lambda>_. True) decoded) kvs)"

lemma those_map_Some: "(\<And>x. x \<in> set xs \<Longrightarrow> f x = Some (g x)) \<Longrightarrow> those (map f xs) = Some (map g xs)"
  by (induction xs) auto

lemma those_SomeD: "those xs = Some ys \<Longrightarrow> xs = map Some ys"
  by (induction xs arbitrary: ys) (auto split: option.splits)

lemma mput_notin: "k \<notin> set (mkeys m) \<Longrightarrow> mput m k v = m @ [(k, v)]"
  by (induction m) (auto simp: mput_def mkeys_def)

lemma mput_all_distinct:
  "distinct (mkeys m @ mkeys kvs) \<Longrightarrow> mput_all m kvs = m @ kvs"
proof (induction kvs arbitrary: m)
  case (Cons x kvs)
  obtain k v where x: "x = (k, v)" by (cases x)
  from Cons.prems x have "mput m k v = m @ [(k, v)]"
    by (intro mput_notin) (auto simp: mkeys_def)
  moreover from Cons.prems x have "distinct (mkeys (m @ [(k, v)]) @ mkeys kvs)"
    by (auto simp: mkeys_def)
  ultimately show ?case using Cons.IH [of "m @ [(k, v)]"] x
    by (simp add: mput_all_def)
qed (simp add: mput_all_def)

lemma wf_mput_all: "wf_gomap m \<Longrightarrow> wf_gomap (mput_all m kvs)"
  by (induction kvs arbitrary: m) (auto simp: mput_all_def)

lemma mget_mput_all:
  "mget (mput_all m kvs) k = (case mget (rev kvs) k of None \<Rightarrow> mget m k | Some v \<Rightarrow> Some v)"
proof (induction kvs arbitrary: m)
  case (Cons x kvs)
  obtain k' v where x: "x = (k', v)" by (cases x)
  have "mget (rev kvs @ [x]) k = (case mget (rev kvs) k of None \<Rightarrow> mget [x] k | Some u \<Rightarrow> Some u)"
    by (auto simp: mget_def map_add_def split: option.splits)
  with Cons [of "mput m k' v"] x show ?case
    by (auto simp: mput_all_def split: option.splits)
qed (simp add: mput_all_def)

text \<open>Marshalling a decoded value and unmarshalling the text gives the value back.\<close>

lemma decode_encode: "decoded v \<Longrightarrow> decode_any (encode v) = Some v"
proof (induction v)
  case (GArr vs)
  then have "those (map (decode_any \<circ> encode) vs) = Some (map id vs)"
    by (intro those_map_Some) (auto simp: list_all_iff)
  then show ?case by (simp add: comp_def)
next
  case (GObj kvs)
  have "those (map (\<lambda>(k, v). map_option (Pair k) v)
          (map (map_prod id decode_any) (map (map_prod id encode) kvs))) = Some (map id kvs)"
    unfolding map_map
  proof (rule those_map_Some)
    fix x assume x: "x \<in> set kvs"
    obtain k v where kv: "x = (k, v)" by (cases x)
    with x GObj have "decode_any (encode v) = Some v"
      by (fastforce simp: list_all_iff)
    with kv show "((\<lambda>(k, v). map_option (Pair k) v) \<circ> (map_prod id decode_any \<circ> map_prod id encode)) x
        = Some (id x)" by simp
  qed
  moreover have "mput_all [] kvs = kvs"
    using GObj.prems by (intro mput_all_distinct [where m = "[]", simplified])
      (auto simp: wf_gomap_def mkeys_def)
  ultimately show ?case by (simp del: map_map)
qed auto

end
