(* ===== verification/MetaUtil.thy ===== *)
theory MetaUtil
  imports GoJson
begin

text \<open>
  \<open>internal/api/handlers/updates/util.go\<close>: the accessors of \<open>map[string]any\<close> metadata and the
  helpers on its lists.  A Go pair \<open>(v, ok)\<close> is an option.  \<open>item_id\<close> and \<open>id_exists\<close> are the
  loop body and the loop that \<open>schema.go\<close>, \<open>partition.go\<close>, \<open>sortorder.go\<close> and \<open>snapshot.go\<close>
  repeat to look for an item of a list by its id.

  The lemmas describe a list of items by the list of its ids (\<open>item_ids\<close>): which ids a filter
  keeps, that the next id is fresh, that removal keeps the protected id.
\<close>

section \<open>Accessors\<close>

definition deepCopyMap :: "gobj \<Rightarrow> gobj option" where
  "deepCopyMap m = (case decode_any (encode (GObj m)) of Some (GObj r) \<Rightarrow> Some r | _ \<Rightarrow> None)"

fun num_of_val :: "gval \<Rightarrow> int option" where
  "num_of_val (GFloat f) = Some (f64_to_int f)"
| "num_of_val (GInt64 i) = Some i"
| "num_of_val (GInt i) = Some i"
| "num_of_val _ = None"

definition getInt64 :: "gobj \<Rightarrow> string \<Rightarrow> int option" where
  "getInt64 m key = (case mget m key of None \<Rightarrow> None | Some v \<Rightarrow> num_of_val v)"

definition getInt :: "gobj \<Rightarrow> string \<Rightarrow> int option" where
  "getInt m key = (case mget m key of None \<Rightarrow> None | Some v \<Rightarrow> num_of_val v)"

definition getString :: "gobj \<Rightarrow> string \<Rightarrow> string option" where
  "getString m key = (case mget m key of Some (GStr s) \<Rightarrow> Some s | _ \<Rightarrow> None)"

definition getSlice :: "gobj \<Rightarrow> string \<Rightarrow> gval list option" where
  "getSlice m key = (case mget m key of Some (GArr xs) \<Rightarrow> Some xs | _ \<Rightarrow> None)"

definition getMap :: "gobj \<Rightarrow> string \<Rightarrow> gobj option" where
  "getMap m key = (case mget m key of Some (GObj o') \<Rightarrow> Some o' | _ \<Rightarrow> None)"

definition setIfNotNil :: "gobj \<Rightarrow> string \<Rightarrow> gval option \<Rightarrow> gobj" where
  "setIfNotNil m key v = (case v of None \<Rightarrow> m | Some x \<Rightarrow> mput m key x)"

definition ensureSlice :: "gobj \<Rightarrow> string \<Rightarrow> gval list \<times> gobj" where
  "ensureSlice m key =
     (case mget m key of Some (GArr xs) \<Rightarrow> (xs, m) | _ \<Rightarrow> ([], mput m key (GArr [])))"

definition ensureMap :: "gobj \<Rightarrow> string \<Rightarrow> gobj \<times> gobj" where
  "ensureMap m key =
     (case mget m key of Some (GObj o') \<Rightarrow> (o', m) | _ \<Rightarrow> ([], mput m key (GObj [])))"

section \<open>Lists of items\<close>

fun filterSlice :: "gval list \<Rightarrow> (gval \<Rightarrow> bool) \<Rightarrow> gval list" where
  "filterSlice [] p = []"
| "filterSlice (x # xs) p = (if p x then x # filterSlice xs p else filterSlice xs p)"

text \<open>\<open>if m, ok := item.(map[string]any); ok { if id, ok := getInt(m, key); ok\<close>\<close>

definition item_id :: "string \<Rightarrow> gval \<Rightarrow> int option" where
  "item_id key x = (case x of GObj m \<Rightarrow> getInt m key | _ \<Rightarrow> None)"

fun maxIntFrom :: "int \<Rightarrow> gval list \<Rightarrow> string \<Rightarrow> int" where
  "maxIntFrom mx [] key = mx"
| "maxIntFrom mx (x # xs) key =
     maxIntFrom (case item_id key x of Some v \<Rightarrow> (if v > mx then v else mx) | None \<Rightarrow> mx) xs key"

definition maxIntInSlice :: "gval list \<Rightarrow> string \<Rightarrow> int" where
  "maxIntInSlice xs key = maxIntFrom 0 xs key"

fun id_exists :: "gval list \<Rightarrow> string \<Rightarrow> int \<Rightarrow> bool" where
  "id_exists [] key i = False"
| "id_exists (x # xs) key i = (item_id key x = Some i \<or> id_exists xs key i)"

text \<open>The predicate of the filters that drop the items with a given id; items without one stay.\<close>

definition keeps_id :: "(int \<Rightarrow> bool) \<Rightarrow> string \<Rightarrow> gval \<Rightarrow> bool" where
  "keeps_id p key x = (case item_id key x of Some i \<Rightarrow> p i | None \<Rightarrow> True)"

definition removeItemsByID ::
    "gval list \<Rightarrow> int list \<Rightarrow> string \<Rightarrow> int \<Rightarrow> string \<Rightarrow> string + gval list" where
  "removeItemsByID items idsToRemove idKey protectedID itemType =
     (if idsToRemove = [] \<or> items = [] then Inr items
      else if protectedID \<in> set idsToRemove
        then Inl (''cannot remove '' @ itemType @ '' '' @ show_int protectedID)
      else let filtered = filterSlice items (keeps_id (\<lambda>i. i \<notin> set idsToRemove) idKey)
           in if filtered = [] then Inl (''cannot remove all '' @ itemType @ ''s'') else Inr filtered)"

section \<open>Reading the model\<close>

text \<open>The items of a list of the metadata, empty when the key holds no list, and their ids.\<close>

definition slice_of :: "gobj \<Rightarrow> string \<Rightarrow> gval list" where
  "slice_of m key = (case getSlice m key of Some xs \<Rightarrow> xs | None \<Rightarrow> [])"

fun item_ids :: "string \<Rightarrow> gval list \<Rightarrow> int list" where
  "item_ids key [] = []"
| "item_ids key (x # xs) =
     (case item_id key x of Some i \<Rightarrow> i # item_ids key xs | None \<Rightarrow> item_ids key xs)"

definition the_int :: "gobj \<Rightarrow> string \<Rightarrow> int" where
  "the_int m key = (case getInt m key of Some i \<Rightarrow> i | None \<Rightarrow> 0)"

lemma getInt64_eq: "getInt64 = getInt"
  by (intro ext) (simp add: getInt64_def getInt_def)

text \<open>Reads of metadata after a write: to the same key, and past it.\<close>

lemma getInt_mput [gomap_simps, simp]:
  "getInt (mput m k v) k' = (if k' = k then num_of_val v else getInt m k')"
  by (simp add: getInt_def)

lemma getString_mput [gomap_simps, simp]:
  "getString (mput m k v) k' =
     (if k' = k then (case v of GStr s \<Rightarrow> Some s | _ \<Rightarrow> None) else getString m k')"
  by (auto simp: getString_def split: gval.splits)

lemma getSlice_mput [gomap_simps, simp]:
  "getSlice (mput m k v) k' =
     (if k' = k then (case v of GArr s \<Rightarrow> Some s | _ \<Rightarrow> None) else getSlice m k')"
  by (auto simp: getSlice_def split: gval.splits)

lemma getMap_mput [gomap_simps, simp]:
  "getMap (mput m k v) k' =
     (if k' = k then (case v of GObj s \<Rightarrow> Some s | _ \<Rightarrow> None) else getMap m k')"
  by (auto simp: getMap_def split: gval.splits)

lemma getInt_mdel [gomap_simps, simp]: "getInt (mdel m k) k' = (if k' = k then None else getInt m k')"
  by (simp add: getInt_def)

lemma getString_mdel [gomap_simps, simp]:
  "getString (mdel m k) k' = (if k' = k then None else getString m k')"
  by (simp add: getString_def)

lemma getSlice_mdel [gomap_simps, simp]:
  "getSlice (mdel m k) k' = (if k' = k then None else getSlice m k')"
  by (simp add: getSlice_def)

lemma getMap_mdel [gomap_simps, simp]:
  "getMap (mdel m k) k' = (if k' = k then None else getMap m k')"
  by (simp add: getMap_def)

lemma slice_of_mput [gomap_simps, simp]:
  "slice_of (mput m k v) k' =
     (if k' = k then (case v of GArr s \<Rightarrow> s | _ \<Rightarrow> []) else slice_of m k')"
  by (auto simp: slice_of_def split: gval.splits)

lemma slice_of_mdel [gomap_simps, simp]:
  "slice_of (mdel m k) k' = (if k' = k then [] else slice_of m k')"
  by (auto simp: slice_of_def)

lemma the_int_mput [gomap_simps, simp]:
  "the_int (mput m k v) k' =
     (if k' = k then (case num_of_val v of Some i \<Rightarrow> i | None \<Rightarrow> 0) else the_int m k')"
  by (simp add: the_int_def)

text \<open>Two metadata objects that agree on a key are read alike there.\<close>

lemma reads_cong:
  assumes "mget m' k = mget m k"
  shows "getInt m' k = getInt m k" "getString m' k = getString m k" "getSlice m' k = getSlice m k"
    "getMap m' k = getMap m k" "slice_of m' k = slice_of m k" "the_int m' k = the_int m k"
  using assms by (simp_all add: getInt_def getString_def getSlice_def getMap_def slice_of_def the_int_def)

lemma fst_ensureSlice [simp]: "fst (ensureSlice m k) = slice_of m k"
  by (auto simp: ensureSlice_def slice_of_def getSlice_def split: option.splits gval.splits)

lemma mget_snd_ensureSlice [gomap_simps]:
  "k' \<noteq> k \<Longrightarrow> mget (snd (ensureSlice m k)) k' = mget m k'"
  by (auto simp: ensureSlice_def split: option.splits gval.splits)

lemma the_int_ensureSlice: "ensureSlice m k = (xs, m') \<Longrightarrow> k' \<noteq> k \<Longrightarrow> the_int m' k' = the_int m k'"
  by (auto simp: ensureSlice_def split: option.splits gval.splits)

lemma ensureSliceE:
  assumes "ensureSlice m k = (xs, m')"
  obtains "xs = slice_of m k" "getSlice m' k = Some xs" "\<And>k'. k' \<noteq> k \<Longrightarrow> mget m' k' = mget m k'"
  using assms
  by (auto simp: ensureSlice_def slice_of_def getSlice_def split: option.splits gval.splits)

lemma ensureMapE:
  assumes "ensureMap m k = (x, m')"
  obtains "x = (case getMap m k of Some r \<Rightarrow> r | None \<Rightarrow> [])" "getMap m' k = Some x"
    "\<And>k'. k' \<noteq> k \<Longrightarrow> mget m' k' = mget m k'"
  using assms by (auto simp: ensureMap_def getMap_def split: option.splits gval.splits)

section \<open>Lemmas on lists of items\<close>

lemma filterSlice_filter: "filterSlice xs p = filter p xs"
  by (induction xs) auto

lemma item_ids_append [simp]: "item_ids key (xs @ ys) = item_ids key xs @ item_ids key ys"
  by (induction xs) (auto split: option.splits)

lemma id_exists_iff: "id_exists xs key i \<longleftrightarrow> i \<in> set (item_ids key xs)"
  by (induction xs) (auto split: option.splits)

lemma item_ids_keeps:
  "item_ids key (filter (keeps_id p key) xs) = filter p (item_ids key xs)"
  by (induction xs) (auto simp: keeps_id_def split: option.splits)

lemma maxIntFrom_ge: "mx \<le> maxIntFrom mx xs key"
proof (induction xs arbitrary: mx)
  case (Cons x xs)
  then show ?case by (auto split: option.splits intro: order_trans [OF _ Cons.IH])
qed simp

lemma maxIntFrom_bound: "i \<in> set (item_ids key xs) \<Longrightarrow> i \<le> maxIntFrom mx xs key"
proof (induction xs arbitrary: mx)
  case (Cons x xs)
  then show ?case
    by (auto split: option.splits if_splits intro: order_trans [OF _ maxIntFrom_ge])
qed simp

lemma maxIntInSlice_ge0: "0 \<le> maxIntInSlice xs key"
  by (simp add: maxIntInSlice_def maxIntFrom_ge)

lemma maxIntInSlice_bound: "i \<in> set (item_ids key xs) \<Longrightarrow> i \<le> maxIntInSlice xs key"
  by (simp add: maxIntInSlice_def maxIntFrom_bound)

lemma wrap64_id [simp]: "in_int64 i \<Longrightarrow> wrap64 i = i"
  by (simp add: in_int64_def min_int64_def max_int64_def wrap64_def)

lemma wrap64_range: "in_int64 (wrap64 i)"
  by (simp add: in_int64_def min_int64_def max_int64_def wrap64_def)

text \<open>The id the code picks for a new item is fresh, unless the largest \<open>int64\<close> is taken.\<close>

lemma next_id_fresh:
  assumes "maxIntInSlice xs key < max_int64"
  shows "wrap64 (maxIntInSlice xs key + 1) \<notin> set (item_ids key xs)"
proof -
  have "in_int64 (maxIntInSlice xs key + 1)"
    using assms maxIntInSlice_ge0 [of xs key] by (simp add: in_int64_def min_int64_def max_int64_def)
  then show ?thesis using maxIntInSlice_bound by fastforce
qed

lemma removeItemsByID_InrE:
  assumes "removeItemsByID xs rs key p ty = Inr ys"
  obtains "item_ids key ys = filter (\<lambda>i. i \<notin> set rs) (item_ids key xs)" "p \<notin> set rs \<or> xs = []"
proof (cases "rs = [] \<or> xs = []")
  case True
  with assms show ?thesis by (intro that) (auto simp: removeItemsByID_def)
next
  case False
  with assms show ?thesis
    by (intro that)
      (auto simp: removeItemsByID_def Let_def filterSlice_filter item_ids_keeps split: if_splits)
qed

text \<open>A list that has items keeps at least one.\<close>

lemma removeItemsByID_nonempty:
  "removeItemsByID xs rs key p ty = Inr ys \<Longrightarrow> xs \<noteq> [] \<Longrightarrow> ys \<noteq> []"
  by (auto simp: removeItemsByID_def Let_def split: if_splits)

lemma removeItemsByID_protected:
  assumes "p \<in> set rs" "xs \<noteq> []"
  shows "removeItemsByID xs rs key p ty = Inl (''cannot remove '' @ ty @ '' '' @ show_int p)"
  using assms by (auto simp: removeItemsByID_def)

end
