(* ===== verification/UpdateTypes.thy ===== *)
theory UpdateTypes
  imports MetaUtil
begin

text \<open>
  \<open>internal/api/handlers/updates/types.go\<close>, \<open>errors.go\<close> and the parsing half of \<open>processor.go\<close>:
  the raw update of a commit request, the 23 typed updates, and \<open>parseUpdate\<close>, which picks the
  struct by the action and unmarshals the update's own JSON text into it.

  A typed update is a constructor with the fields of the Go struct of the same name.  A field of
  type \<open>map[string]any\<close> is an option (nil or a map), a pointer is an option, and a
  \<open>map[string]string\<close> or a slice is a map or list that is empty where Go's is nil, since the
  program only looks at their length.
\<close>

section \<open>Raw and typed updates\<close>

record raw_update =
  ru_action :: string
  ru_raw :: json

text \<open>\<open>RawUpdate.UnmarshalJSON\<close>; \<open>None\<close> is its error.\<close>

definition UnmarshalJSON :: "json \<Rightarrow> raw_update option" where
  "UnmarshalJSON data =
     (case struct_members data of
        None \<Rightarrow> None
      | Some kvs \<Rightarrow>
          (case dec_string [] (members ''action'' kvs) of
             None \<Rightarrow> None
           | Some a \<Rightarrow> Some \<lparr>ru_action = a, ru_raw = data\<rparr>))"

record set_snapshot_ref =
  RefName :: string
  RefType :: string
  RefSnapshotID :: int
  MaxRefAgeMs :: "int option"
  MaxSnapshotAgeMs :: "int option"
  MinSnapshotsToKeep :: "int option"

datatype typed_update =
    AssignUUID string
  | UpgradeFormatVersion int
  | SetLocation string
  | SetProperties "(string, string) gomap"
  | RemoveProperties "string list"
  | AddSchema "gobj option" "int option"
  | SetCurrentSchema int
  | RemoveSchemas "int list"
  | AddSpec "gobj option"
  | SetDefaultSpec int
  | RemovePartitionSpecs "int list"
  | AddSortOrder "gobj option"
  | SetDefaultSortOrder int
  | AddSnapshot "gobj option"
  | SetSnapshotRef set_snapshot_ref
  | RemoveSnapshots "int list"
  | RemoveSnapshotRef string
  | SetStatistics "int option" "gobj option"
  | RemoveStatistics int
  | SetPartitionStatistics "gobj option"
  | RemovePartitionStatistics int
  | AddEncryptionKey "gobj option"
  | RemoveEncryptionKey string

section \<open>Errors\<close>

record update_error =
  ue_action :: string
  ue_message :: string
  ue_cause :: "string option"

text \<open>\<open>UpdateError.Error\<close>, with the cause as its text.\<close>

definition UpdateError_Error :: "update_error \<Rightarrow> string" where
  "UpdateError_Error e =
     (case ue_cause e of
        Some c \<Rightarrow> ue_action e @ '': '' @ ue_message e @ '': '' @ c
      | None \<Rightarrow> ue_action e @ '': '' @ ue_message e)"

definition NewUpdateError :: "string \<Rightarrow> string \<Rightarrow> update_error" where
  "NewUpdateError action message = \<lparr>ue_action = action, ue_message = message, ue_cause = None\<rparr>"

definition WrapUpdateError :: "string \<Rightarrow> string \<Rightarrow> string \<Rightarrow> update_error" where
  "WrapUpdateError action message cause =
     \<lparr>ue_action = action, ue_message = message, ue_cause = Some cause\<rparr>"

section \<open>Parsing\<close>

text \<open>
  The struct an action stands for, unmarshalled: \<open>None\<close> for an action the switch does not list,
  \<open>Some None\<close> where \<open>json.Unmarshal\<close> fails.
\<close>

definition decode_update :: "string \<Rightarrow> (string \<times> json) list \<Rightarrow> typed_update option option" where
  "decode_update a kvs =
    (if a = ''assign-uuid'' then Some (map_option AssignUUID (dec_string [] (members ''uuid'' kvs)))
     else if a = ''upgrade-format-version''
       then Some (map_option UpgradeFormatVersion (dec_int 0 (members ''format-version'' kvs)))
     else if a = ''set-location''
       then Some (map_option SetLocation (dec_string [] (members ''location'' kvs)))
     else if a = ''set-properties''
       then Some (map_option SetProperties (dec_strmap [] (members ''updates'' kvs)))
     else if a = ''remove-properties''
       then Some (map_option RemoveProperties (dec_list elem_string [] [] [] (members ''removals'' kvs)))
     else if a = ''add-schema''
       then Some (case dec_obj None (members ''schema'' kvs) of
           None \<Rightarrow> None
         | Some s \<Rightarrow> map_option (AddSchema s) (dec_int_ptr None (members ''last-column-id'' kvs)))
     else if a = ''set-current-schema''
       then Some (map_option SetCurrentSchema (dec_int 0 (members ''schema-id'' kvs)))
     else if a = ''remove-schemas''
       then Some (map_option RemoveSchemas (dec_list elem_int 0 [] [] (members ''schema-ids'' kvs)))
     else if a = ''add-spec''
       then Some (map_option AddSpec (dec_obj None (members ''spec'' kvs)))
     else if a = ''set-default-spec''
       then Some (map_option SetDefaultSpec (dec_int 0 (members ''spec-id'' kvs)))
     else if a = ''remove-partition-specs''
       then Some (map_option RemovePartitionSpecs (dec_list elem_int 0 [] [] (members ''spec-ids'' kvs)))
     else if a = ''add-sort-order''
       then Some (map_option AddSortOrder (dec_obj None (members ''sort-order'' kvs)))
     else if a = ''set-default-sort-order''
       then Some (map_option SetDefaultSortOrder (dec_int 0 (members ''sort-order-id'' kvs)))
     else if a = ''add-snapshot''
       then Some (map_option AddSnapshot (dec_obj None (members ''snapshot'' kvs)))
     else if a = ''set-snapshot-ref''
       then Some (case dec_string [] (members ''ref-name'' kvs) of None \<Rightarrow> None | Some n \<Rightarrow>
           case dec_string [] (members ''type'' kvs) of None \<Rightarrow> None | Some t \<Rightarrow>
           case dec_int 0 (members ''snapshot-id'' kvs) of None \<Rightarrow> None | Some i \<Rightarrow>
           case dec_int_ptr None (members ''max-ref-age-ms'' kvs) of None \<Rightarrow> None | Some ra \<Rightarrow>
           case dec_int_ptr None (members ''max-snapshot-age-ms'' kvs) of None \<Rightarrow> None | Some sa \<Rightarrow>
           case dec_int_ptr None (members ''min-snapshots-to-keep'' kvs) of None \<Rightarrow> None | Some mk \<Rightarrow>
             Some (SetSnapshotRef \<lparr>RefName = n, RefType = t, RefSnapshotID = i, MaxRefAgeMs = ra,
                                   MaxSnapshotAgeMs = sa, MinSnapshotsToKeep = mk\<rparr>))
     else if a = ''remove-snapshots''
       then Some (map_option RemoveSnapshots (dec_list elem_int 0 [] [] (members ''snapshot-ids'' kvs)))
     else if a = ''remove-snapshot-ref''
       then Some (map_option RemoveSnapshotRef (dec_string [] (members ''ref-name'' kvs)))
     else if a = ''set-statistics''
       then Some (case dec_int_ptr None (members ''snapshot-id'' kvs) of
           None \<Rightarrow> None
         | Some i \<Rightarrow> map_option (SetStatistics i) (dec_obj None (members ''statistics'' kvs)))
     else if a = ''remove-statistics''
       then Some (map_option RemoveStatistics (dec_int 0 (members ''snapshot-id'' kvs)))
     else if a = ''set-partition-statistics''
       then Some (map_option SetPartitionStatistics (dec_obj None (members ''partition-statistics'' kvs)))
     else if a = ''remove-partition-statistics''
       then Some (map_option RemovePartitionStatistics (dec_int 0 (members ''snapshot-id'' kvs)))
     else if a = ''add-encryption-key''
       then Some (map_option AddEncryptionKey (dec_obj None (members ''encryption-key'' kvs)))
     else if a = ''remove-encryption-key''
       then Some (map_option RemoveEncryptionKey (dec_string [] (members ''key-id'' kvs)))
     else None)"

text \<open>
  \<open>parseUpdate\<close>.  The text of an error of \<open>encoding/json\<close> is its own business; \<open>json_error\<close>, the
  words its type errors begin with, stands for it.
\<close>

definition json_error :: string where
  "json_error = ''json: cannot unmarshal''"

definition parseUpdate :: "raw_update \<Rightarrow> string + typed_update" where
  "parseUpdate r =
     (case decode_update (ru_action r) (case struct_members (ru_raw r) of Some kvs \<Rightarrow> kvs | None \<Rightarrow> []) of
        None \<Rightarrow> Inl (''unknown action: '' @ ru_action r)
      | Some None \<Rightarrow> Inl (''failed to parse: '' @ json_error)
      | Some (Some u) \<Rightarrow>
          (if struct_members (ru_raw r) = None then Inl (''failed to parse: '' @ json_error)
           else Inr u))"

text \<open>The action a typed update belongs to.\<close>

fun action_of :: "typed_update \<Rightarrow> string" where
  "action_of (AssignUUID _) = ''assign-uuid''"
| "action_of (UpgradeFormatVersion _) = ''upgrade-format-version''"
| "action_of (SetLocation _) = ''set-location''"
| "action_of (SetProperties _) = ''set-properties''"
| "action_of (RemoveProperties _) = ''remove-properties''"
| "action_of (AddSchema _ _) = ''add-schema''"
| "action_of (SetCurrentSchema _) = ''set-current-schema''"
| "action_of (RemoveSchemas _) = ''remove-schemas''"
| "action_of (AddSpec _) = ''add-spec''"
| "action_of (SetDefaultSpec _) = ''set-default-spec''"
| "action_of (RemovePartitionSpecs _) = ''remove-partition-specs''"
| "action_of (AddSortOrder _) = ''add-sort-order''"
| "action_of (SetDefaultSortOrder _) = ''set-default-sort-order''"
| "action_of (AddSnapshot _) = ''add-snapshot''"
| "action_of (SetSnapshotRef _) = ''set-snapshot-ref''"
| "action_of (RemoveSnapshots _) = ''remove-snapshots''"
| "action_of (RemoveSnapshotRef _) = ''remove-snapshot-ref''"
| "action_of (SetStatistics _ _) = ''set-statistics''"
| "action_of (RemoveStatistics _) = ''remove-statistics''"
| "action_of (SetPartitionStatistics _) = ''set-partition-statistics''"
| "action_of (RemovePartitionStatistics _) = ''remove-partition-statistics''"
| "action_of (AddEncryptionKey _) = ''add-encryption-key''"
| "action_of (RemoveEncryptionKey _) = ''remove-encryption-key''"

section \<open>Lemmas\<close>

text \<open>Each action of the switch yields the struct of that action.\<close>

lemma decode_update_action: "decode_update a kvs = Some (Some u) \<Longrightarrow> action_of u = a"
  unfolding decode_update_def
  by (auto split: if_splits option.splits simp del: members_def)

lemma parseUpdate_action: "parseUpdate r = Inr u \<Longrightarrow> action_of u = ru_action r"
  by (auto simp: parseUpdate_def split: option.splits if_splits dest: decode_update_action)

end
