(* ===== verification/UpdateIfaces.thy ===== *)
theory UpdateIfaces
  imports UpdateTypes
begin

text \<open>
  The interfaces the update handlers share.  Schemas, partition specs and sort orders are the same
  thing three times: a list of items with integer ids (\<open>coll\<close>, \<open>idkey\<close>) and the id of the current
  one (\<open>curkey\<close>); the statistics of snapshots are a list with at most one item per snapshot.
  \<open>versioned_items\<close>, \<open>removable_items\<close> and \<open>keyed_items\<close> state what a handler promises about its
  list; what follows from that is proved here once.  The theories of the handlers interpret them
  on the definitions translated from the code.

  A handler takes the update and the metadata and returns the error, if any, together with the
  metadata it leaves behind: Go's handlers write through a pointer, so what a failing handler has
  already written stays visible.
\<close>

type_synonym step = "string option \<times> gobj"

text \<open>
  The target of a set-current update: \<open>-1\<close> stands for the last item of the list, where that has an
  id.
\<close>

definition resolve_last :: "gval list \<Rightarrow> string \<Rightarrow> int \<Rightarrow> int" where
  "resolve_last xs key target =
     (if target = - 1 then (case item_id key (last xs) of Some i \<Rightarrow> i | None \<Rightarrow> target) else target)"

text \<open>The id of a new item: its own, or the next after the largest of the list, which is stored in it.\<close>

definition assign_id :: "gobj \<Rightarrow> gval list \<Rightarrow> string \<Rightarrow> int \<times> gobj" where
  "assign_id item xs key =
     (case getInt item key of
        Some i \<Rightarrow> (i, item)
      | None \<Rightarrow> (let i = wrap64 (maxIntInSlice xs key + 1) in (i, mput item key (GInt i))))"

lemma item_id_assign_id: "assign_id item xs key = (i, item') \<Longrightarrow> item_id key (GObj item') = Some i"
  by (auto simp: assign_id_def item_id_def Let_def split: option.splits)

text \<open>
  \<open>if fields, ok := u.Schema["fields"].([]any); ok { ... }\<close>: the largest field id, and the update of
  a counter of the metadata that only moves up.
\<close>

definition raise_counter :: "gobj \<Rightarrow> string \<Rightarrow> int \<Rightarrow> gobj" where
  "raise_counter m key v = (if v > the_int m key then mput m key (GInt v) else m)"

definition raise_from_fields :: "gobj \<Rightarrow> gobj \<Rightarrow> string \<Rightarrow> string \<Rightarrow> gobj" where
  "raise_from_fields m item fieldKey counter =
     (case getSlice item ''fields'' of
        None \<Rightarrow> m
      | Some fs \<Rightarrow> raise_counter m counter (maxIntFrom 0 fs fieldKey))"

lemma mget_raise_counter: "k \<noteq> key \<Longrightarrow> mget (raise_counter m key v) k = mget m k"
  by (simp add: raise_counter_def)

lemma the_int_raise_counter: "the_int (raise_counter m key v) key = max (the_int m key) v"
  by (simp add: raise_counter_def the_int_def)

lemma mget_raise_from_fields: "k \<noteq> counter \<Longrightarrow> mget (raise_from_fields m x fk counter) k = mget m k"
  by (simp add: raise_from_fields_def mget_raise_counter split: option.splits)

lemma the_int_raise_from_fields: "the_int m counter \<le> the_int (raise_from_fields m x fk counter) counter"
  by (auto simp: raise_from_fields_def the_int_raise_counter split: option.splits)

text \<open>Well-formed: no id twice, and the current id, where there is one, is the id of an item.\<close>

definition versioned_ok :: "string \<Rightarrow> string \<Rightarrow> string \<Rightarrow> gobj \<Rightarrow> bool" where
  "versioned_ok coll idkey curkey m \<longleftrightarrow>
     distinct (item_ids idkey (slice_of m coll)) \<and>
     (case getInt m curkey of None \<Rightarrow> True | Some c \<Rightarrow> c \<in> set (item_ids idkey (slice_of m coll)))"

lemma versioned_ok_iff:
  "versioned_ok coll idkey curkey m \<longleftrightarrow>
     distinct (item_ids idkey (slice_of m coll)) \<and>
     (\<forall>c. getInt m curkey = Some c \<longrightarrow> c \<in> set (item_ids idkey (slice_of m coll)))"
  by (auto simp: versioned_ok_def split: option.splits)

lemma versioned_ok_cong:
  assumes "mget m' coll = mget m coll" "mget m' curkey = mget m curkey"
  shows "versioned_ok coll idkey curkey m' = versioned_ok coll idkey curkey m"
  unfolding versioned_ok_def reads_cong(5) [OF assms(1)] reads_cong(1) [OF assms(2)] ..

section \<open>Lists with a current item\<close>

locale versioned_items =
  fixes coll :: string and idkey :: string and curkey :: string
    and add_item :: "gobj option \<Rightarrow> gobj \<Rightarrow> step"
    and set_item :: "int \<Rightarrow> gobj \<Rightarrow> step"
  assumes add_ok: "add_item s m = (None, m') \<Longrightarrow>
      \<exists>item i item'. s = Some item \<and> assign_id item (slice_of m coll) idkey = (i, item') \<and>
        i \<notin> set (item_ids idkey (slice_of m coll)) \<and>
        slice_of m' coll = slice_of m coll @ [GObj item']"
    and add_err: "add_item s m = (Some e, m') \<Longrightarrow> slice_of m' coll = slice_of m coll"
    and add_cur: "add_item s m = (r, m') \<Longrightarrow> mget m' curkey = mget m curkey"
    and set_ok: "set_item i m = (None, m') \<longleftrightarrow>
      slice_of m coll \<noteq> [] \<and>
      resolve_last (slice_of m coll) idkey i \<in> set (item_ids idkey (slice_of m coll)) \<and>
      m' = mput m curkey (GInt (resolve_last (slice_of m coll) idkey i))"
    and set_err: "set_item i m = (Some e, m') \<Longrightarrow> m' = m"
    and keys: "coll \<noteq> curkey"
begin

lemma add_ids:
  assumes "add_item s m = (None, m')"
  obtains i where "item_ids idkey (slice_of m' coll) = item_ids idkey (slice_of m coll) @ [i]"
    "i \<notin> set (item_ids idkey (slice_of m coll))"
proof -
  obtain item i item' where h: "assign_id item (slice_of m coll) idkey = (i, item')"
      "i \<notin> set (item_ids idkey (slice_of m coll))" "slice_of m' coll = slice_of m coll @ [GObj item']"
    using add_ok [OF assms] by blast
  then show ?thesis using that by (simp add: item_id_assign_id [OF h(1)])
qed

lemma add_keeps_ok:
  assumes "add_item s m = (e, m')" "versioned_ok coll idkey curkey m"
  shows "versioned_ok coll idkey curkey m'"
proof (cases e)
  case None
  with assms(1) obtain i where "item_ids idkey (slice_of m' coll) = item_ids idkey (slice_of m coll) @ [i]"
    "i \<notin> set (item_ids idkey (slice_of m coll))" by (metis add_ids)
  with assms reads_cong(1) [OF add_cur [OF assms(1)]] show ?thesis
    by (auto simp: versioned_ok_iff)
next
  case (Some msg)
  with assms add_err [of s m msg m'] reads_cong(1) [OF add_cur [OF assms(1)]] show ?thesis
    by (auto simp: versioned_ok_iff)
qed

lemma set_keeps_ok:
  assumes "set_item i m = (e, m')" "versioned_ok coll idkey curkey m"
  shows "versioned_ok coll idkey curkey m'"
proof (cases e)
  case None
  with assms set_ok [of i m m'] keys show ?thesis by (auto simp: versioned_ok_iff)
next
  case (Some msg)
  with assms set_err [of i m msg m'] show ?thesis by auto
qed

text \<open>Adding an item and then setting the current one to \<open>-1\<close> selects the item just added.\<close>

lemma add_then_set_last:
  assumes "add_item s m = (None, m1)"
  shows "\<exists>item i item'. s = Some item \<and> assign_id item (slice_of m coll) idkey = (i, item') \<and>
    set_item (- 1) m1 = (None, mput m1 curkey (GInt i))"
proof -
  obtain item i item' where h: "s = Some item" "assign_id item (slice_of m coll) idkey = (i, item')"
      "slice_of m1 coll = slice_of m coll @ [GObj item']"
    using add_ok [OF assms] by blast
  then have "resolve_last (slice_of m1 coll) idkey (- 1) = i" "i \<in> set (item_ids idkey (slice_of m1 coll))"
    by (simp_all add: resolve_last_def item_id_assign_id [OF h(2)])
  with h show ?thesis by (auto simp: set_ok)
qed

end

section \<open>Lists whose items can be removed\<close>

locale removable_items = versioned_items +
  fixes remove_items :: "int list \<Rightarrow> gobj \<Rightarrow> step"
  assumes rem_ok: "remove_items rs m = (None, m') \<Longrightarrow>
      item_ids idkey (slice_of m' coll) = filter (\<lambda>i. i \<notin> set rs) (item_ids idkey (slice_of m coll)) \<and>
      (slice_of m coll = [] \<or> the_int m curkey \<notin> set rs) \<and> mget m' curkey = mget m curkey"
    and rem_err: "remove_items rs m = (Some e, m') \<Longrightarrow> m' = m"
begin

lemma rem_keeps_ok:
  assumes "remove_items rs m = (e, m')" "versioned_ok coll idkey curkey m"
  shows "versioned_ok coll idkey curkey m'"
proof (cases e)
  case None
  with assms rem_ok [of rs m m']
  have h: "item_ids idkey (slice_of m' coll) = filter (\<lambda>i. i \<notin> set rs) (item_ids idkey (slice_of m coll))"
    "slice_of m coll = [] \<or> the_int m curkey \<notin> set rs" "mget m' curkey = mget m curkey"
    by auto
  with assms(2) show ?thesis
    by (auto simp: versioned_ok_iff reads_cong(1) [OF h(3)] the_int_def)
next
  case (Some msg)
  with assms rem_err [of rs m msg m'] show ?thesis by auto
qed

text \<open>The current item is still there after a removal.\<close>

lemma rem_current_stays:
  assumes "remove_items rs m = (e, m')" "getInt m curkey = Some c"
    "c \<in> set (item_ids idkey (slice_of m coll))"
  shows "getInt m' curkey = Some c \<and> c \<in> set (item_ids idkey (slice_of m' coll))"
proof (cases e)
  case None
  with assms have r: "remove_items rs m = (None, m')" by simp
  have "slice_of m coll \<noteq> []" using assms(3) by auto
  with rem_ok [OF r] assms(2) have "c \<notin> set rs" "mget m' curkey = mget m curkey"
    by (auto simp: the_int_def)
  with rem_ok [OF r] assms(2,3) show ?thesis
    by (simp add: reads_cong(1) [of m' curkey m])
next
  case (Some msg)
  with assms rem_err [of rs m msg m'] show ?thesis by auto
qed

end

section \<open>Lists with one item per key\<close>

text \<open>Setting replaces the item of a key, removing drops it; items of other keys keep their order.\<close>

locale keyed_items =
  fixes coll :: string and idkey :: string
    and set_keyed :: "'u \<Rightarrow> gobj \<Rightarrow> step"
    and remove_keyed :: "int \<Rightarrow> gobj \<Rightarrow> step"
  assumes set_keyed_ok: "set_keyed u m = (None, m') \<Longrightarrow>
      \<exists>i item. item_id idkey item = Some i \<and>
        slice_of m' coll = filter (keeps_id (\<lambda>j. j \<noteq> i) idkey) (slice_of m coll) @ [item]"
    and set_keyed_err: "set_keyed u m = (Some e, m') \<Longrightarrow> m' = m"
    and remove_keyed_ok: "remove_keyed i m = (r, m') \<Longrightarrow>
      r = None \<and> slice_of m' coll = filter (keeps_id (\<lambda>j. j \<noteq> i) idkey) (slice_of m coll)"
begin

lemma set_keyed_distinct:
  assumes "set_keyed u m = (e, m')" "distinct (item_ids idkey (slice_of m coll))"
  shows "distinct (item_ids idkey (slice_of m' coll))"
proof (cases e)
  case None
  with assms set_keyed_ok [of u m m'] show ?thesis
    by (auto simp: item_ids_keeps)
next
  case (Some msg)
  with assms set_keyed_err [of u m msg m'] show ?thesis by auto
qed

lemma remove_keyed_distinct:
  assumes "remove_keyed i m = (e, m')" "distinct (item_ids idkey (slice_of m coll))"
  shows "distinct (item_ids idkey (slice_of m' coll)) \<and> i \<notin> set (item_ids idkey (slice_of m' coll))"
  using remove_keyed_ok [OF assms(1)] assms(2) by (simp add: item_ids_keeps)

end

end
