(* ===== verification/UpdSchema.thy ===== *)
theory UpdSchema
  imports UpdateIfaces
begin

text \<open>
  \<open>internal/api/handlers/updates/schema.go\<close>: \<open>add-schema\<close>, \<open>set-current-schema\<close> and
  \<open>remove-schemas\<close>, on the keys \<open>schemas\<close>, \<open>current-schema-id\<close> and \<open>last-column-id\<close> of the
  metadata.  The interpretation \<open>schemas\<close> shows that the handlers keep the interface of a list with
  a current item whose items can be removed.
\<close>

definition raise_last_column :: "gobj \<Rightarrow> gobj \<Rightarrow> int option \<Rightarrow> gobj" where
  "raise_last_column m schema u_lastColumnID =
     (let m2 = raise_from_fields m schema ''id'' ''last-column-id''
      in case u_lastColumnID of None \<Rightarrow> m2 | Some l \<Rightarrow> raise_counter m2 ''last-column-id'' l)"

definition applyAddSchema :: "gobj option \<Rightarrow> int option \<Rightarrow> gobj \<Rightarrow> step" where
  "applyAddSchema u_schema u_lastColumnID m =
     (case u_schema of
        None \<Rightarrow> (Some ''schema is required'', m)
      | Some schema \<Rightarrow>
          let (schemas, m1) = ensureSlice m ''schemas'';
              (schemaID, schema1) = assign_id schema schemas ''schema-id''
          in if id_exists schemas ''schema-id'' schemaID
             then (Some (''schema-id '' @ show_int schemaID @ '' already exists''), m1)
             else (None, mput (raise_last_column m1 schema1 u_lastColumnID) ''schemas''
                           (GArr (schemas @ [GObj schema1]))))"

definition applySetCurrentSchema :: "int \<Rightarrow> gobj \<Rightarrow> step" where
  "applySetCurrentSchema u_schemaID m =
     (case getSlice m ''schemas'' of
        None \<Rightarrow> (Some ''no schemas available'', m)
      | Some schemas \<Rightarrow>
          if schemas = [] then (Some ''no schemas available'', m)
          else let targetID = resolve_last schemas ''schema-id'' u_schemaID
               in if \<not> id_exists schemas ''schema-id'' targetID
                  then (Some (''schema-id '' @ show_int targetID @ '' does not exist''), m)
                  else (None, mput m ''current-schema-id'' (GInt targetID)))"

definition applyRemoveSchemas :: "int list \<Rightarrow> gobj \<Rightarrow> step" where
  "applyRemoveSchemas u_schemaIDs m =
     (case getSlice m ''schemas'' of
        None \<Rightarrow> (None, m)
      | Some schemas \<Rightarrow>
          (case removeItemsByID schemas u_schemaIDs ''schema-id'' (the_int m ''current-schema-id'')
                  ''current schema'' of
             Inl err \<Rightarrow> (Some err, m)
           | Inr filtered \<Rightarrow> (None, mput m ''schemas'' (GArr filtered))))"

section \<open>What the handlers write\<close>

lemma mget_raise_last_column: "k \<noteq> ''last-column-id'' \<Longrightarrow> mget (raise_last_column m s l) k = mget m k"
  by (simp add: raise_last_column_def Let_def mget_raise_counter mget_raise_from_fields
      split: option.splits)

lemma the_int_raise_last_column:
  "the_int m ''last-column-id'' \<le> the_int (raise_last_column m s l) ''last-column-id''"
  using the_int_raise_from_fields [of m "''last-column-id''" s "''id''"]
  by (auto simp: raise_last_column_def Let_def the_int_raise_counter split: option.splits)

lemma applyAddSchema_frame:
  assumes "applyAddSchema s l m = (e, m')" "k \<noteq> ''schemas''" "k \<noteq> ''last-column-id''"
  shows "mget m' k = mget m k"
  using assms
  by (auto simp: applyAddSchema_def Let_def mget_raise_last_column
      split: option.splits prod.splits if_splits elim!: ensureSliceE)

lemma applyAddSchema_ok:
  assumes "applyAddSchema s l m = (None, m')"
  obtains schema i schema' where "s = Some schema"
    "assign_id schema (slice_of m ''schemas'') ''schema-id'' = (i, schema')"
    "i \<notin> set (item_ids ''schema-id'' (slice_of m ''schemas''))"
    "slice_of m' ''schemas'' = slice_of m ''schemas'' @ [GObj schema']"
  using assms
  by (auto simp: applyAddSchema_def Let_def id_exists_iff
      split: option.splits prod.splits if_splits elim!: ensureSliceE)

lemma applyAddSchema_err:
  "applyAddSchema s l m = (Some e, m') \<Longrightarrow> slice_of m' ''schemas'' = slice_of m ''schemas''"
  by (auto simp: applyAddSchema_def Let_def slice_of_def
      split: option.splits prod.splits if_splits elim!: ensureSliceE)

lemma applyAddSchema_last_column_mono:
  assumes "applyAddSchema s l m = (e, m')"
  shows "the_int m ''last-column-id'' \<le> the_int m' ''last-column-id''"
  using assms
  by (auto simp: applyAddSchema_def Let_def
      split: option.splits prod.splits if_splits
      simp flip: the_int_ensureSlice [of m "''schemas''"] intro: the_int_raise_last_column)

lemma applySetCurrentSchema_frame:
  "applySetCurrentSchema i m = (e, m') \<Longrightarrow> k \<noteq> ''current-schema-id'' \<Longrightarrow> mget m' k = mget m k"
  by (auto simp: applySetCurrentSchema_def Let_def split: option.splits if_splits)

lemma applyRemoveSchemas_frame:
  "applyRemoveSchemas rs m = (e, m') \<Longrightarrow> k \<noteq> ''schemas'' \<Longrightarrow> mget m' k = mget m k"
  by (auto simp: applyRemoveSchemas_def split: option.splits sum.splits)

section \<open>The interface\<close>

interpretation schemas: removable_items "''schemas''" "''schema-id''" "''current-schema-id''"
  "\<lambda>s. applyAddSchema s l" applySetCurrentSchema applyRemoveSchemas for l
proof (unfold_locales, goal_cases)
  case (1 s m m')
  then show ?case by (blast elim: applyAddSchema_ok)
next
  case (2 s m e m')
  then show ?case by (rule applyAddSchema_err)
next
  case (3 s m r m')
  then show ?case by (rule applyAddSchema_frame) simp_all
next
  case (4 i m m')
  then show ?case
    by (auto simp: applySetCurrentSchema_def Let_def slice_of_def id_exists_iff split: option.splits)
next
  case (5 i m e m')
  then show ?case by (auto simp: applySetCurrentSchema_def Let_def split: option.splits if_splits)
next
  case 6
  then show ?case by simp
next
  case (7 rs m m')
  then show ?case
    by (auto simp: applyRemoveSchemas_def slice_of_def split: option.splits sum.splits
        elim!: removeItemsByID_InrE)
next
  case (8 rs m e m')
  then show ?case by (auto simp: applyRemoveSchemas_def split: option.splits sum.splits)
qed

end
