(* ===== verification/UpdPartition.thy ===== *)
theory UpdPartition
  imports UpdateIfaces
begin

text \<open>
  \<open>internal/api/handlers/updates/partition.go\<close>: \<open>add-spec\<close>, \<open>set-default-spec\<close> and
  \<open>remove-partition-specs\<close>, on the keys \<open>partition-specs\<close>, \<open>default-spec-id\<close> and
  \<open>last-partition-id\<close>.  The interpretation is \<open>partspecs\<close>.
\<close>

definition applyAddSpec :: "gobj option \<Rightarrow> gobj \<Rightarrow> step" where
  "applyAddSpec u_spec m =
     (case u_spec of
        None \<Rightarrow> (Some ''spec is required'', m)
      | Some spec \<Rightarrow>
          let (specs, m1) = ensureSlice m ''partition-specs'';
              (specID, spec1) = assign_id spec specs ''spec-id''
          in if id_exists specs ''spec-id'' specID
             then (Some (''spec-id '' @ show_int specID @ '' already exists''), m1)
             else (None, mput (raise_from_fields m1 spec1 ''field-id'' ''last-partition-id'')
                           ''partition-specs'' (GArr (specs @ [GObj spec1]))))"

definition applySetDefaultSpec :: "int \<Rightarrow> gobj \<Rightarrow> step" where
  "applySetDefaultSpec u_specID m =
     (case getSlice m ''partition-specs'' of
        None \<Rightarrow> (Some ''no partition specs available'', m)
      | Some specs \<Rightarrow>
          if specs = [] then (Some ''no partition specs available'', m)
          else let targetID = resolve_last specs ''spec-id'' u_specID
               in if \<not> id_exists specs ''spec-id'' targetID
                  then (Some (''spec-id '' @ show_int targetID @ '' does not exist''), m)
                  else (None, mput m ''default-spec-id'' (GInt targetID)))"

definition applyRemovePartitionSpecs :: "int list \<Rightarrow> gobj \<Rightarrow> step" where
  "applyRemovePartitionSpecs u_specIDs m =
     (case getSlice m ''partition-specs'' of
        None \<Rightarrow> (None, m)
      | Some specs \<Rightarrow>
          (case removeItemsByID specs u_specIDs ''spec-id'' (the_int m ''default-spec-id'')
                  ''default partition spec'' of
             Inl err \<Rightarrow> (Some err, m)
           | Inr filtered \<Rightarrow> (None, mput m ''partition-specs'' (GArr filtered))))"

section \<open>What the handlers write\<close>

lemma applyAddSpec_frame:
  assumes "applyAddSpec s m = (e, m')" "k \<noteq> ''partition-specs''" "k \<noteq> ''last-partition-id''"
  shows "mget m' k = mget m k"
  using assms
  by (auto simp: applyAddSpec_def Let_def mget_raise_from_fields
      split: option.splits prod.splits if_splits elim!: ensureSliceE)

lemma applyAddSpec_ok:
  assumes "applyAddSpec s m = (None, m')"
  obtains spec i spec' where "s = Some spec"
    "assign_id spec (slice_of m ''partition-specs'') ''spec-id'' = (i, spec')"
    "i \<notin> set (item_ids ''spec-id'' (slice_of m ''partition-specs''))"
    "slice_of m' ''partition-specs'' = slice_of m ''partition-specs'' @ [GObj spec']"
  using assms
  by (auto simp: applyAddSpec_def Let_def id_exists_iff
      split: option.splits prod.splits if_splits elim!: ensureSliceE)

lemma applyAddSpec_err:
  "applyAddSpec s m = (Some e, m') \<Longrightarrow> slice_of m' ''partition-specs'' = slice_of m ''partition-specs''"
  by (auto simp: applyAddSpec_def Let_def slice_of_def
      split: option.splits prod.splits if_splits elim!: ensureSliceE)

lemma applyAddSpec_last_partition_mono:
  assumes "applyAddSpec s m = (e, m')"
  shows "the_int m ''last-partition-id'' \<le> the_int m' ''last-partition-id''"
  using assms
  by (auto simp: applyAddSpec_def Let_def split: option.splits prod.splits if_splits
      simp flip: the_int_ensureSlice [of m "''partition-specs''"] intro: the_int_raise_from_fields)

lemma applySetDefaultSpec_frame:
  "applySetDefaultSpec i m = (e, m') \<Longrightarrow> k \<noteq> ''default-spec-id'' \<Longrightarrow> mget m' k = mget m k"
  by (auto simp: applySetDefaultSpec_def Let_def split: option.splits if_splits)

lemma applyRemovePartitionSpecs_frame:
  "applyRemovePartitionSpecs rs m = (e, m') \<Longrightarrow> k \<noteq> ''partition-specs'' \<Longrightarrow> mget m' k = mget m k"
  by (auto simp: applyRemovePartitionSpecs_def split: option.splits sum.splits)

section \<open>The interface\<close>

interpretation partspecs: removable_items "''partition-specs''" "''spec-id''" "''default-spec-id''"
  applyAddSpec applySetDefaultSpec applyRemovePartitionSpecs
proof (unfold_locales, goal_cases)
  case (1 s m m')
  then show ?case by (blast elim: applyAddSpec_ok)
next
  case (2 s m e m')
  then show ?case by (rule applyAddSpec_err)
next
  case (3 s m r m')
  then show ?case by (rule applyAddSpec_frame) simp_all
next
  case (4 i m m')
  then show ?case
    by (auto simp: applySetDefaultSpec_def Let_def slice_of_def id_exists_iff split: option.splits)
next
  case (5 i m e m')
  then show ?case by (auto simp: applySetDefaultSpec_def Let_def split: option.splits if_splits)
next
  case 6
  then show ?case by simp
next
  case (7 rs m m')
  then show ?case
    by (auto simp: applyRemovePartitionSpecs_def slice_of_def split: option.splits sum.splits
        elim!: removeItemsByID_InrE)
next
  case (8 rs m e m')
  then show ?case by (auto simp: applyRemovePartitionSpecs_def split: option.splits sum.splits)
qed

end
