(* ===== verification/UpdSortOrder.thy ===== *)
theory UpdSortOrder
  imports UpdateIfaces
begin

text \<open>
  \<open>internal/api/handlers/updates/sortorder.go\<close>: \<open>add-sort-order\<close> and \<open>set-default-sort-order\<close>, on
  the keys \<open>sort-orders\<close> and \<open>default-sort-order-id\<close>.  The interpretation is \<open>sortorders\<close>; sort
  orders are never removed.
\<close>

definition applyAddSortOrder :: "gobj option \<Rightarrow> gobj \<Rightarrow> step" where
  "applyAddSortOrder u_sortOrder m =
     (case u_sortOrder of
        None \<Rightarrow> (Some ''sort-order is required'', m)
      | Some order \<Rightarrow>
          let (sortOrders, m1) = ensureSlice m ''sort-orders'';
              (orderID, order1) = assign_id order sortOrders ''order-id''
          in if id_exists sortOrders ''order-id'' orderID
             then (Some (''order-id '' @ show_int orderID @ '' already exists''), m1)
             else (None, mput m1 ''sort-orders'' (GArr (sortOrders @ [GObj order1]))))"

definition applySetDefaultSortOrder :: "int \<Rightarrow> gobj \<Rightarrow> step" where
  "applySetDefaultSortOrder u_sortOrderID m =
     (case getSlice m ''sort-orders'' of
        None \<Rightarrow> (Some ''no sort orders available'', m)
      | Some sortOrders \<Rightarrow>
          if sortOrders = [] then (Some ''no sort orders available'', m)
          else let targetID = resolve_last sortOrders ''order-id'' u_sortOrderID
               in if \<not> id_exists sortOrders ''order-id'' targetID
                  then (Some (''sort-order-id '' @ show_int targetID @ '' does not exist''), m)
                  else (None, mput m ''default-sort-order-id'' (GInt targetID)))"

section \<open>What the handlers write\<close>

lemma applyAddSortOrder_frame:
  "applyAddSortOrder s m = (e, m') \<Longrightarrow> k \<noteq> ''sort-orders'' \<Longrightarrow> mget m' k = mget m k"
  by (auto simp: applyAddSortOrder_def Let_def split: option.splits prod.splits if_splits
      elim!: ensureSliceE)

lemma applyAddSortOrder_ok:
  assumes "applyAddSortOrder s m = (None, m')"
  obtains order i order' where "s = Some order"
    "assign_id order (slice_of m ''sort-orders'') ''order-id'' = (i, order')"
    "i \<notin> set (item_ids ''order-id'' (slice_of m ''sort-orders''))"
    "slice_of m' ''sort-orders'' = slice_of m ''sort-orders'' @ [GObj order']"
  using assms
  by (auto simp: applyAddSortOrder_def Let_def id_exists_iff
      split: option.splits prod.splits if_splits elim!: ensureSliceE)

lemma applyAddSortOrder_err:
  "applyAddSortOrder s m = (Some e, m') \<Longrightarrow> slice_of m' ''sort-orders'' = slice_of m ''sort-orders''"
  by (auto simp: applyAddSortOrder_def Let_def slice_of_def
      split: option.splits prod.splits if_splits elim!: ensureSliceE)

lemma applySetDefaultSortOrder_frame:
  "applySetDefaultSortOrder i m = (e, m') \<Longrightarrow> k \<noteq> ''default-sort-order-id'' \<Longrightarrow> mget m' k = mget m k"
  by (auto simp: applySetDefaultSortOrder_def Let_def split: option.splits if_splits)

section \<open>The interface\<close>

interpretation sortorders: versioned_items "''sort-orders''" "''order-id''" "''default-sort-order-id''"
  applyAddSortOrder applySetDefaultSortOrder
proof (unfold_locales, goal_cases)
  case (1 s m m')
  then show ?case by (blast elim: applyAddSortOrder_ok)
next
  case (2 s m e m')
  then show ?case by (rule applyAddSortOrder_err)
next
  case (3 s m r m')
  then show ?case by (rule applyAddSortOrder_frame) simp
next
  case (4 i m m')
  then show ?case
    by (auto simp: applySetDefaultSortOrder_def Let_def slice_of_def id_exists_iff split: option.splits)
next
  case (5 i m e m')
  then show ?case by (auto simp: applySetDefaultSortOrder_def Let_def split: option.splits if_splits)
next
  case 6
  then show ?case by simp
qed

end
