(* ===== verification/UpdSnapshot.thy ===== *)
theory UpdSnapshot
  imports UpdateIfaces
begin

text \<open>
  \<open>internal/api/handlers/updates/snapshot.go\<close>: \<open>add-snapshot\<close>, \<open>set-snapshot-ref\<close>,
  \<open>remove-snapshots\<close> and \<open>remove-snapshot-ref\<close>, on the keys \<open>snapshots\<close>, \<open>snapshot-log\<close>,
  \<open>last-sequence-number\<close>, \<open>refs\<close> and \<open>current-snapshot-id\<close>.  On a 64-bit machine \<open>getInt\<close> and
  \<open>getInt64\<close> agree (\<open>getInt64_eq\<close>), so the loops that look for a snapshot use \<open>id_exists\<close> as well.

  \<open>snapshots_ok\<close> is the referential integrity the handlers maintain: snapshot ids are distinct, and
  every reference and the current snapshot point to a snapshot of the table, unless their id is
  negative (\<open>set-snapshot-ref\<close> accepts any negative id).  \<open>main_ok\<close> ties the branch \<open>main\<close> to the
  current snapshot.
\<close>

definition refTypeBranch :: string where "refTypeBranch = ''branch''"

definition refTypeTag :: string where "refTypeTag = ''tag''"

definition applyAddSnapshot :: "gobj option \<Rightarrow> gobj \<Rightarrow> step" where
  "applyAddSnapshot u_snapshot m =
     (case u_snapshot of
        None \<Rightarrow> (Some ''snapshot is required'', m)
      | Some snap \<Rightarrow>
     (case getInt64 snap ''snapshot-id'' of
        None \<Rightarrow> (Some ''snapshot-id is required'', m)
      | Some snapshotID \<Rightarrow>
     (case getInt64 snap ''timestamp-ms'' of
        None \<Rightarrow> (Some ''timestamp-ms is required'', m)
      | Some timestampMs \<Rightarrow>
          let (snapshots, m1) = ensureSlice m ''snapshots''
          in if id_exists snapshots ''snapshot-id'' snapshotID
             then (Some (''snapshot-id '' @ show_int snapshotID @ '' already exists''), m1)
             else let m2 = mput m1 ''snapshots'' (GArr (snapshots @ [GObj snap]));
                      m3 = (case getInt64 snap ''sequence-number'' of
                              None \<Rightarrow> m2
                            | Some seqNum \<Rightarrow>
                                if seqNum > the_int m2 ''last-sequence-number''
                                then mput m2 ''last-sequence-number'' (GInt64 seqNum) else m2);
                      (snapshotLog, m4) = ensureSlice m3 ''snapshot-log''
                  in (None, mput m4 ''snapshot-log''
                        (GArr (snapshotLog @ [GObj [(''snapshot-id'', GInt64 snapshotID),
                                                    (''timestamp-ms'', GInt64 timestampMs)]]))))))"

definition ref_object :: "set_snapshot_ref \<Rightarrow> gobj" where
  "ref_object u =
     setIfNotNil (setIfNotNil (setIfNotNil
       [(''type'', GStr (RefType u)), (''snapshot-id'', GInt64 (RefSnapshotID u))]
       ''max-ref-age-ms'' (map_option GInt64 (MaxRefAgeMs u)))
       ''max-snapshot-age-ms'' (map_option GInt64 (MaxSnapshotAgeMs u)))
       ''min-snapshots-to-keep'' (map_option GInt (MinSnapshotsToKeep u))"

definition applySetSnapshotRef :: "set_snapshot_ref \<Rightarrow> gobj \<Rightarrow> step" where
  "applySetSnapshotRef u m =
     (if RefName u = [] then (Some ''ref-name is required'', m)
      else if RefType u \<noteq> refTypeBranch \<and> RefType u \<noteq> refTypeTag
        then (Some (''type must be '' @ quoted refTypeBranch @ '' or '' @ quoted refTypeTag @ '', got ''
                    @ quoted (RefType u)), m)
      else if 0 \<le> RefSnapshotID u \<and>
              \<not> id_exists (slice_of m ''snapshots'') ''snapshot-id'' (RefSnapshotID u)
        then (Some (''snapshot-id '' @ show_int (RefSnapshotID u) @ '' does not exist''), m)
      else let (refs, m1) = ensureMap m ''refs'';
               m2 = mput m1 ''refs'' (GObj (mput refs (RefName u) (GObj (ref_object u))))
           in (None, if RefName u = ''main'' \<and> RefType u = refTypeBranch
                     then mput m2 ''current-snapshot-id'' (GInt64 (RefSnapshotID u)) else m2))"

text \<open>The loop over \<open>refs\<close>: the first reference to a snapshot that is to go.\<close>

fun find_referenced :: "int list \<Rightarrow> gobj \<Rightarrow> (string \<times> int) option" where
  "find_referenced ids [] = None"
| "find_referenced ids ((name, v) # rs) =
     (case item_id ''snapshot-id'' v of
        Some i \<Rightarrow> if i \<in> set ids then Some (name, i) else find_referenced ids rs
      | None \<Rightarrow> find_referenced ids rs)"

definition refs_of :: "gobj \<Rightarrow> gobj" where
  "refs_of m = (case getMap m ''refs'' of Some r \<Rightarrow> r | None \<Rightarrow> [])"

definition applyRemoveSnapshots :: "int list \<Rightarrow> gobj \<Rightarrow> step" where
  "applyRemoveSnapshots u_ids m =
     (if u_ids = [] then (None, m)
      else (case getSlice m ''snapshots'' of
        None \<Rightarrow> (None, m)
      | Some snapshots \<Rightarrow>
          if snapshots = [] then (None, m)
          else (case find_referenced u_ids (refs_of m) of
            Some (refName, i) \<Rightarrow>
              (Some (''cannot remove snapshot '' @ show_int i @ '': referenced by '' @ quoted refName), m)
          | None \<Rightarrow>
              (case getInt64 m ''current-snapshot-id'' of
                 Some currentID \<Rightarrow>
                   if currentID \<in> set u_ids
                   then (Some (''cannot remove current snapshot '' @ show_int currentID), m)
                   else (None, mput m ''snapshots''
                          (GArr (filterSlice snapshots (keeps_id (\<lambda>i. i \<notin> set u_ids) ''snapshot-id''))))
               | None \<Rightarrow>
                   (None, mput m ''snapshots''
                      (GArr (filterSlice snapshots (keeps_id (\<lambda>i. i \<notin> set u_ids) ''snapshot-id''))))))))"

definition applyRemoveSnapshotRef :: "string \<Rightarrow> gobj \<Rightarrow> step" where
  "applyRemoveSnapshotRef u_refName m =
     (if u_refName = [] then (Some ''ref-name is required'', m)
      else (case getMap m ''refs'' of
        None \<Rightarrow> (None, m)
      | Some refs \<Rightarrow>
          let m1 = (case mget refs u_refName of
                      Some (GObj ref) \<Rightarrow>
                        if getString ref ''type'' = Some ''branch'' \<and> u_refName = ''main''
                        then mdel m ''current-snapshot-id'' else m
                    | _ \<Rightarrow> m)
          in (None, mput m1 ''refs'' (GObj (mdel refs u_refName)))))"

section \<open>Integrity of snapshots and references\<close>

definition snap_ids :: "gobj \<Rightarrow> int list" where
  "snap_ids m = item_ids ''snapshot-id'' (slice_of m ''snapshots'')"

definition points_in :: "int set \<Rightarrow> int option \<Rightarrow> bool" where
  "points_in S r = (case r of None \<Rightarrow> True | Some i \<Rightarrow> i < 0 \<or> i \<in> S)"

definition snapshots_ok :: "gobj \<Rightarrow> bool" where
  "snapshots_ok m \<longleftrightarrow>
     distinct (snap_ids m) \<and>
     list_all (\<lambda>(n, v). points_in (set (snap_ids m)) (item_id ''snapshot-id'' v)) (refs_of m) \<and>
     points_in (set (snap_ids m)) (getInt m ''current-snapshot-id'')"

definition main_ok :: "gobj \<Rightarrow> bool" where
  "main_ok m =
     (case mget (refs_of m) ''main'' of
        Some (GObj r) \<Rightarrow>
          getString r ''type'' \<noteq> Some ''branch'' \<or>
          getInt m ''current-snapshot-id'' = getInt r ''snapshot-id''
      | _ \<Rightarrow> True)"

section \<open>What the handlers write\<close>

lemma applyAddSnapshot_frame:
  assumes "applyAddSnapshot s m = (e, m')"
    "k \<noteq> ''snapshots''" "k \<noteq> ''snapshot-log''" "k \<noteq> ''last-sequence-number''"
  shows "mget m' k = mget m k"
  using assms
  by (auto simp: applyAddSnapshot_def Let_def split: option.splits prod.splits if_splits
      elim!: ensureSliceE)

lemma applySetSnapshotRef_frame:
  assumes "applySetSnapshotRef u m = (e, m')" "k \<noteq> ''refs''" "k \<noteq> ''current-snapshot-id''"
  shows "mget m' k = mget m k"
  using assms
  by (auto simp: applySetSnapshotRef_def Let_def split: prod.splits if_splits elim!: ensureMapE)

lemma applyRemoveSnapshots_frame:
  "applyRemoveSnapshots ids m = (e, m') \<Longrightarrow> k \<noteq> ''snapshots'' \<Longrightarrow> mget m' k = mget m k"
  by (auto simp: applyRemoveSnapshots_def split: option.splits if_splits)

lemma applyRemoveSnapshotRef_frame:
  assumes "applyRemoveSnapshotRef n m = (e, m')" "k \<noteq> ''refs''" "k \<noteq> ''current-snapshot-id''"
  shows "mget m' k = mget m k"
  using assms
  by (auto simp: applyRemoveSnapshotRef_def Let_def split: option.splits gval.splits if_splits)

section \<open>Integrity is kept\<close>

lemma refs_of_cong: "mget m' ''refs'' = mget m ''refs'' \<Longrightarrow> refs_of m' = refs_of m"
  by (simp add: refs_of_def getMap_def)

lemma snap_ids_cong: "mget m' ''snapshots'' = mget m ''snapshots'' \<Longrightarrow> snap_ids m' = snap_ids m"
  using reads_cong(5) [of m' "''snapshots''" m] by (simp only: snap_ids_def)

lemma points_in_mono: "points_in S r \<Longrightarrow> S \<subseteq> T \<Longrightarrow> points_in T r"
  by (auto simp: points_in_def split: option.splits)

lemma snapshots_ok_cong:
  assumes "mget m' ''snapshots'' = mget m ''snapshots''" "mget m' ''refs'' = mget m ''refs''"
    "mget m' ''current-snapshot-id'' = mget m ''current-snapshot-id''"
  shows "snapshots_ok m' = snapshots_ok m"
  by (simp only: snapshots_ok_def snap_ids_cong [OF assms(1)] refs_of_cong [OF assms(2)]
      reads_cong(1) [OF assms(3)])

lemma main_ok_cong:
  assumes "mget m' ''refs'' = mget m ''refs''"
    "mget m' ''current-snapshot-id'' = mget m ''current-snapshot-id''"
  shows "main_ok m' = main_ok m"
  by (simp only: main_ok_def refs_of_cong [OF assms(1)] reads_cong(1) [OF assms(2)])

lemma applyAddSnapshot_ok:
  assumes "applyAddSnapshot s m = (None, m')"
  obtains snap i ts where "s = Some snap" "getInt snap ''snapshot-id'' = Some i"
    "getInt snap ''timestamp-ms'' = Some ts" "i \<notin> set (snap_ids m)"
    "slice_of m' ''snapshots'' = slice_of m ''snapshots'' @ [GObj snap]"
    "slice_of m' ''snapshot-log'' = slice_of m ''snapshot-log'' @
       [GObj [(''snapshot-id'', GInt64 i), (''timestamp-ms'', GInt64 ts)]]"
    "the_int m' ''last-sequence-number'' =
       (case getInt snap ''sequence-number'' of None \<Rightarrow> the_int m ''last-sequence-number''
        | Some q \<Rightarrow> max (the_int m ''last-sequence-number'') q)"
proof -
  obtain snap i ts m1 where h: "s = Some snap" "getInt snap ''snapshot-id'' = Some i"
      "getInt snap ''timestamp-ms'' = Some ts" "i \<notin> set (snap_ids m)"
      "ensureSlice m ''snapshots'' = (slice_of m ''snapshots'', m1)"
    using assms
    by (auto simp: applyAddSnapshot_def getInt64_eq Let_def id_exists_iff snap_ids_def
        split: option.splits prod.splits if_splits elim!: ensureSliceE)
  from h(5) have m1: "the_int m1 ''last-sequence-number'' = the_int m ''last-sequence-number''"
      "slice_of m1 ''snapshot-log'' = slice_of m ''snapshot-log''"
    by (auto elim!: ensureSliceE intro!: reads_cong)
  define m2 where "m2 = mput m1 ''snapshots'' (GArr (slice_of m ''snapshots'' @ [GObj snap]))"
  define m3 where "m3 = (case getInt snap ''sequence-number'' of None \<Rightarrow> m2
      | Some q \<Rightarrow> if q > the_int m2 ''last-sequence-number''
                 then mput m2 ''last-sequence-number'' (GInt64 q) else m2)"
  obtain l m4 where e4: "ensureSlice m3 ''snapshot-log'' = (l, m4)" by (cases "ensureSlice m3 ''snapshot-log''")
  have m': "m' = mput m4 ''snapshot-log'' (GArr (l @
        [GObj [(''snapshot-id'', GInt64 i), (''timestamp-ms'', GInt64 ts)]]))"
    using assms h e4 unfolding m2_def m3_def
    by (simp add: applyAddSnapshot_def getInt64_eq id_exists_iff snap_ids_def Let_def)
  have l: "l = slice_of m3 ''snapshot-log''" "mget m4 ''snapshots'' = mget m3 ''snapshots''"
      "mget m4 ''last-sequence-number'' = mget m3 ''last-sequence-number''"
    using e4 by (auto elim!: ensureSliceE)
  have "slice_of m3 ''snapshot-log'' = slice_of m ''snapshot-log''"
      "slice_of m3 ''snapshots'' = slice_of m ''snapshots'' @ [GObj snap]"
      "the_int m3 ''last-sequence-number'' = (case getInt snap ''sequence-number'' of
          None \<Rightarrow> the_int m ''last-sequence-number''
        | Some q \<Rightarrow> max (the_int m ''last-sequence-number'') q)"
    using m1 by (auto simp: m3_def m2_def split: option.splits)
  then show ?thesis using h(1-4) l m'
    by (intro that) (simp_all add: reads_cong(5) [OF l(2)] reads_cong(6) [OF l(3)])
qed

lemma applyAddSnapshot_err:
  "applyAddSnapshot s m = (Some e, m') \<Longrightarrow> slice_of m' ''snapshots'' = slice_of m ''snapshots''"
  by (auto simp: applyAddSnapshot_def Let_def slice_of_def
      split: option.splits prod.splits if_splits elim!: ensureSliceE)

lemma applyAddSnapshot_keeps_ok:
  assumes "applyAddSnapshot s m = (e, m')" "snapshots_ok m"
  shows "snapshots_ok m'"
proof -
  have f: "refs_of m' = refs_of m" "getInt m' ''current-snapshot-id'' = getInt m ''current-snapshot-id''"
    by (rule refs_of_cong reads_cong(1), rule applyAddSnapshot_frame [OF assms(1)], simp_all)+
  have ids: "set (snap_ids m) \<subseteq> set (snap_ids m') \<and> distinct (snap_ids m')"
  proof (cases e)
    case None
    with assms(1) obtain snap i where "getInt snap ''snapshot-id'' = Some i" "i \<notin> set (snap_ids m)"
        "slice_of m' ''snapshots'' = slice_of m ''snapshots'' @ [GObj snap]"
      by (metis applyAddSnapshot_ok)
    then show ?thesis using assms(2) by (simp add: snap_ids_def snapshots_ok_def item_id_def subset_insertI)
  next
    case (Some msg)
    with assms applyAddSnapshot_err [of s m msg m'] show ?thesis
      by (simp add: snap_ids_def snapshots_ok_def)
  qed
  with assms(2) f show ?thesis
    by (auto simp: snapshots_ok_def list_all_iff intro: points_in_mono)
qed

lemma ref_object_reads [simp]:
  "getInt (ref_object u) ''snapshot-id'' = Some (RefSnapshotID u)"
  "getString (ref_object u) ''type'' = Some (RefType u)"
  by (auto simp: ref_object_def setIfNotNil_def getInt_def getString_def split: option.splits)

lemma ensureMap_refs:
  assumes "ensureMap m ''refs'' = (r, m1)"
  shows "r = refs_of m" "k \<noteq> ''refs'' \<Longrightarrow> mget m1 k = mget m k"
  using assms by (auto simp: refs_of_def elim!: ensureMapE)

lemma refs_of_mput [simp]:
  "refs_of (mput m k v) = (if k = ''refs'' then (case v of GObj r \<Rightarrow> r | _ \<Rightarrow> []) else refs_of m)"
  by (auto simp: refs_of_def split: gval.splits)

lemma snap_ids_mput [simp]: "k \<noteq> ''snapshots'' \<Longrightarrow> snap_ids (mput m k v) = snap_ids m"
  by (simp add: snap_ids_def)

lemma applySetSnapshotRef_ok:
  assumes "applySetSnapshotRef u m = (None, m')"
  shows "refs_of m' = mput (refs_of m) (RefName u) (GObj (ref_object u))"
    "points_in (set (snap_ids m)) (Some (RefSnapshotID u))" "snap_ids m' = snap_ids m"
    "getInt m' ''current-snapshot-id'' =
       (if RefName u = ''main'' \<and> RefType u = ''branch'' then Some (RefSnapshotID u)
        else getInt m ''current-snapshot-id'')"
proof -
  obtain r m1 where e: "ensureMap m ''refs'' = (r, m1)" by (cases "ensureMap m ''refs''")
  have s: "snap_ids m1 = snap_ids m" "getInt m1 ''current-snapshot-id'' = getInt m ''current-snapshot-id''"
    by (rule snap_ids_cong reads_cong(1), rule ensureMap_refs(2) [OF e], simp)+
  have m': "m' = (if RefName u = ''main'' \<and> RefType u = ''branch''
      then mput (mput m1 ''refs'' (GObj (mput r (RefName u) (GObj (ref_object u)))))
             ''current-snapshot-id'' (GInt64 (RefSnapshotID u))
      else mput m1 ''refs'' (GObj (mput r (RefName u) (GObj (ref_object u)))))"
    using assms e by (auto simp: applySetSnapshotRef_def refTypeBranch_def Let_def split: if_splits)
  show "refs_of m' = mput (refs_of m) (RefName u) (GObj (ref_object u))"
    using m' ensureMap_refs(1) [OF e] by simp
  show "snap_ids m' = snap_ids m" using m' s by simp
  show "getInt m' ''current-snapshot-id'' =
       (if RefName u = ''main'' \<and> RefType u = ''branch'' then Some (RefSnapshotID u)
        else getInt m ''current-snapshot-id'')"
    using m' s by simp
  show "points_in (set (snap_ids m)) (Some (RefSnapshotID u))"
    using assms by (auto simp: applySetSnapshotRef_def points_in_def id_exists_iff snap_ids_def
        split: if_splits)
qed

lemma applySetSnapshotRef_err: "applySetSnapshotRef u m = (Some e, m') \<Longrightarrow> m' = m"
  by (auto simp: applySetSnapshotRef_def Let_def split: if_splits prod.splits)

lemma applySetSnapshotRef_keeps_ok:
  assumes "applySetSnapshotRef u m = (e, m')" "snapshots_ok m"
  shows "snapshots_ok m'"
proof (cases e)
  case None
  with assms(1) have r: "applySetSnapshotRef u m = (None, m')" by simp
  have "points_in (set (snap_ids m)) (item_id ''snapshot-id'' v)" if "(n, v) \<in> set (refs_of m')" for n v
    using mput_entries that [unfolded applySetSnapshotRef_ok(1) [OF r]] assms(2)
      applySetSnapshotRef_ok(2) [OF r]
    by (fastforce simp: snapshots_ok_def list_all_iff item_id_def)
  with applySetSnapshotRef_ok [OF r] assms(2) show ?thesis
    by (auto simp: snapshots_ok_def list_all_iff)
next
  case (Some msg)
  with assms applySetSnapshotRef_err [of u m msg m'] show ?thesis by simp
qed

lemma applySetSnapshotRef_keeps_main:
  assumes "applySetSnapshotRef u m = (e, m')" "main_ok m"
  shows "main_ok m'"
proof (cases e)
  case None
  with assms(1) have r: "applySetSnapshotRef u m = (None, m')" by simp
  show ?thesis using assms(2) unfolding main_ok_def applySetSnapshotRef_ok(1,4) [OF r]
    by (auto split: option.splits gval.splits)
next
  case (Some msg)
  with assms applySetSnapshotRef_err [of u m msg m'] show ?thesis by simp
qed

lemma find_referenced_None:
  "find_referenced ids rs = None \<longleftrightarrow>
     (\<forall>(n, v) \<in> set rs. \<forall>i. item_id ''snapshot-id'' v = Some i \<longrightarrow> i \<notin> set ids)"
  by (induction ids rs rule: find_referenced.induct) (auto split: option.splits)

text \<open>
  What a successful \<open>remove-snapshots\<close> on a table with snapshots has checked, and what it leaves.
\<close>

lemma applyRemoveSnapshots_ok:
  assumes "applyRemoveSnapshots ids m = (None, m')"
  shows "snap_ids m' = filter (\<lambda>i. i \<notin> set ids) (snap_ids m)"
    "slice_of m ''snapshots'' \<noteq> [] \<Longrightarrow> find_referenced ids (refs_of m) = None"
    "slice_of m ''snapshots'' \<noteq> [] \<Longrightarrow> getInt m ''current-snapshot-id'' = Some c \<Longrightarrow> c \<notin> set ids"
  using assms
  by (auto simp: applyRemoveSnapshots_def snap_ids_def slice_of_def filterSlice_filter item_ids_keeps
      getInt64_eq find_referenced_None split: option.splits if_splits)

lemma applyRemoveSnapshots_err: "applyRemoveSnapshots ids m = (Some e, m') \<Longrightarrow> m' = m"
  by (auto simp: applyRemoveSnapshots_def split: option.splits if_splits)

lemma applyRemoveSnapshots_keeps_ok:
  assumes "applyRemoveSnapshots ids m = (e, m')" "snapshots_ok m"
  shows "snapshots_ok m'"
proof (cases e)
  case None
  with assms(1) have r: "applyRemoveSnapshots ids m = (None, m')" by simp
  have f: "refs_of m' = refs_of m" "getInt m' ''current-snapshot-id'' = getInt m ''current-snapshot-id''"
    by (rule refs_of_cong reads_cong(1), rule applyRemoveSnapshots_frame [OF r], simp)+
  show ?thesis
  proof (cases "slice_of m ''snapshots'' = []")
    case True
    then have "snap_ids m' = snap_ids m" using applyRemoveSnapshots_ok(1) [OF r] by (simp add: snap_ids_def)
    with f assms(2) show ?thesis by (simp add: snapshots_ok_def)
  next
    case False
    then have "list_all (\<lambda>(n, v). points_in (set (snap_ids m')) (item_id ''snapshot-id'' v)) (refs_of m)"
      using assms(2) applyRemoveSnapshots_ok [OF r]
      by (fastforce simp: snapshots_ok_def list_all_iff find_referenced_None points_in_def
          split: option.splits)
    moreover have "points_in (set (snap_ids m')) (getInt m ''current-snapshot-id'')"
      using False assms(2) applyRemoveSnapshots_ok [OF r]
      by (auto simp: snapshots_ok_def points_in_def split: option.splits)
    ultimately show ?thesis using assms(2) f applyRemoveSnapshots_ok(1) [OF r]
      by (simp add: snapshots_ok_def)
  qed
next
  case (Some msg)
  with assms applyRemoveSnapshots_err [of ids m msg m'] show ?thesis by simp
qed

lemma applyRemoveSnapshotRef_ok:
  assumes "applyRemoveSnapshotRef n m = (None, m')"
  shows "refs_of m' = mdel (refs_of m) n" "snap_ids m' = snap_ids m"
    "getInt m' ''current-snapshot-id'' =
       (if n = ''main'' \<and> (case mget (refs_of m) n of Some (GObj r) \<Rightarrow> getString r ''type'' = Some ''branch''
                          | _ \<Rightarrow> False)
        then None else getInt m ''current-snapshot-id'')"
proof -
  define d where "d \<longleftrightarrow> n = ''main'' \<and>
    (case mget (refs_of m) n of Some (GObj r) \<Rightarrow> getString r ''type'' = Some ''branch'' | _ \<Rightarrow> False)"
  have "refs_of m' = mdel (refs_of m) n \<and> snap_ids m' = snap_ids m \<and>
    getInt m' ''current-snapshot-id'' = (if d then None else getInt m ''current-snapshot-id'')"
  proof (cases "getMap m ''refs''")
    case None
    then have "refs_of m = []" "m' = m"
      using assms by (auto simp: refs_of_def applyRemoveSnapshotRef_def split: if_splits)
    then show ?thesis by (simp add: d_def mdel_def)
  next
    case (Some refs)
    then have rf: "refs_of m = refs" by (simp add: refs_of_def)
    define m1 where "m1 = (if d then mdel m ''current-snapshot-id'' else m)"
    have "m' = mput m1 ''refs'' (GObj (mdel refs n))"
      using assms Some unfolding applyRemoveSnapshotRef_def m1_def d_def rf
      by (cases "mget refs n") (auto simp: Let_def split: if_splits gval.splits)
    then show ?thesis by (simp add: rf m1_def snap_ids_def)
  qed
  then show "refs_of m' = mdel (refs_of m) n" "snap_ids m' = snap_ids m"
    "getInt m' ''current-snapshot-id'' =
       (if n = ''main'' \<and> (case mget (refs_of m) n of Some (GObj r) \<Rightarrow> getString r ''type'' = Some ''branch''
                          | _ \<Rightarrow> False)
        then None else getInt m ''current-snapshot-id'')"
    by (simp_all only: d_def)
qed

lemma applyRemoveSnapshotRef_err: "applyRemoveSnapshotRef n m = (Some e, m') \<Longrightarrow> m' = m"
  by (auto simp: applyRemoveSnapshotRef_def Let_def split: option.splits if_splits)

lemma applyRemoveSnapshotRef_keeps_ok:
  assumes "applyRemoveSnapshotRef n m = (e, m')" "snapshots_ok m"
  shows "snapshots_ok m'"
proof (cases e)
  case None
  with assms(1) have r: "applyRemoveSnapshotRef n m = (None, m')" by simp
  have "list_all (\<lambda>(n, v). points_in (set (snap_ids m)) (item_id ''snapshot-id'' v)) (mdel (refs_of m) n)"
    using assms(2) mdel_entries by (fastforce simp: snapshots_ok_def list_all_iff)
  with assms(2) applyRemoveSnapshotRef_ok [OF r] show ?thesis
    by (simp add: snapshots_ok_def points_in_def)
next
  case (Some msg)
  with assms applyRemoveSnapshotRef_err [of n m msg m'] show ?thesis by simp
qed

lemma applyRemoveSnapshotRef_keeps_main:
  assumes "applyRemoveSnapshotRef n m = (e, m')" "main_ok m"
  shows "main_ok m'"
proof (cases e)
  case None
  with assms(1) have r: "applyRemoveSnapshotRef n m = (None, m')" by simp
  show ?thesis using assms(2) unfolding main_ok_def applyRemoveSnapshotRef_ok(1,3) [OF r]
    by (auto split: option.splits gval.splits)
next
  case (Some msg)
  with assms applyRemoveSnapshotRef_err [of n m msg m'] show ?thesis by simp
qed

end
