(* ===== verification/UpdStatistics.thy ===== *)
theory UpdStatistics
  imports UpdateIfaces
begin

text \<open>
  \<open>internal/api/handlers/updates/statistics.go\<close>: \<open>set-statistics\<close>, \<open>remove-statistics\<close> and their
  partition counterparts, on the keys \<open>statistics\<close> and \<open>partition-statistics\<close>: lists with one item
  per snapshot.  \<open>stats_item\<close> is the part of \<open>applySetStatistics\<close> that settles the snapshot id: from
  the statistics object, or from the deprecated field, which is then stored in the object.  The
  interpretations of \<open>keyed_items\<close> are \<open>stats\<close> and \<open>partstats\<close>.
\<close>

definition stats_item :: "int option \<Rightarrow> gobj \<Rightarrow> (int \<times> gobj) option" where
  "stats_item u_snapshotID st =
     (case getInt64 st ''snapshot-id'' of
        Some sid \<Rightarrow> Some (sid, st)
      | None \<Rightarrow>
          (case u_snapshotID of
             Some sid \<Rightarrow> Some (sid, mput st ''snapshot-id'' (GInt64 sid))
           | None \<Rightarrow> None))"

definition applySetStatistics :: "int option \<Rightarrow> gobj option \<Rightarrow> gobj \<Rightarrow> step" where
  "applySetStatistics u_snapshotID u_statistics m =
     (case u_statistics of
        None \<Rightarrow> (Some ''statistics is required'', m)
      | Some st \<Rightarrow>
          (case stats_item u_snapshotID st of
             None \<Rightarrow> (Some ''snapshot-id is required in statistics'', m)
           | Some (snapshotID, st1) \<Rightarrow>
               let (statistics, m1) = ensureSlice m ''statistics'';
                   filtered = filterSlice statistics (keeps_id (\<lambda>i. i \<noteq> snapshotID) ''snapshot-id'')
               in (None, mput m1 ''statistics'' (GArr (filtered @ [GObj st1])))))"

definition applyRemoveStatistics :: "int \<Rightarrow> gobj \<Rightarrow> step" where
  "applyRemoveStatistics u_snapshotID m =
     (case getSlice m ''statistics'' of
        None \<Rightarrow> (None, m)
      | Some statistics \<Rightarrow>
          if statistics = [] then (None, m)
          else (None, mput m ''statistics''
                  (GArr (filterSlice statistics (keeps_id (\<lambda>i. i \<noteq> u_snapshotID) ''snapshot-id'')))))"

definition applySetPartitionStatistics :: "gobj option \<Rightarrow> gobj \<Rightarrow> step" where
  "applySetPartitionStatistics u_stats m =
     (case u_stats of
        None \<Rightarrow> (Some ''partition-statistics is required'', m)
      | Some st \<Rightarrow>
          (case getInt64 st ''snapshot-id'' of
             None \<Rightarrow> (Some ''snapshot-id is required in partition-statistics'', m)
           | Some snapshotID \<Rightarrow>
               let (partitionStats, m1) = ensureSlice m ''partition-statistics'';
                   filtered = filterSlice partitionStats (keeps_id (\<lambda>i. i \<noteq> snapshotID) ''snapshot-id'')
               in (None, mput m1 ''partition-statistics'' (GArr (filtered @ [GObj st])))))"

definition applyRemovePartitionStatistics :: "int \<Rightarrow> gobj \<Rightarrow> step" where
  "applyRemovePartitionStatistics u_snapshotID m =
     (case getSlice m ''partition-statistics'' of
        None \<Rightarrow> (None, m)
      | Some partitionStats \<Rightarrow>
          if partitionStats = [] then (None, m)
          else (None, mput m ''partition-statistics''
                  (GArr (filterSlice partitionStats (keeps_id (\<lambda>i. i \<noteq> u_snapshotID) ''snapshot-id'')))))"

section \<open>What the handlers write\<close>

lemma applySetStatistics_frame:
  "applySetStatistics i s m = (e, m') \<Longrightarrow> k \<noteq> ''statistics'' \<Longrightarrow> mget m' k = mget m k"
  by (auto simp: applySetStatistics_def Let_def split: option.splits prod.splits elim!: ensureSliceE)

lemma applyRemoveStatistics_frame:
  "applyRemoveStatistics i m = (e, m') \<Longrightarrow> k \<noteq> ''statistics'' \<Longrightarrow> mget m' k = mget m k"
  by (auto simp: applyRemoveStatistics_def split: option.splits if_splits)

lemma applySetPartitionStatistics_frame:
  "applySetPartitionStatistics s m = (e, m') \<Longrightarrow> k \<noteq> ''partition-statistics'' \<Longrightarrow> mget m' k = mget m k"
  by (auto simp: applySetPartitionStatistics_def Let_def split: option.splits prod.splits
      elim!: ensureSliceE)

lemma applyRemovePartitionStatistics_frame:
  "applyRemovePartitionStatistics i m = (e, m') \<Longrightarrow> k \<noteq> ''partition-statistics'' \<Longrightarrow> mget m' k = mget m k"
  by (auto simp: applyRemovePartitionStatistics_def split: option.splits if_splits)

lemma stats_item_id: "stats_item u st = Some (i, st') \<Longrightarrow> item_id ''snapshot-id'' (GObj st') = Some i"
  by (auto simp: stats_item_def item_id_def getInt64_eq split: option.splits)

section \<open>The interface\<close>

interpretation stats: keyed_items "''statistics''" "''snapshot-id''"
  "\<lambda>(i, s). applySetStatistics i s" applyRemoveStatistics
proof (unfold_locales, goal_cases)
  case (1 u m m')
  then obtain st i st' where "stats_item (fst u) st = Some (i, st')"
      "slice_of m' ''statistics'' =
         filter (keeps_id (\<lambda>j. j \<noteq> i) ''snapshot-id'') (slice_of m ''statistics'') @ [GObj st']"
    by (cases u) (auto simp: applySetStatistics_def Let_def filterSlice_filter
        split: option.splits prod.splits elim!: ensureSliceE)
  then show ?case using stats_item_id by blast
next
  case (2 u m e m')
  then show ?case
    by (cases u) (auto simp: applySetStatistics_def Let_def split: option.splits prod.splits)
next
  case (3 i m r m')
  then show ?case
    by (auto simp: applyRemoveStatistics_def slice_of_def filterSlice_filter
        split: option.splits if_splits)
qed

interpretation partstats: keyed_items "''partition-statistics''" "''snapshot-id''"
  applySetPartitionStatistics applyRemovePartitionStatistics
proof (unfold_locales, goal_cases)
  case (1 u m m')
  then obtain st i where "getInt st ''snapshot-id'' = Some i"
      "slice_of m' ''partition-statistics'' =
         filter (keeps_id (\<lambda>j. j \<noteq> i) ''snapshot-id'') (slice_of m ''partition-statistics'') @ [GObj st]"
    by (auto simp: applySetPartitionStatistics_def Let_def filterSlice_filter getInt64_eq
        split: option.splits prod.splits elim!: ensureSliceE)
  then show ?case by (intro exI [of _ i] exI [of _ "GObj st"]) (simp add: item_id_def)
next
  case (2 u m e m')
  then show ?case
    by (auto simp: applySetPartitionStatistics_def Let_def split: option.splits prod.splits)
next
  case (3 i m r m')
  then show ?case
    by (auto simp: applyRemovePartitionStatistics_def slice_of_def filterSlice_filter
        split: option.splits if_splits)
qed

end
