(* ===== verification/UpdProperties.thy ===== *)
theory UpdProperties
  imports UpdateIfaces
begin

text \<open>
  \<open>internal/api/handlers/updates/properties.go\<close>: the core attributes of a table, its properties and
  its encryption keys.  The properties are a map nested in the metadata, which Go mutates through
  the reference \<open>ensureMap\<close> or \<open>getMap\<close> returns; here the changed map is stored back.
\<close>

definition applyAssignUUID :: "string \<Rightarrow> gobj \<Rightarrow> step" where
  "applyAssignUUID u_uuid m =
     (if u_uuid = [] then (Some ''uuid is required'', m)
      else (case getString m ''table-uuid'' of
        Some existingUUID \<Rightarrow>
          if existingUUID \<noteq> [] \<and> existingUUID \<noteq> u_uuid
          then (Some ''cannot change table-uuid once set'', m)
          else (None, mput m ''table-uuid'' (GStr u_uuid))
      | None \<Rightarrow> (None, mput m ''table-uuid'' (GStr u_uuid))))"

definition applyUpgradeFormatVersion :: "int \<Rightarrow> gobj \<Rightarrow> step" where
  "applyUpgradeFormatVersion v m =
     (if v < 1 \<or> v > 3 then (Some ''format-version must be 1, 2, or 3'', m)
      else let currentVersion = the_int m ''format-version''
           in if v < currentVersion
              then (Some (''cannot downgrade format-version from '' @ show_int currentVersion @
                          '' to '' @ show_int v), m)
              else (None, mput m ''format-version'' (GInt v)))"

definition applySetLocation :: "string \<Rightarrow> gobj \<Rightarrow> step" where
  "applySetLocation u_location m =
     (if u_location = [] then (Some ''location is required'', m)
      else (None, mput m ''location'' (GStr u_location)))"

definition applySetProperties :: "(string, string) gomap \<Rightarrow> gobj \<Rightarrow> step" where
  "applySetProperties updates m =
     (if updates = [] then (None, m)
      else let (props, m1) = ensureMap m ''properties''
           in (None, mput m1 ''properties''
                 (GObj (foldl (\<lambda>acc (key, val). mput acc key (GStr val)) props updates))))"

definition applyRemoveProperties :: "string list \<Rightarrow> gobj \<Rightarrow> step" where
  "applyRemoveProperties removals m =
     (if removals = [] then (None, m)
      else (case getMap m ''properties'' of
        None \<Rightarrow> (None, m)
      | Some props \<Rightarrow> (None, mput m ''properties'' (GObj (foldl mdel props removals)))))"

text \<open>The \<open>key-id\<close> of an item of \<open>encryption-keys\<close>, where it has one.\<close>

definition item_key :: "gval \<Rightarrow> string option" where
  "item_key x = (case x of GObj k \<Rightarrow> getString k ''key-id'' | _ \<Rightarrow> None)"

definition applyAddEncryptionKey :: "gobj option \<Rightarrow> gobj \<Rightarrow> step" where
  "applyAddEncryptionKey u_key m =
     (case u_key of
        None \<Rightarrow> (Some ''encryption-key is required'', m)
      | Some ek \<Rightarrow>
          (case getString ek ''key-id'' of
             None \<Rightarrow> (Some ''key-id is required in encryption-key'', m)
           | Some keyID \<Rightarrow>
               if keyID = [] then (Some ''key-id is required in encryption-key'', m)
               else let (keys, m1) = ensureSlice m ''encryption-keys''
                    in if list_ex (\<lambda>k. item_key k = Some keyID) keys
                       then (Some (''encryption key-id '' @ keyID @ '' already exists''), m1)
                       else (None, mput m1 ''encryption-keys'' (GArr (keys @ [GObj ek])))))"

definition applyRemoveEncryptionKey :: "string \<Rightarrow> gobj \<Rightarrow> step" where
  "applyRemoveEncryptionKey keyID m =
     (if keyID = [] then (Some ''key-id is required'', m)
      else (case getSlice m ''encryption-keys'' of
        None \<Rightarrow> (None, m)
      | Some keys \<Rightarrow>
          if keys = [] then (None, m)
          else (None, mput m ''encryption-keys''
                  (GArr (filterSlice keys (\<lambda>x. case item_key x of Some i \<Rightarrow> i \<noteq> keyID | None \<Rightarrow> True))))))"

section \<open>What the handlers write\<close>

lemma applyAssignUUID_frame:
  "applyAssignUUID u m = (e, m') \<Longrightarrow> k \<noteq> ''table-uuid'' \<Longrightarrow> mget m' k = mget m k"
  by (auto simp: applyAssignUUID_def split: option.splits if_splits)

lemma applyUpgradeFormatVersion_frame:
  "applyUpgradeFormatVersion v m = (e, m') \<Longrightarrow> k \<noteq> ''format-version'' \<Longrightarrow> mget m' k = mget m k"
  by (auto simp: applyUpgradeFormatVersion_def Let_def split: if_splits)

lemma applySetLocation_frame:
  "applySetLocation u m = (e, m') \<Longrightarrow> k \<noteq> ''location'' \<Longrightarrow> mget m' k = mget m k"
  by (auto simp: applySetLocation_def split: if_splits)

lemma applySetProperties_frame:
  "applySetProperties u m = (e, m') \<Longrightarrow> k \<noteq> ''properties'' \<Longrightarrow> mget m' k = mget m k"
  by (auto simp: applySetProperties_def Let_def split: if_splits prod.splits elim!: ensureMapE)

lemma applyRemoveProperties_frame:
  "applyRemoveProperties u m = (e, m') \<Longrightarrow> k \<noteq> ''properties'' \<Longrightarrow> mget m' k = mget m k"
  by (auto simp: applyRemoveProperties_def split: if_splits option.splits)

lemma applyAddEncryptionKey_frame:
  "applyAddEncryptionKey u m = (e, m') \<Longrightarrow> k \<noteq> ''encryption-keys'' \<Longrightarrow> mget m' k = mget m k"
  by (auto simp: applyAddEncryptionKey_def Let_def split: if_splits option.splits prod.splits
      elim!: ensureSliceE)

lemma applyRemoveEncryptionKey_frame:
  "applyRemoveEncryptionKey u m = (e, m') \<Longrightarrow> k \<noteq> ''encryption-keys'' \<Longrightarrow> mget m' k = mget m k"
  by (auto simp: applyRemoveEncryptionKey_def split: if_splits option.splits)

section \<open>Table attributes\<close>

text \<open>The UUID of a table, once set, never changes.\<close>

definition uuid_set :: "string \<Rightarrow> gobj \<Rightarrow> bool" where
  "uuid_set u m \<longleftrightarrow> getString m ''table-uuid'' = Some u \<and> u \<noteq> []"

lemma applyAssignUUID_keeps:
  "applyAssignUUID u m = (e, m') \<Longrightarrow> uuid_set w m \<Longrightarrow> uuid_set w m'"
  by (auto simp: applyAssignUUID_def uuid_set_def split: if_splits)

lemma applyUpgradeFormatVersion_mono:
  "applyUpgradeFormatVersion v m = (e, m') \<Longrightarrow> the_int m ''format-version'' \<le> the_int m' ''format-version''"
  by (auto simp: applyUpgradeFormatVersion_def Let_def split: if_splits)

lemma applyUpgradeFormatVersion_le3:
  "applyUpgradeFormatVersion v m = (e, m') \<Longrightarrow> the_int m ''format-version'' \<le> 3 \<Longrightarrow>
   the_int m' ''format-version'' \<le> 3"
  by (auto simp: applyUpgradeFormatVersion_def Let_def split: if_splits)

section \<open>Properties\<close>

definition props_of :: "gobj \<Rightarrow> gobj" where
  "props_of m = (case getMap m ''properties'' of Some p \<Rightarrow> p | None \<Rightarrow> [])"

lemma mget_foldl_mdel: "mget (foldl mdel m ks) k = (if k \<in> set ks then None else mget m k)"
  by (induction ks arbitrary: m) auto

lemma foldl_mput_GStr:
  "foldl (\<lambda>acc (key, val). mput acc key (GStr val)) m kvs = mput_all m (map (map_prod id GStr) kvs)"
  by (induction kvs arbitrary: m) (auto simp: mput_all_def)

lemma mget_map_prod: "mget (map (map_prod id g) kvs) k = map_option g (mget kvs k)"
  by (induction kvs) auto

lemma applySetProperties_reads:
  assumes "wf_gomap u"
  shows "mget (props_of (snd (applySetProperties u m))) k =
    (case mget u k of Some v \<Rightarrow> Some (GStr v) | None \<Rightarrow> mget (props_of m) k)"
proof (cases "u = []")
  case True
  then show ?thesis by (simp add: applySetProperties_def)
next
  case False
  obtain p m1 where e: "ensureMap m ''properties'' = (p, m1)" by (cases "ensureMap m ''properties''")
  then have p: "props_of m = p" by (auto simp: props_of_def elim!: ensureMapE)
  have "props_of (snd (applySetProperties u m)) = mput_all p (map (map_prod id GStr) u)"
    using False e by (simp add: applySetProperties_def foldl_mput_GStr props_of_def)
  with p assms show ?thesis
    by (simp add: mget_mput_all rev_map mget_map_prod mget_rev split: option.splits)
qed

lemma applyRemoveProperties_reads:
  "mget (props_of (snd (applyRemoveProperties ks m))) k =
     (if k \<in> set ks then None else mget (props_of m) k)"
  by (auto simp: applyRemoveProperties_def props_of_def mget_foldl_mdel split: option.splits)

section \<open>Encryption keys\<close>

definition key_ids :: "gobj \<Rightarrow> string list" where
  "key_ids m = List.map_filter item_key (slice_of m ''encryption-keys'')"

lemma map_filter_append: "List.map_filter g (xs @ ys) = List.map_filter g xs @ List.map_filter g ys"
  by (simp add: List.map_filter_def)

lemma set_map_filter: "y \<in> set (List.map_filter g xs) \<longleftrightarrow> (\<exists>x \<in> set xs. g x = Some y)"
  by (force simp: List.map_filter_def)

lemma distinct_map_filter_filter:
  "distinct (List.map_filter g xs) \<Longrightarrow> distinct (List.map_filter g (filter P xs))"
  by (induction xs) (auto simp: List.map_filter_simps set_map_filter split: option.splits)

lemma key_ids_cong: "mget m' ''encryption-keys'' = mget m ''encryption-keys'' \<Longrightarrow> key_ids m' = key_ids m"
  using reads_cong(5) [of m' "''encryption-keys''" m] by (simp only: key_ids_def)

lemma applyAddEncryptionKey_distinct:
  assumes "applyAddEncryptionKey u m = (e, m')" "distinct (key_ids m)"
  shows "distinct (key_ids m')"
  using assms
  by (auto simp: applyAddEncryptionKey_def key_ids_def Let_def map_filter_append set_map_filter
      list_ex_iff List.map_filter_simps item_key_def slice_of_def
      split: option.splits prod.splits if_splits elim!: ensureSliceE)

lemma applyRemoveEncryptionKey_distinct:
  assumes "applyRemoveEncryptionKey u m = (e, m')" "distinct (key_ids m)"
  shows "distinct (key_ids m')"
  using assms
  by (auto simp: applyRemoveEncryptionKey_def key_ids_def slice_of_def filterSlice_filter
      distinct_map_filter_filter
      split: option.splits if_splits)

end
