(* ===== verification/Processor.thy ===== *)
theory Processor
  imports UpdSchema UpdPartition UpdSortOrder UpdSnapshot UpdStatistics UpdProperties
    "HOL-Library.Multiset"
begin

text \<open>
  \<open>internal/api/handlers/updates/processor.go\<close>: the updates of a commit are parsed and grouped by
  action (\<open>parseUpdates\<close>), then the groups are applied in the order \<open>processingOrder\<close> (\<open>Apply\<close>),
  each update by the handler of its action (\<open>applyUpdate\<close>).

  \<open>applyUpdate\<close> is \<open>None\<close> where a type assertion of the switch would panic.  \<open>Apply\<close> returns how the
  call ends and the metadata the processor then holds, an error included.  \<open>run_updates\<close> and \<open>rank\<close>
  are the specification: the updates of the request, sorted stably by the position of their action,
  one after the other.  \<open>update_steps\<close> is the interface by which a relation between the metadata
  before and after single updates carries over to \<open>Apply\<close>.
\<close>

section \<open>Dispatch\<close>

definition processingOrder :: "string list" where
  "processingOrder =
     [''assign-uuid'', ''upgrade-format-version'', ''set-location'',
      ''add-schema'', ''set-current-schema'', ''add-spec'',
      ''set-default-spec'', ''add-sort-order'', ''set-default-sort-order'',
      ''add-snapshot'', ''set-snapshot-ref'', ''set-statistics'',
      ''set-partition-statistics'', ''set-properties'', ''remove-properties'',
      ''remove-statistics'', ''remove-partition-statistics'', ''remove-snapshot-ref'',
      ''remove-snapshots'', ''remove-partition-specs'', ''remove-schemas'',
      ''add-encryption-key'', ''remove-encryption-key'']"

definition isKnownAction :: "string \<Rightarrow> bool" where
  "isKnownAction action = list_ex (\<lambda>a. a = action) processingOrder"

definition NewProcessor :: "gobj \<Rightarrow> gobj option" where
  "NewProcessor metadata = deepCopyMap metadata"

definition applyUpdate :: "string \<Rightarrow> typed_update \<Rightarrow> gobj \<Rightarrow> step option" where
  "applyUpdate action data m =
     (if action = ''assign-uuid''
       then (case data of AssignUUID u \<Rightarrow> Some (applyAssignUUID u m) | _ \<Rightarrow> None)
      else if action = ''upgrade-format-version''
       then (case data of UpgradeFormatVersion v \<Rightarrow> Some (applyUpgradeFormatVersion v m) | _ \<Rightarrow> None)
      else if action = ''set-location''
       then (case data of SetLocation l \<Rightarrow> Some (applySetLocation l m) | _ \<Rightarrow> None)
      else if action = ''set-properties''
       then (case data of SetProperties ps \<Rightarrow> Some (applySetProperties ps m) | _ \<Rightarrow> None)
      else if action = ''remove-properties''
       then (case data of RemoveProperties ks \<Rightarrow> Some (applyRemoveProperties ks m) | _ \<Rightarrow> None)
      else if action = ''add-schema''
       then (case data of AddSchema s l \<Rightarrow> Some (applyAddSchema s l m) | _ \<Rightarrow> None)
      else if action = ''set-current-schema''
       then (case data of SetCurrentSchema i \<Rightarrow> Some (applySetCurrentSchema i m) | _ \<Rightarrow> None)
      else if action = ''remove-schemas''
       then (case data of RemoveSchemas is \<Rightarrow> Some (applyRemoveSchemas is m) | _ \<Rightarrow> None)
      else if action = ''add-spec''
       then (case data of AddSpec s \<Rightarrow> Some (applyAddSpec s m) | _ \<Rightarrow> None)
      else if action = ''set-default-spec''
       then (case data of SetDefaultSpec i \<Rightarrow> Some (applySetDefaultSpec i m) | _ \<Rightarrow> None)
      else if action = ''remove-partition-specs''
       then (case data of RemovePartitionSpecs is \<Rightarrow> Some (applyRemovePartitionSpecs is m) | _ \<Rightarrow> None)
      else if action = ''add-sort-order''
       then (case data of AddSortOrder s \<Rightarrow> Some (applyAddSortOrder s m) | _ \<Rightarrow> None)
      else if action = ''set-default-sort-order''
       then (case data of SetDefaultSortOrder i \<Rightarrow> Some (applySetDefaultSortOrder i m) | _ \<Rightarrow> None)
      else if action = ''add-snapshot''
       then (case data of AddSnapshot s \<Rightarrow> Some (applyAddSnapshot s m) | _ \<Rightarrow> None)
      else if action = ''set-snapshot-ref''
       then (case data of SetSnapshotRef r \<Rightarrow> Some (applySetSnapshotRef r m) | _ \<Rightarrow> None)
      else if action = ''remove-snapshots''
       then (case data of RemoveSnapshots is \<Rightarrow> Some (applyRemoveSnapshots is m) | _ \<Rightarrow> None)
      else if action = ''remove-snapshot-ref''
       then (case data of RemoveSnapshotRef n \<Rightarrow> Some (applyRemoveSnapshotRef n m) | _ \<Rightarrow> None)
      else if action = ''set-statistics''
       then (case data of SetStatistics i s \<Rightarrow> Some (applySetStatistics i s m) | _ \<Rightarrow> None)
      else if action = ''remove-statistics''
       then (case data of RemoveStatistics i \<Rightarrow> Some (applyRemoveStatistics i m) | _ \<Rightarrow> None)
      else if action = ''set-partition-statistics''
       then (case data of SetPartitionStatistics s \<Rightarrow> Some (applySetPartitionStatistics s m) | _ \<Rightarrow> None)
      else if action = ''remove-partition-statistics''
       then (case data of RemovePartitionStatistics i \<Rightarrow> Some (applyRemovePartitionStatistics i m) | _ \<Rightarrow> None)
      else if action = ''add-encryption-key''
       then (case data of AddEncryptionKey ek \<Rightarrow> Some (applyAddEncryptionKey ek m) | _ \<Rightarrow> None)
      else if action = ''remove-encryption-key''
       then (case data of RemoveEncryptionKey ek \<Rightarrow> Some (applyRemoveEncryptionKey ek m) | _ \<Rightarrow> None)
      else Some (Some (''unhandled action: '' @ action), m))"

section \<open>Parsing and applying the updates of a request\<close>

fun parseUpdates_from ::
    "nat \<Rightarrow> raw_update list \<Rightarrow> (string, typed_update list) gomap \<Rightarrow> string + (string, typed_update list) gomap" where
  "parseUpdates_from i [] parsed = Inr parsed"
| "parseUpdates_from i (raw # rs) parsed =
     (case parseUpdate raw of
        Inl err \<Rightarrow> Inl (''update['' @ show_int (int i) @ ''] ('' @ ru_action raw @ ''): '' @ err)
      | Inr typed \<Rightarrow>
          parseUpdates_from (i + 1) rs
            (mput parsed (ru_action raw)
               ((case mget parsed (ru_action raw) of Some us \<Rightarrow> us | None \<Rightarrow> []) @ [typed])))"

definition parseUpdates :: "raw_update list \<Rightarrow> string + (string, typed_update list) gomap" where
  "parseUpdates rawUpdates = parseUpdates_from 0 rawUpdates []"

text \<open>How \<open>Apply\<close> ends: \<open>nil\<close>, an error of the parser, an \<open>UpdateError\<close>, or a panic.\<close>

datatype apply_result = ApplyOk | ParseError string | UpdateFailed update_error | Panicked

fun apply_group :: "string \<Rightarrow> typed_update list \<Rightarrow> gobj \<Rightarrow> apply_result \<times> gobj" where
  "apply_group action [] m = (ApplyOk, m)"
| "apply_group action (u # us) m =
     (case applyUpdate action u m of
        None \<Rightarrow> (Panicked, m)
      | Some (Some err, m') \<Rightarrow> (UpdateFailed (NewUpdateError action err), m')
      | Some (None, m') \<Rightarrow> apply_group action us m')"

fun apply_actions ::
    "string list \<Rightarrow> (string, typed_update list) gomap \<Rightarrow> gobj \<Rightarrow> apply_result \<times> gobj" where
  "apply_actions [] parsed m = (ApplyOk, m)"
| "apply_actions (action # as) parsed m =
     (case mget parsed action of
        None \<Rightarrow> apply_actions as parsed m
      | Some us \<Rightarrow>
          (case apply_group action us m of
             (ApplyOk, m') \<Rightarrow> apply_actions as parsed m'
           | (r, m') \<Rightarrow> (r, m')))"

text \<open>The check after the loop: the first key of \<open>parsed\<close> that is no known action.\<close>

definition unknown_action :: "(string, typed_update list) gomap \<Rightarrow> string option" where
  "unknown_action parsed = List.find (\<lambda>a. \<not> isKnownAction a) (mkeys parsed)"

definition Apply :: "raw_update list \<Rightarrow> gobj \<Rightarrow> apply_result \<times> gobj" where
  "Apply rawUpdates m =
     (if rawUpdates = [] then (ApplyOk, m)
      else (case parseUpdates rawUpdates of
        Inl err \<Rightarrow> (ParseError err, m)
      | Inr parsed \<Rightarrow>
          (case apply_actions processingOrder parsed m of
             (ApplyOk, m') \<Rightarrow>
               (case unknown_action parsed of
                  Some a \<Rightarrow> (UpdateFailed (NewUpdateError a ''unknown update action''), m')
                | None \<Rightarrow> (ApplyOk, m'))
           | (r, m') \<Rightarrow> (r, m'))))"

section \<open>The handler of an update\<close>

fun handle :: "typed_update \<Rightarrow> gobj \<Rightarrow> step" where
  "handle (AssignUUID u) m = applyAssignUUID u m"
| "handle (UpgradeFormatVersion v) m = applyUpgradeFormatVersion v m"
| "handle (SetLocation l) m = applySetLocation l m"
| "handle (SetProperties ps) m = applySetProperties ps m"
| "handle (RemoveProperties ks) m = applyRemoveProperties ks m"
| "handle (AddSchema s l) m = applyAddSchema s l m"
| "handle (SetCurrentSchema i) m = applySetCurrentSchema i m"
| "handle (RemoveSchemas is) m = applyRemoveSchemas is m"
| "handle (AddSpec s) m = applyAddSpec s m"
| "handle (SetDefaultSpec i) m = applySetDefaultSpec i m"
| "handle (RemovePartitionSpecs is) m = applyRemovePartitionSpecs is m"
| "handle (AddSortOrder s) m = applyAddSortOrder s m"
| "handle (SetDefaultSortOrder i) m = applySetDefaultSortOrder i m"
| "handle (AddSnapshot s) m = applyAddSnapshot s m"
| "handle (SetSnapshotRef r) m = applySetSnapshotRef r m"
| "handle (RemoveSnapshots is) m = applyRemoveSnapshots is m"
| "handle (RemoveSnapshotRef n) m = applyRemoveSnapshotRef n m"
| "handle (SetStatistics i s) m = applySetStatistics i s m"
| "handle (RemoveStatistics i) m = applyRemoveStatistics i m"
| "handle (SetPartitionStatistics s) m = applySetPartitionStatistics s m"
| "handle (RemovePartitionStatistics i) m = applyRemovePartitionStatistics i m"
| "handle (AddEncryptionKey ek) m = applyAddEncryptionKey ek m"
| "handle (RemoveEncryptionKey ek) m = applyRemoveEncryptionKey ek m"

text \<open>The keys of the metadata an update may write.\<close>

fun touches :: "typed_update \<Rightarrow> string list" where
  "touches (AssignUUID _) = [''table-uuid'']"
| "touches (UpgradeFormatVersion _) = [''format-version'']"
| "touches (SetLocation _) = [''location'']"
| "touches (SetProperties _) = [''properties'']"
| "touches (RemoveProperties _) = [''properties'']"
| "touches (AddSchema _ _) = [''schemas'', ''last-column-id'']"
| "touches (SetCurrentSchema _) = [''current-schema-id'']"
| "touches (RemoveSchemas _) = [''schemas'']"
| "touches (AddSpec _) = [''partition-specs'', ''last-partition-id'']"
| "touches (SetDefaultSpec _) = [''default-spec-id'']"
| "touches (RemovePartitionSpecs _) = [''partition-specs'']"
| "touches (AddSortOrder _) = [''sort-orders'']"
| "touches (SetDefaultSortOrder _) = [''default-sort-order-id'']"
| "touches (AddSnapshot _) = [''snapshots'', ''snapshot-log'', ''last-sequence-number'']"
| "touches (SetSnapshotRef _) = [''refs'', ''current-snapshot-id'']"
| "touches (RemoveSnapshots _) = [''snapshots'']"
| "touches (RemoveSnapshotRef _) = [''refs'', ''current-snapshot-id'']"
| "touches (SetStatistics _ _) = [''statistics'']"
| "touches (RemoveStatistics _) = [''statistics'']"
| "touches (SetPartitionStatistics _) = [''partition-statistics'']"
| "touches (RemovePartitionStatistics _) = [''partition-statistics'']"
| "touches (AddEncryptionKey _) = [''encryption-keys'']"
| "touches (RemoveEncryptionKey _) = [''encryption-keys'']"

text \<open>The dispatch by the action of an update reaches its handler, and no type assertion fails.\<close>

lemma applyUpdate_handle: "applyUpdate (action_of u) u m = Some (handle u m)"
  by (cases u) (simp_all add: applyUpdate_def)

lemma action_of_known: "action_of u \<in> set processingOrder"
  by (cases u) (simp_all add: processingOrder_def)

lemma distinct_processingOrder: "distinct processingOrder"
  by (simp add: processingOrder_def)

lemma isKnownAction_iff: "isKnownAction a \<longleftrightarrow> a \<in> set processingOrder"
  by (auto simp: isKnownAction_def list_ex_iff)

lemmas handler_frames =
  applyAssignUUID_frame applyUpgradeFormatVersion_frame applySetLocation_frame
  applySetProperties_frame applyRemoveProperties_frame applyAddSchema_frame
  applySetCurrentSchema_frame applyRemoveSchemas_frame applyAddSpec_frame
  applySetDefaultSpec_frame applyRemovePartitionSpecs_frame applyAddSortOrder_frame
  applySetDefaultSortOrder_frame applyAddSnapshot_frame applySetSnapshotRef_frame
  applyRemoveSnapshots_frame applyRemoveSnapshotRef_frame applySetStatistics_frame
  applyRemoveStatistics_frame applySetPartitionStatistics_frame
  applyRemovePartitionStatistics_frame applyAddEncryptionKey_frame applyRemoveEncryptionKey_frame

lemma handle_frame: "handle u m = (e, m') \<Longrightarrow> k \<notin> set (touches u) \<Longrightarrow> mget m' k = mget m k"
  by (cases u) (simp_all add: handler_frames)

section \<open>The specification of Apply\<close>

fun parse_all :: "nat \<Rightarrow> raw_update list \<Rightarrow> string + typed_update list" where
  "parse_all i [] = Inr []"
| "parse_all i (raw # rs) =
     (case parseUpdate raw of
        Inl err \<Rightarrow> Inl (''update['' @ show_int (int i) @ ''] ('' @ ru_action raw @ ''): '' @ err)
      | Inr u \<Rightarrow> map_sum id (Cons u) (parse_all (i + 1) rs))"

fun run_updates :: "typed_update list \<Rightarrow> gobj \<Rightarrow> apply_result \<times> gobj" where
  "run_updates [] m = (ApplyOk, m)"
| "run_updates (u # us) m =
     (case handle u m of
        (Some err, m') \<Rightarrow> (UpdateFailed (NewUpdateError (action_of u) err), m')
      | (None, m') \<Rightarrow> run_updates us m')"

fun pos :: "'a \<Rightarrow> 'a list \<Rightarrow> nat" where
  "pos a [] = 0"
| "pos a (x # xs) = (if a = x then 0 else Suc (pos a xs))"

definition rank :: "typed_update \<Rightarrow> nat" where
  "rank u = pos (action_of u) processingOrder"

text \<open>Grouping by key and reading the groups in the order of the keys is a stable sort.\<close>

lemma pos_inj: "a \<in> set xs \<Longrightarrow> b \<in> set xs \<Longrightarrow> pos a xs = pos b xs \<longleftrightarrow> a = b"
  by (induction xs) auto

definition buckets :: "('b \<Rightarrow> 'a) \<Rightarrow> 'a list \<Rightarrow> 'b list \<Rightarrow> 'b list" where
  "buckets g ks xs = concat (map (\<lambda>a. filter (\<lambda>x. g x = a) xs) ks)"

lemma buckets_Cons: "buckets g (k # ks) xs = filter (\<lambda>x. g x = k) xs @ buckets g ks xs"
  by (simp add: buckets_def)

lemma set_buckets: "set (buckets g ks xs) = {x \<in> set xs. g x \<in> set ks}"
  by (auto simp: buckets_def)

lemma mset_buckets: "distinct ks \<Longrightarrow> mset (buckets g ks xs) = mset (filter (\<lambda>x. g x \<in> set ks) xs)"
proof (induction ks)
  case (Cons k ks)
  have "filter_mset (\<lambda>x. g x = k \<or> g x \<in> set ks) (mset xs) =
      filter_mset (\<lambda>x. g x = k) (mset xs) + filter_mset (\<lambda>x. g x \<in> set ks) (mset xs)"
    using Cons.prems by (induction xs) auto
  with Cons show ?case by (simp add: buckets_Cons)
qed (simp add: buckets_def)

lemma sorted_zeros: "(\<And>x. x \<in> set xs \<Longrightarrow> h x = (0::nat)) \<Longrightarrow> sorted (map h xs @ ns) = sorted ns"
  by (induction xs) auto

lemma sorted_buckets: "distinct ks \<Longrightarrow> sorted (map (\<lambda>x. pos (g x) ks) (buckets g ks xs))"
proof (induction ks)
  case (Cons k ks)
  have m: "map (\<lambda>x. pos (g x) (k # ks)) (buckets g ks xs) = map Suc (map (\<lambda>x. pos (g x) ks) (buckets g ks xs))"
    using Cons.prems by (auto simp: set_buckets)
  have "sorted (map Suc (map (\<lambda>x. pos (g x) ks) (buckets g ks xs)))"
    using Cons by (simp add: sorted_map mono_def)
  then show ?case unfolding buckets_Cons map_append m by (subst sorted_zeros) auto
qed (simp add: buckets_def)

lemma filter_buckets:
  "distinct ks \<Longrightarrow> k \<in> set ks \<Longrightarrow> filter (\<lambda>x. g x = k) (buckets g ks xs) = filter (\<lambda>x. g x = k) xs"
proof (induction ks)
  case (Cons a ks)
  show ?case
  proof (cases "a = k")
    case True
    then have "filter (\<lambda>x. g x = k) (buckets g ks xs) = []"
      using Cons.prems by (auto simp: filter_empty_conv set_buckets)
    with True show ?thesis by (simp add: buckets_Cons)
  next
    case False
    then have "filter (\<lambda>x. g x = k) (filter (\<lambda>x. g x = a) xs) = []"
      by (auto simp: filter_empty_conv)
    with False Cons show ?thesis by (simp add: buckets_Cons)
  qed
qed simp

lemma buckets_sort:
  assumes "distinct ks" "\<And>x. x \<in> set xs \<Longrightarrow> g x \<in> set ks"
  shows "buckets g ks xs = sort_key (\<lambda>x. pos (g x) ks) xs"
proof (rule properties_for_sort_key [symmetric])
  show "mset (buckets g ks xs) = mset xs"
    using assms by (simp add: mset_buckets filter_id_conv [THEN iffD2])
  show "sorted (map (\<lambda>x. pos (g x) ks) (buckets g ks xs))"
    using assms(1) by (rule sorted_buckets)
  fix k assume "k \<in> set (buckets g ks xs)"
  then have k: "g k \<in> set ks" by (simp add: set_buckets)
  have "filter (\<lambda>x. pos (g k) ks = pos (g x) ks) ys = filter (\<lambda>x. g x = g k) ys"
    if "set ys \<subseteq> set xs" for ys
    using that k assms(2) by (intro filter_cong) (auto simp: pos_inj)
  from this [of xs] this [of "buckets g ks xs"] filter_buckets [OF assms(1) k, of g xs]
  show "filter (\<lambda>x. pos (g k) ks = pos (g x) ks) (buckets g ks xs) =
      filter (\<lambda>x. pos (g k) ks = pos (g x) ks) xs"
    by (auto simp: set_buckets)
qed

text \<open>The groups \<open>parseUpdates\<close> builds.\<close>

definition group_updates ::
    "(string, typed_update list) gomap \<Rightarrow> typed_update list \<Rightarrow> (string, typed_update list) gomap" where
  "group_updates = foldl (\<lambda>p u. mput p (action_of u)
     ((case mget p (action_of u) of Some us \<Rightarrow> us | None \<Rightarrow> []) @ [u]))"

lemma parseUpdates_from_group:
  "parseUpdates_from i rs p = map_sum id (group_updates p) (parse_all i rs)"
proof (induction rs arbitrary: i p)
  case (Cons raw rs)
  show ?case
  proof (cases "parseUpdate raw")
    case (Inr u)
    with Cons parseUpdate_action [OF Inr] show ?thesis
      by (simp add: sum.map_comp comp_def) (simp add: group_updates_def)
  qed simp
qed (simp add: group_updates_def)

lemma mget_group_updates:
  "mget (group_updates p us) a =
     (let us' = filter (\<lambda>u. action_of u = a) us
      in case mget p a of Some vs \<Rightarrow> Some (vs @ us') | None \<Rightarrow> (if us' = [] then None else Some us'))"
proof (induction us arbitrary: p)
  case Nil
  then show ?case by (simp add: group_updates_def split: option.splits)
next
  case (Cons u us)
  then show ?case
    by (auto simp: group_updates_def Let_def split: option.splits)
qed

lemma run_updates_append:
  "run_updates (us @ vs) m =
     (case run_updates us m of (ApplyOk, m') \<Rightarrow> run_updates vs m' | r \<Rightarrow> r)"
  by (induction us arbitrary: m) (auto split: prod.splits option.splits apply_result.splits)

lemma apply_group_run:
  "(\<And>u. u \<in> set us \<Longrightarrow> action_of u = a) \<Longrightarrow> apply_group a us m = run_updates us m"
proof (induction us arbitrary: m)
  case (Cons u us)
  then have "applyUpdate a u m = Some (handle u m)" "action_of u = a"
    using applyUpdate_handle [of u m] by auto
  with Cons show ?case by (simp split: prod.splits option.splits)
qed simp

lemma apply_actions_run:
  "apply_actions as (group_updates [] us) m = run_updates (buckets action_of as us) m"
proof (induction as arbitrary: m)
  case Nil
  then show ?case by (simp add: buckets_def)
next
  case (Cons a as)
  have "apply_group a (filter (\<lambda>u. action_of u = a) us) m = run_updates (filter (\<lambda>u. action_of u = a) us) m" for m
    by (rule apply_group_run) simp
  with Cons show ?case
    by (simp add: mget_group_updates buckets_Cons run_updates_append Let_def
        split: prod.splits apply_result.splits)
qed

lemma unknown_action_None: "unknown_action (group_updates [] us) = None"
proof -
  have "isKnownAction a" if "a \<in> set (mkeys (group_updates [] us))" for a
  proof -
    from that have "mget (group_updates [] us) a \<noteq> None" by (simp add: mget_None_iff)
    then have "filter (\<lambda>u. action_of u = a) us \<noteq> []" by (auto simp: mget_group_updates)
    then show ?thesis using action_of_known by (auto simp: filter_empty_conv isKnownAction_iff)
  qed
  then show ?thesis by (auto simp: unknown_action_def find_None_iff)
qed

lemma run_updates_cases:
  "run_updates us m = (r, m') \<Longrightarrow> r = ApplyOk \<or> (\<exists>u \<in> set us. \<exists>e. r = UpdateFailed (NewUpdateError (action_of u) e))"
  by (induction us arbitrary: m) (auto split: prod.splits option.splits)

lemma Apply_run:
  "Apply rs m =
     (case parse_all 0 rs of
        Inl err \<Rightarrow> (ParseError err, m)
      | Inr us \<Rightarrow> run_updates (sort_key rank us) m)"
proof (cases "parse_all 0 rs")
  case (Inl err)
  then show ?thesis by (cases rs) (auto simp: Apply_def parseUpdates_def parseUpdates_from_group)
next
  case (Inr us)
  have b: "buckets action_of processingOrder us = sort_key rank us"
    unfolding rank_def by (rule buckets_sort) (simp_all add: distinct_processingOrder action_of_known)
  show ?thesis
  proof (cases "rs = []")
    case True
    with Inr show ?thesis by (simp add: Apply_def)
  next
    case False
    with Inr show ?thesis
      by (auto simp: Apply_def parseUpdates_def parseUpdates_from_group apply_actions_run b
          unknown_action_None split: prod.splits apply_result.splits)
  qed
qed

section \<open>From single updates to Apply\<close>

text \<open>
  A reflexive and transitive relation that every handler respects holds between the metadata before
  and after \<open>Apply\<close>, failed or not.
\<close>

locale update_steps =
  fixes R :: "gobj \<Rightarrow> gobj \<Rightarrow> bool"
  assumes R_refl: "R m m"
    and R_trans: "R m m' \<Longrightarrow> R m' m'' \<Longrightarrow> R m m''"
    and R_handle: "handle u m = (e, m') \<Longrightarrow> R m m'"
begin

lemma run_steps: "run_updates us m = (r, m') \<Longrightarrow> R m m'"
proof (induction us arbitrary: m)
  case (Cons u us)
  then obtain e m1 where h: "handle u m = (e, m1)" by (cases "handle u m")
  with Cons R_handle [OF h] show ?case
    by (cases e) (auto intro: R_trans)
qed (simp add: R_refl)

lemma Apply_steps: "Apply rs m = (r, m') \<Longrightarrow> R m m'"
  by (auto simp: Apply_run R_refl run_steps split: sum.splits)

end

section \<open>Integrity of the metadata\<close>

abbreviation schemas_ok :: "gobj \<Rightarrow> bool" where
  "schemas_ok \<equiv> versioned_ok ''schemas'' ''schema-id'' ''current-schema-id''"

abbreviation specs_ok :: "gobj \<Rightarrow> bool" where
  "specs_ok \<equiv> versioned_ok ''partition-specs'' ''spec-id'' ''default-spec-id''"

abbreviation orders_ok :: "gobj \<Rightarrow> bool" where
  "orders_ok \<equiv> versioned_ok ''sort-orders'' ''order-id'' ''default-sort-order-id''"

definition keyed_ok :: "gobj \<Rightarrow> bool" where
  "keyed_ok m \<longleftrightarrow>
     distinct (item_ids ''snapshot-id'' (slice_of m ''statistics'')) \<and>
     distinct (item_ids ''snapshot-id'' (slice_of m ''partition-statistics'')) \<and>
     distinct (key_ids m)"

lemma handle_schemas:
  assumes "handle u m = (e, m')" "schemas_ok m" shows "schemas_ok m'"
proof (cases "''schemas'' \<in> set (touches u) \<or> ''current-schema-id'' \<in> set (touches u)")
  case True
  show ?thesis
  proof (cases u)
    case (AddSchema s l)
    from assms show ?thesis unfolding AddSchema handle.simps by (rule schemas.add_keeps_ok)
  next
    case (SetCurrentSchema i)
    from assms show ?thesis unfolding SetCurrentSchema handle.simps by (rule schemas.set_keeps_ok)
  next
    case (RemoveSchemas rs)
    from assms show ?thesis unfolding RemoveSchemas handle.simps by (rule schemas.rem_keeps_ok)
  qed (use True in simp_all)
next
  case False
  then show ?thesis using assms(2)
    by (subst versioned_ok_cong) (simp_all add: handle_frame [OF assms(1)])
qed

lemma handle_specs:
  assumes "handle u m = (e, m')" "specs_ok m" shows "specs_ok m'"
proof (cases "''partition-specs'' \<in> set (touches u) \<or> ''default-spec-id'' \<in> set (touches u)")
  case True
  show ?thesis
  proof (cases u)
    case (AddSpec s)
    from assms show ?thesis unfolding AddSpec handle.simps by (rule partspecs.add_keeps_ok)
  next
    case (SetDefaultSpec i)
    from assms show ?thesis unfolding SetDefaultSpec handle.simps by (rule partspecs.set_keeps_ok)
  next
    case (RemovePartitionSpecs rs)
    from assms show ?thesis unfolding RemovePartitionSpecs handle.simps by (rule partspecs.rem_keeps_ok)
  qed (use True in simp_all)
next
  case False
  then show ?thesis using assms(2)
    by (subst versioned_ok_cong) (simp_all add: handle_frame [OF assms(1)])
qed

lemma handle_orders:
  assumes "handle u m = (e, m')" "orders_ok m" shows "orders_ok m'"
proof (cases "''sort-orders'' \<in> set (touches u) \<or> ''default-sort-order-id'' \<in> set (touches u)")
  case True
  show ?thesis
  proof (cases u)
    case (AddSortOrder s)
    from assms show ?thesis unfolding AddSortOrder handle.simps by (rule sortorders.add_keeps_ok)
  next
    case (SetDefaultSortOrder i)
    from assms show ?thesis unfolding SetDefaultSortOrder handle.simps by (rule sortorders.set_keeps_ok)
  qed (use True in simp_all)
next
  case False
  then show ?thesis using assms(2)
    by (subst versioned_ok_cong) (simp_all add: handle_frame [OF assms(1)])
qed

lemma handle_snapshots:
  assumes "handle u m = (e, m')" "snapshots_ok m" shows "snapshots_ok m'"
proof (cases "''snapshots'' \<in> set (touches u) \<or> ''refs'' \<in> set (touches u) \<or>
    ''current-snapshot-id'' \<in> set (touches u)")
  case True
  show ?thesis
  proof (cases u)
    case (AddSnapshot s)
    from assms show ?thesis unfolding AddSnapshot handle.simps by (rule applyAddSnapshot_keeps_ok)
  next
    case (SetSnapshotRef x)
    from assms show ?thesis unfolding SetSnapshotRef handle.simps by (rule applySetSnapshotRef_keeps_ok)
  next
    case (RemoveSnapshots rs)
    from assms show ?thesis unfolding RemoveSnapshots handle.simps by (rule applyRemoveSnapshots_keeps_ok)
  next
    case (RemoveSnapshotRef n)
    from assms show ?thesis unfolding RemoveSnapshotRef handle.simps by (rule applyRemoveSnapshotRef_keeps_ok)
  qed (use True in simp_all)
next
  case False
  then show ?thesis using assms(2)
    by (subst snapshots_ok_cong) (simp_all add: handle_frame [OF assms(1)])
qed

lemma handle_main:
  assumes "handle u m = (e, m')" "main_ok m" shows "main_ok m'"
proof (cases "''refs'' \<in> set (touches u) \<or> ''current-snapshot-id'' \<in> set (touches u)")
  case True
  show ?thesis
  proof (cases u)
    case (SetSnapshotRef x)
    from assms show ?thesis unfolding SetSnapshotRef handle.simps by (rule applySetSnapshotRef_keeps_main)
  next
    case (RemoveSnapshotRef x)
    from assms show ?thesis unfolding RemoveSnapshotRef handle.simps by (rule applyRemoveSnapshotRef_keeps_main)
  qed (use True in simp_all)
next
  case False
  then show ?thesis using assms(2)
    by (subst main_ok_cong) (simp_all add: handle_frame [OF assms(1)])
qed

lemma handle_stats:
  assumes "handle u m = (e, m')" "distinct (item_ids ''snapshot-id'' (slice_of m ''statistics''))"
  shows "distinct (item_ids ''snapshot-id'' (slice_of m' ''statistics''))"
proof (cases "''statistics'' \<in> set (touches u)")
  case True
  show ?thesis
  proof (cases u)
    case (SetStatistics i s)
    from assms show ?thesis unfolding SetStatistics handle.simps by (rule stats.set_keyed_distinct [of "(i, s)", simplified])
  next
    case (RemoveStatistics i)
    from assms show ?thesis unfolding RemoveStatistics handle.simps by (rule stats.remove_keyed_distinct [THEN conjunct1])
  qed (use True in simp_all)
next
  case False
  with assms(2) reads_cong(5) [OF handle_frame [OF assms(1)]] show ?thesis by simp
qed

lemma handle_partstats:
  assumes "handle u m = (e, m')"
    "distinct (item_ids ''snapshot-id'' (slice_of m ''partition-statistics''))"
  shows "distinct (item_ids ''snapshot-id'' (slice_of m' ''partition-statistics''))"
proof (cases "''partition-statistics'' \<in> set (touches u)")
  case True
  show ?thesis
  proof (cases u)
    case (SetPartitionStatistics s)
    from assms show ?thesis unfolding SetPartitionStatistics handle.simps by (rule partstats.set_keyed_distinct)
  next
    case (RemovePartitionStatistics i)
    from assms show ?thesis unfolding RemovePartitionStatistics handle.simps by (rule partstats.remove_keyed_distinct [THEN conjunct1])
  qed (use True in simp_all)
next
  case False
  with assms(2) reads_cong(5) [OF handle_frame [OF assms(1)]] show ?thesis by simp
qed

lemma handle_keys:
  assumes "handle u m = (e, m')" "distinct (key_ids m)" shows "distinct (key_ids m')"
proof (cases "''encryption-keys'' \<in> set (touches u)")
  case True
  show ?thesis
  proof (cases u)
    case (AddEncryptionKey ek)
    from assms show ?thesis unfolding AddEncryptionKey handle.simps by (rule applyAddEncryptionKey_distinct)
  next
    case (RemoveEncryptionKey ek)
    from assms show ?thesis unfolding RemoveEncryptionKey handle.simps by (rule applyRemoveEncryptionKey_distinct)
  qed (use True in simp_all)
next
  case False
  then show ?thesis using assms(2)
    by (subst key_ids_cong) (simp_all add: handle_frame [OF assms(1)])
qed

lemma handle_keyed: "handle u m = (e, m') \<Longrightarrow> keyed_ok m \<Longrightarrow> keyed_ok m'"
  using handle_stats handle_partstats handle_keys by (auto simp: keyed_ok_def)

interpretation keep_schemas: update_steps "\<lambda>m m'. schemas_ok m \<longrightarrow> schemas_ok m'"
  by unfold_locales (auto intro: handle_schemas)

interpretation keep_specs: update_steps "\<lambda>m m'. specs_ok m \<longrightarrow> specs_ok m'"
  by unfold_locales (auto intro: handle_specs)

interpretation keep_orders: update_steps "\<lambda>m m'. orders_ok m \<longrightarrow> orders_ok m'"
  by unfold_locales (auto intro: handle_orders)

interpretation keep_snapshots: update_steps "\<lambda>m m'. snapshots_ok m \<longrightarrow> snapshots_ok m'"
  by unfold_locales (auto intro: handle_snapshots)

interpretation keep_main: update_steps "\<lambda>m m'. main_ok m \<longrightarrow> main_ok m'"
  by unfold_locales (auto intro: handle_main)

interpretation keep_keyed: update_steps "\<lambda>m m'. keyed_ok m \<longrightarrow> keyed_ok m'"
  by unfold_locales (auto intro: handle_keyed)

section \<open>Attributes that only move forward\<close>

lemma handle_uuid:
  assumes "handle u m = (e, m')" "uuid_set w m" shows "uuid_set w m'"
proof (cases "''table-uuid'' \<in> set (touches u)")
  case True
  show ?thesis
  proof (cases u)
    case (AssignUUID x)
    from assms show ?thesis unfolding AssignUUID handle.simps by (rule applyAssignUUID_keeps)
  qed (use True in simp_all)
next
  case False
  with assms(2) reads_cong(2) [OF handle_frame [OF assms(1)]] show ?thesis by (simp add: uuid_set_def)
qed

definition counters :: "string list" where
  "counters = [''format-version'', ''last-column-id'', ''last-partition-id'', ''last-sequence-number'']"

definition counters_le :: "gobj \<Rightarrow> gobj \<Rightarrow> bool" where
  "counters_le m m' \<longleftrightarrow> list_all (\<lambda>k. the_int m k \<le> the_int m' k) counters"

lemma applyAddSnapshot_sequence_mono:
  assumes "applyAddSnapshot s m = (e, m')"
  shows "the_int m ''last-sequence-number'' \<le> the_int m' ''last-sequence-number''"
proof (cases e)
  case None
  with assms have "applyAddSnapshot s m = (None, m')" by simp
  then show ?thesis by (rule applyAddSnapshot_ok) (auto split: option.splits)
next
  case (Some err)
  with assms show ?thesis
    by (auto simp: applyAddSnapshot_def Let_def the_int_ensureSlice
        split: option.splits prod.splits if_splits)
qed

lemma handle_counter:
  assumes "handle u m = (e, m')" "k \<in> set counters"
  shows "the_int m k \<le> the_int m' k"
proof (cases "k \<in> set (touches u)")
  case True
  note h = assms(1) and k = assms(2) [unfolded counters_def]
  show ?thesis
  proof (cases u)
    case (UpgradeFormatVersion v)
    with True have "k = ''format-version''" by simp
    with h UpgradeFormatVersion show ?thesis by (simp add: applyUpgradeFormatVersion_mono)
  next
    case (AddSchema s l)
    with True k have "k = ''last-column-id''" by auto
    with h AddSchema show ?thesis by (simp add: applyAddSchema_last_column_mono)
  next
    case (AddSpec s)
    with True k have "k = ''last-partition-id''" by auto
    with h AddSpec show ?thesis by (simp add: applyAddSpec_last_partition_mono)
  next
    case (AddSnapshot s)
    with True k have "k = ''last-sequence-number''" by auto
    with h AddSnapshot show ?thesis by (simp add: applyAddSnapshot_sequence_mono)
  qed (use True k in auto)
next
  case False
  with reads_cong(6) [OF handle_frame [OF assms(1)]] show ?thesis by simp
qed

lemma handle_counters: "handle u m = (e, m') \<Longrightarrow> counters_le m m'"
  by (simp add: counters_le_def list_all_iff handle_counter)

interpretation keep_uuid: update_steps "\<lambda>m m'. uuid_set w m \<longrightarrow> uuid_set w m'" for w
  by unfold_locales (auto intro: handle_uuid)

interpretation counters_up: update_steps counters_le
  by unfold_locales
    (auto simp: counters_le_def list_all_iff intro: order_trans handle_counter)

text \<open>What no update of the request touches stays as it was.\<close>

lemma run_frame:
  "run_updates us m = (r, m') \<Longrightarrow> (\<And>u. u \<in> set us \<Longrightarrow> k \<notin> set (touches u)) \<Longrightarrow> mget m' k = mget m k"
proof (induction us arbitrary: m)
  case (Cons u us)
  obtain e m1 where h: "handle u m = (e, m1)" by (cases "handle u m")
  with Cons.prems handle_frame [OF h] have "mget m1 k = mget m k" by simp
  with h Cons show ?case by (cases e) auto
qed simp

end
