(* ===== verification/UpdateProps.thy ===== *)
theory UpdateProps
  imports Processor
begin

text \<open>
  The properties of the update processor: \<open>Apply\<close> against its specification, the integrity of the
  metadata under every list of updates, and the path a writer takes to commit a snapshot.
\<close>

section \<open>Concrete requests\<close>

text \<open>The updates a writer sends to commit a snapshot: the snapshot, and \<open>main\<close> moved to it.\<close>

definition add_snapshot_json :: "int \<Rightarrow> int \<Rightarrow> int \<Rightarrow> json" where
  "add_snapshot_json i t q =
     JObj [(''action'', JStr ''add-snapshot''),
           (''snapshot'', JObj [(''snapshot-id'', JNum (JInt i)), (''timestamp-ms'', JNum (JInt t)),
                                (''sequence-number'', JNum (JInt q))])]"

definition set_main_json :: "int \<Rightarrow> json" where
  "set_main_json i =
     JObj [(''action'', JStr ''set-snapshot-ref''), (''ref-name'', JStr ''main''),
           (''type'', JStr ''branch''), (''snapshot-id'', JNum (JInt i))]"

lemma fold_names [simp]:
  "fold_name ''action'' = ''ACTION''" "fold_name ''snapshot'' = ''SNAPSHOT''"
  "fold_name ''snapshot-id'' = ''SNAPSHOT-ID''" "fold_name ''ref-name'' = ''REF-NAME''"
  "fold_name ''type'' = ''TYPE''" "fold_name ''max-ref-age-ms'' = ''MAX-REF-AGE-MS''"
  "fold_name ''max-snapshot-age-ms'' = ''MAX-SNAPSHOT-AGE-MS''"
  "fold_name ''min-snapshots-to-keep'' = ''MIN-SNAPSHOTS-TO-KEEP''"
  "fold_name ''schema'' = ''SCHEMA''" "fold_name ''schema-id'' = ''SCHEMA-ID''"
  "fold_name ''location'' = ''LOCATION''" "fold_name ''format-version'' = ''FORMAT-VERSION''"
  by code_simp+

definition snapshot_obj :: "f64 \<Rightarrow> f64 \<Rightarrow> f64 \<Rightarrow> gobj" where
  "snapshot_obj i t q =
     [(''snapshot-id'', GFloat i), (''timestamp-ms'', GFloat t), (''sequence-number'', GFloat q)]"

definition main_ref :: "int \<Rightarrow> set_snapshot_ref" where
  "main_ref i = \<lparr>RefName = ''main'', RefType = ''branch'', RefSnapshotID = i, MaxRefAgeMs = None,
                MaxSnapshotAgeMs = None, MinSnapshotsToKeep = None\<rparr>"

lemma parse_add_snapshot:
  assumes "f64_of_int i = Some fi" "f64_of_int t = Some ft" "f64_of_int q = Some fq"
  shows "\<exists>raw. UnmarshalJSON (add_snapshot_json i t q) = Some raw \<and> ru_action raw = ''add-snapshot'' \<and>
    parseUpdate raw = Inr (AddSnapshot (Some (snapshot_obj fi ft fq)))"
  using assms
  by (simp add: add_snapshot_json_def UnmarshalJSON_def members_def parseUpdate_def decode_update_def
      mput_all_def mput_def snapshot_obj_def)

lemma parse_set_main:
  assumes "in_int64 i"
  shows "\<exists>raw. UnmarshalJSON (set_main_json i) = Some raw \<and> ru_action raw = ''set-snapshot-ref'' \<and>
    parseUpdate raw = Inr (SetSnapshotRef (main_ref i))"
  using assms
  by (simp add: set_main_json_def UnmarshalJSON_def members_def parseUpdate_def decode_update_def
      main_ref_def)


lemma raw_of:
  assumes "\<exists>raw. UnmarshalJSON j = Some raw \<and> ru_action raw = a \<and> parseUpdate raw = Inr u"
  shows "UnmarshalJSON j \<noteq> None" "parseUpdate (the (UnmarshalJSON j)) = Inr u"
    "ru_action (the (UnmarshalJSON j)) = a"
  using assms by auto

text \<open>The two updates of a writer, the reference first.\<close>

definition snapshot_commit :: "int \<Rightarrow> int \<Rightarrow> int \<Rightarrow> raw_update list" where
  "snapshot_commit i t q =
     [the (UnmarshalJSON (set_main_json i)), the (UnmarshalJSON (add_snapshot_json i t q))]"

text \<open>A table with one schema, spec, sort order, snapshot, statistics entry and key.\<close>

definition sample_meta :: gobj where
  "sample_meta =
     [(''format-version'', GInt 2), (''table-uuid'', GStr ''u-1''),
      (''schemas'', GArr [GObj [(''schema-id'', GInt 0)]]), (''current-schema-id'', GInt 0),
      (''partition-specs'', GArr [GObj [(''spec-id'', GInt 0)]]), (''default-spec-id'', GInt 0),
      (''sort-orders'', GArr [GObj [(''order-id'', GInt 0)]]), (''default-sort-order-id'', GInt 0),
      (''snapshots'', GArr [GObj [(''snapshot-id'', GInt64 5)]]), (''current-snapshot-id'', GInt64 5),
      (''refs'', GObj [(''main'', GObj [(''type'', GStr ''branch''), (''snapshot-id'', GInt64 5)])]),
      (''statistics'', GArr [GObj [(''snapshot-id'', GInt64 5)]]),
      (''encryption-keys'', GArr [GObj [(''key-id'', GStr ''k'')]])]"

section \<open>Apply and its specification\<close>

text \<open>C8: \<open>Apply\<close> parses all updates, stopping at the first that does not parse, and then runs them
  one after the other in a stable sort by the position of their action in \<open>processingOrder\<close>: the
  grouping by action into a Go map, and the walk over the groups, are an implementation of that.\<close>

theorem Apply_is_sorted_run:
  "Apply rs m =
     (case parse_all 0 rs of
        Inl err \<Rightarrow> (ParseError err, m)
      | Inr us \<Rightarrow> run_updates (sort_key rank us) m)"
  by (rule Apply_run)

lemma parse_all_Inl:
  "parse_all n rs = Inl e \<Longrightarrow>
     \<exists>i err. i < length rs \<and> (\<forall>j < i. \<not> isl (parseUpdate (rs ! j))) \<and> parseUpdate (rs ! i) = Inl err \<and>
       e = ''update['' @ show_int (int (n + i)) @ ''] ('' @ ru_action (rs ! i) @ ''): '' @ err"
proof (induction rs arbitrary: n e)
  case (Cons raw rs)
  show ?case
  proof (cases "parseUpdate raw")
    case (Inl err)
    with Cons.prems show ?thesis by (intro exI [of _ 0] exI [of _ err]) auto
  next
    case (Inr u)
    with Cons.prems have p: "parse_all (n + 1) rs = Inl e" by (cases "parse_all (n + 1) rs") auto
    from Cons.IH [OF p] obtain i err where "i < length rs" "\<forall>j < i. \<not> isl (parseUpdate (rs ! j))"
        "parseUpdate (rs ! i) = Inl err"
        "e = ''update['' @ show_int (int (n + 1 + i)) @ ''] ('' @ ru_action (rs ! i) @ ''): '' @ err"
      by blast
    with Inr show ?thesis
      by (intro exI [of _ "Suc i"] exI [of _ err]) (auto simp: nth_Cons split: nat.splits)
  qed
qed simp

lemma parse_all_Inr: "parse_all n rs = Inr us \<Longrightarrow> map parseUpdate rs = map Inr us"
proof (induction rs arbitrary: n us)
  case (Cons raw rs)
  then show ?case
    by (cases "parseUpdate raw"; cases "parse_all (n + 1) rs") auto
qed simp

lemma parse_all_from:
  assumes "parse_all n rs = Inr us" "u \<in> set us"
  obtains raw where "raw \<in> set rs" "parseUpdate raw = Inr u"
proof -
  from assms(2) have "Inr u \<in> set (map parseUpdate rs)"
    unfolding parse_all_Inr [OF assms(1)] by simp
  then show ?thesis using that by (metis imageE set_map)
qed

text \<open>C21: how \<open>Apply\<close> can end.  It never panics at a type assertion, and the check for unknown
  actions after the loop never fires: an error after parsing comes from a handler, carries no cause
  and names the action of an update of the request, which is one of the 23 known actions.\<close>

theorem Apply_outcomes:
  "case fst (Apply rs m) of
     ApplyOk \<Rightarrow> True
   | ParseError e \<Rightarrow>
       snd (Apply rs m) = m \<and>
       (\<exists>i err. i < length rs \<and> parseUpdate (rs ! i) = Inl err \<and>
          e = ''update['' @ show_int (int i) @ ''] ('' @ ru_action (rs ! i) @ ''): '' @ err)
   | UpdateFailed e \<Rightarrow>
       ue_cause e = None \<and> ue_action e \<in> ru_action ` set rs \<and> isKnownAction (ue_action e)
   | Panicked \<Rightarrow> False"
proof (cases "parse_all 0 rs")
  case (Inl err)
  then show ?thesis using parse_all_Inl [OF Inl] by (auto simp: Apply_run)
next
  case (Inr us)
  obtain r m' where run: "run_updates (sort_key rank us) m = (r, m')" by (cases "run_updates (sort_key rank us) m")
  have acts: "action_of u \<in> ru_action ` set rs" if "u \<in> set us" for u
    by (rule parse_all_from [OF Inr that]) (auto dest: parseUpdate_action)
  from run_updates_cases [OF run] acts Inr run show ?thesis
    by (auto simp: Apply_run NewUpdateError_def isKnownAction_iff action_of_known)
qed

section \<open>Integrity of the metadata\<close>

text \<open>C10: schemas, partition specs and sort orders stay consistent under every list of updates,
  whether \<open>Apply\<close> succeeds or fails half-way: no two items of a list share an id, and the current
  schema, the default spec and the default sort order exist.\<close>

theorem Apply_keeps_versioned:
  assumes "Apply rs m = (r, m')" "schemas_ok m" "specs_ok m" "orders_ok m"
  shows "schemas_ok m' \<and> specs_ok m' \<and> orders_ok m'"
  using assms keep_schemas.Apply_steps keep_specs.Apply_steps keep_orders.Apply_steps by blast


theorem Apply_keeps_versioned_witness:
  "schemas_ok (snd (Apply (snapshot_commit 7 1700000000000 3) sample_meta)) \<and>
   specs_ok (snd (Apply (snapshot_commit 7 1700000000000 3) sample_meta)) \<and>
   orders_ok (snd (Apply (snapshot_commit 7 1700000000000 3) sample_meta))"
  by (rule Apply_keeps_versioned [of "snapshot_commit 7 1700000000000 3" sample_meta
        "fst (Apply (snapshot_commit 7 1700000000000 3) sample_meta)"])
    (simp, code_simp+)

text \<open>C9: the snapshots stay consistent: their ids are distinct, every reference and the current
  snapshot id point to a snapshot of the table (unless they are negative), and the branch \<open>main\<close>,
  where there is one, is at the current snapshot.\<close>

theorem Apply_keeps_snapshots:
  assumes "Apply rs m = (r, m')" "snapshots_ok m" "main_ok m"
  shows "snapshots_ok m' \<and> main_ok m'"
  using assms keep_snapshots.Apply_steps keep_main.Apply_steps by blast


theorem Apply_keeps_snapshots_witness:
  "snapshots_ok (snd (Apply (snapshot_commit 7 1700000000000 3) sample_meta)) \<and>
   main_ok (snd (Apply (snapshot_commit 7 1700000000000 3) sample_meta))"
  by (rule Apply_keeps_snapshots [of "snapshot_commit 7 1700000000000 3" sample_meta
        "fst (Apply (snapshot_commit 7 1700000000000 3) sample_meta)"])
    (simp, code_simp+)

text \<open>At most one statistics entry and one partition statistics entry per snapshot, and no two
  encryption keys with the same id.\<close>

theorem Apply_keeps_keyed:
  assumes "Apply rs m = (r, m')" "keyed_ok m"
  shows "keyed_ok m'"
  using assms keep_keyed.Apply_steps by blast


theorem Apply_keeps_keyed_witness:
  "keyed_ok (snd (Apply (snapshot_commit 7 1700000000000 3) sample_meta))"
  by (rule Apply_keeps_keyed [of "snapshot_commit 7 1700000000000 3" sample_meta
        "fst (Apply (snapshot_commit 7 1700000000000 3) sample_meta)"])
    (simp, code_simp)

text \<open>C20: the format version and the counters of columns, partition fields and sequence numbers
  never go down, and a table UUID that is set never changes.\<close>

theorem Apply_monotone:
  assumes "Apply rs m = (r, m')"
  shows "counters_le m m' \<and> (\<forall>w. uuid_set w m \<longrightarrow> uuid_set w m')"
  using assms counters_up.Apply_steps keep_uuid.Apply_steps by blast


theorem Apply_monotone_witness:
  "counters_le sample_meta (snd (Apply (snapshot_commit 7 1700000000000 3) sample_meta)) \<and>
   uuid_set ''u-1'' (snd (Apply (snapshot_commit 7 1700000000000 3) sample_meta))"
proof -
  have "uuid_set ''u-1'' sample_meta" by (simp add: uuid_set_def sample_meta_def getString_def)
  then show ?thesis
    using Apply_monotone [of "snapshot_commit 7 1700000000000 3" sample_meta
        "fst (Apply (snapshot_commit 7 1700000000000 3) sample_meta)"] by simp
qed

text \<open>A key of the metadata that no update of the request may write keeps its value.\<close>

theorem Apply_frame:
  assumes "Apply rs m = (r, m')"
    "\<And>raw u. raw \<in> set rs \<Longrightarrow> parseUpdate raw = Inr u \<Longrightarrow> k \<notin> set (touches u)"
  shows "mget m' k = mget m k"
proof (cases "parse_all 0 rs")
  case (Inl err)
  with assms(1) show ?thesis by (simp add: Apply_run)
next
  case (Inr us)
  have "k \<notin> set (touches u)" if "u \<in> set us" for u
    using parse_all_from [OF Inr that] assms(2) by blast
  with assms(1) Inr show ?thesis by (auto simp: Apply_run intro: run_frame)
qed



theorem Apply_frame_witness:
  "mget (snd (Apply (snapshot_commit 7 1700000000000 3) sample_meta)) ''schemas'' =
   mget sample_meta ''schemas''"
proof (rule Apply_frame [where r = "fst (Apply (snapshot_commit 7 1700000000000 3) sample_meta)"])
  fix raw u assume h: "raw \<in> set (snapshot_commit 7 1700000000000 3)" "parseUpdate raw = Inr u"
  obtain fi where fi: "f64_of_int 7 = Some fi" by (rule f64_of_int_exact [of 7]) auto
  obtain ft where ft: "f64_of_int 1700000000000 = Some ft"
    by (rule f64_of_int_exact [of 1700000000000]) auto
  obtain fq where fq: "f64_of_int 3 = Some fq" by (rule f64_of_int_exact [of 3]) auto
  from h show "''schemas'' \<notin> set (touches u)"
    using raw_of(2) [OF parse_add_snapshot [OF fi ft fq]] raw_of(2) [OF parse_set_main [of 7]]
    by (auto simp: snapshot_commit_def in_int64_def min_int64_def max_int64_def)
qed simp

section \<open>Committing a snapshot\<close>

lemma rank_simps: "rank (AddSnapshot s) = 9" "rank (SetSnapshotRef x) = 10"
  by (simp_all add: rank_def processingOrder_def)

lemma Apply_snapshot_commit:
  assumes "f64_of_int i = Some fi" "f64_of_int t = Some ft" "f64_of_int q = Some fq" "in_int64 i"
    "rs = snapshot_commit i t q \<or> rs = rev (snapshot_commit i t q)"
  shows "Apply rs m = run_updates [AddSnapshot (Some (snapshot_obj fi ft fq)), SetSnapshotRef (main_ref i)] m"
  using assms(5) raw_of(2) [OF parse_add_snapshot [OF assms(1-3)]] raw_of(2) [OF parse_set_main [OF assms(4)]]
  by (auto simp: Apply_run snapshot_commit_def rank_simps)

lemma getInt_snapshot_obj:
  "getInt (snapshot_obj i t q) ''snapshot-id'' = Some (f64_to_int i)"
  "getInt (snapshot_obj i t q) ''timestamp-ms'' = Some (f64_to_int t)"
  "getInt (snapshot_obj i t q) ''sequence-number'' = Some (f64_to_int q)"
  by (simp_all add: snapshot_obj_def getInt_def)

lemma applyAddSnapshot_succeeds:
  assumes "getInt snap ''snapshot-id'' = Some i" "getInt snap ''timestamp-ms'' = Some t"
    "i \<notin> set (snap_ids m)"
  shows "\<exists>m'. applyAddSnapshot (Some snap) m = (None, m')"
proof -
  obtain xs m1 where e: "ensureSlice m ''snapshots'' = (xs, m1)" by (cases "ensureSlice m ''snapshots''")
  then have "xs = slice_of m ''snapshots''" by (auto elim: ensureSliceE)
  with assms e show ?thesis
    by (simp add: applyAddSnapshot_def getInt64_eq id_exists_iff snap_ids_def Let_def split: prod.splits)
qed

lemma applySetSnapshotRef_succeeds:
  assumes "i \<in> set (snap_ids m)"
  shows "\<exists>m'. applySetSnapshotRef (main_ref i) m = (None, m')"
  using assms
  by (simp add: applySetSnapshotRef_def main_ref_def refTypeBranch_def id_exists_iff snap_ids_def
      Let_def split: prod.splits)

text \<open>C19: a writer that commits a new snapshot whose id, timestamp and sequence number have at most
  53 bits succeeds, in whichever order it lists the two updates: the snapshot is appended with its id,
  the branch \<open>main\<close> and the current snapshot id move to it, and the last sequence number follows.\<close>

theorem snapshot_commit_ok:
  assumes "\<bar>i\<bar> \<le> 2 ^ 53" "\<bar>t\<bar> \<le> 2 ^ 53" "\<bar>q\<bar> \<le> 2 ^ 53" "i \<notin> set (snap_ids m)"
    "rs = snapshot_commit i t q \<or> rs = rev (snapshot_commit i t q)"
  shows "fst (Apply rs m) = ApplyOk \<and>
    (let m' = snd (Apply rs m)
     in snap_ids m' = snap_ids m @ [i] \<and> getInt m' ''current-snapshot-id'' = Some i \<and>
        mget (refs_of m') ''main'' = Some (GObj (ref_object (main_ref i))) \<and>
        the_int m' ''last-sequence-number'' = max (the_int m ''last-sequence-number'') q)"
proof -
  obtain fi ft fq where f: "f64_of_int i = Some fi" "f64_of_int t = Some ft" "f64_of_int q = Some fq"
      "f64_to_int fi = i" "f64_to_int ft = t" "f64_to_int fq = q"
    using assms(1-3) by (meson f64_of_int_exact)
  have r: "in_int64 i" using assms(1) by (simp add: in_int64_def min_int64_def max_int64_def abs_le_iff)
  let ?s = "snapshot_obj fi ft fq"
  have s: "getInt ?s ''snapshot-id'' = Some i" "getInt ?s ''timestamp-ms'' = Some t"
      "getInt ?s ''sequence-number'' = Some q" using f(4-6) by (simp_all add: getInt_snapshot_obj)
  obtain m1 where a: "applyAddSnapshot (Some ?s) m = (None, m1)"
    using applyAddSnapshot_succeeds [OF s(1,2) assms(4)] by blast
  then have m1: "snap_ids m1 = snap_ids m @ [i]"
      "the_int m1 ''last-sequence-number'' = max (the_int m ''last-sequence-number'') q"
    using s by (auto elim!: applyAddSnapshot_ok simp: snap_ids_def item_id_def)
  obtain m2 where b: "applySetSnapshotRef (main_ref i) m1 = (None, m2)"
    using applySetSnapshotRef_succeeds [of i m1] m1 by auto
  have run: "Apply rs m = (ApplyOk, m2)"
    using a b by (simp only: Apply_snapshot_commit [OF f(1-3) r assms(5)] run_updates.simps handle.simps
        prod.case option.case)
  have "mget m2 ''last-sequence-number'' = mget m1 ''last-sequence-number''"
    using applySetSnapshotRef_frame [OF b] by simp
  then have "the_int m2 ''last-sequence-number'' = max (the_int m ''last-sequence-number'') q"
    using m1(2) reads_cong(6) [of m2 _ m1] by simp
  moreover have "snap_ids m2 = snap_ids m @ [i]"
    using applySetSnapshotRef_ok(3) [OF b] m1(1) by simp
  moreover have "getInt m2 ''current-snapshot-id'' = Some i"
    using applySetSnapshotRef_ok(4) [OF b] by (simp add: main_ref_def)
  moreover have "mget (refs_of m2) ''main'' = Some (GObj (ref_object (main_ref i)))"
    using applySetSnapshotRef_ok(1) [OF b] by (simp add: main_ref_def)
  ultimately show ?thesis unfolding run by simp
qed

theorem snapshot_commit_ok_witness:
  "map (\<lambda>rs. fst (Apply rs [(''snapshots'', GArr [GObj [(''snapshot-id'', GInt64 5)]])]))
     [snapshot_commit 7 1700000000000 3, rev (snapshot_commit 7 1700000000000 3)] = [ApplyOk, ApplyOk]"
  using snapshot_commit_ok [of 7 1700000000000 3 "[(''snapshots'', GArr [GObj [(''snapshot-id'', GInt64 5)]])]"]
  by (simp add: snap_ids_def slice_of_def getSlice_def item_id_def getInt_def)

text \<open>The same request with the snapshot id \<open>2^53 + 1\<close> is refused on a table without snapshots: the
  id in the snapshot object is decoded as a \<open>float64\<close> and becomes \<open>2^53\<close>, the id of the reference is
  decoded as an \<open>int64\<close>, and the reference is to a snapshot that does not exist.  Iceberg clients pick
  random 63-bit snapshot ids.\<close>

theorem snapshot_commit_precision_loss:
  "fst (Apply (snapshot_commit 9007199254740993 1700000000000 1) []) =
     UpdateFailed (NewUpdateError ''set-snapshot-ref'' ''snapshot-id 9007199254740993 does not exist'')"
proof -
  obtain fi where fi: "f64_of_int 9007199254740992 = Some fi" "f64_to_int fi = 9007199254740992"
    by (rule f64_of_int_exact [of 9007199254740992]) auto
  obtain ft where ft: "f64_of_int 1700000000000 = Some ft"
    by (rule f64_of_int_exact [of 1700000000000]) auto
  obtain fq where fq: "f64_of_int 1 = Some fq"
    by (rule f64_of_int_exact [of 1]) auto
  have i: "f64_of_int 9007199254740993 = Some fi" using fi(1) f64_of_int_loss by simp
  have r: "in_int64 9007199254740993" by (simp add: in_int64_def min_int64_def max_int64_def)
  have s: "getInt (snapshot_obj fi ft fq) ''snapshot-id'' = Some 9007199254740992"
      "getInt (snapshot_obj fi ft fq) ''timestamp-ms'' = Some (f64_to_int ft)"
    using fi(2) by (simp_all add: getInt_snapshot_obj)
  obtain m1 where a: "applyAddSnapshot (Some (snapshot_obj fi ft fq)) [] = (None, m1)"
    using applyAddSnapshot_succeeds [OF s, of "[]"] by (auto simp: snap_ids_def slice_of_def getSlice_def)
  have msg: "show_int 9007199254740993 = ''9007199254740993''"
    by (simp add: show_int_def show_nat.simps)
  have n: "snap_ids [] = []" by (simp add: snap_ids_def slice_of_def getSlice_def)
  from a have "snap_ids m1 = snap_ids [] @ [9007199254740992]"
    using s by (auto elim!: applyAddSnapshot_ok simp: snap_ids_def item_id_def)
  then have "applySetSnapshotRef (main_ref 9007199254740993) m1 =
      (Some ''snapshot-id 9007199254740993 does not exist'', m1)"
    by (simp add: applySetSnapshotRef_def main_ref_def refTypeBranch_def id_exists_iff snap_ids_def [symmetric] n msg)
  with a show ?thesis by (simp add: Apply_snapshot_commit [OF i ft fq r disjI1 [OF refl]])
qed


section \<open>Failures\<close>

text \<open>The copy of the metadata a processor works on is equal to the original, which a failing
  \<open>Apply\<close> therefore leaves intact, whatever it has written to the copy: decoding what
  \<open>json.Marshal\<close> prints for metadata that came out of \<open>json.Unmarshal\<close> gives it back.\<close>

theorem NewProcessor_copy:
  assumes "decoded (GObj m)"
  shows "NewProcessor m = Some m"
  unfolding NewProcessor_def deepCopyMap_def decode_encode [OF assms] by simp

theorem NewProcessor_copy_witness:
  "NewProcessor [(''location'', GStr ''s3://b''), (''format-version'', GFloat (F64 2 0))] =
     Some [(''location'', GStr ''s3://b''), (''format-version'', GFloat (F64 2 0))]"
  by (rule NewProcessor_copy) (simp add: wf_gomap_def mkeys_def)

text \<open>The processor's own metadata does change when \<open>Apply\<close> fails: the updates before the failing
  one stay applied (the comment of \<open>Apply\<close> says the metadata remains unchanged on error).\<close>

theorem Apply_failure_is_partial:
  "\<exists>rs. fst (Apply rs sample_meta) = UpdateFailed (NewUpdateError ''set-location'' ''location is required'') \<and>
        mget (snd (Apply rs sample_meta)) ''format-version'' = Some (GInt 3) \<and>
        mget sample_meta ''format-version'' = Some (GInt 2)"
proof -
  let ?rs = "[\<lparr>ru_action = ''set-location'', ru_raw = JObj []\<rparr>,
              \<lparr>ru_action = ''upgrade-format-version'',
               ru_raw = JObj [(''format-version'', JNum (JInt 3))]\<rparr>]"
  have "Apply ?rs sample_meta = run_updates [UpgradeFormatVersion 3, SetLocation []] sample_meta"
    by (simp add: Apply_run parseUpdate_def decode_update_def members_def rank_def processingOrder_def
        in_int64_def min_int64_def max_int64_def)
  then show ?thesis
    by (intro exI [of _ ?rs])
      (simp add: applyUpgradeFormatVersion_def applySetLocation_def sample_meta_def the_int_def getInt_def)
qed

section \<open>New schemas\<close>

text \<open>A commit that adds a schema and sets the current schema to \<open>-1\<close>, in whichever order, makes the
  schema just added the current one.\<close>

theorem add_schema_and_select:
  assumes "parseUpdate a = Inr (AddSchema s l)" "parseUpdate b = Inr (SetCurrentSchema (- 1))"
    "Apply [b, a] m = (ApplyOk, m')"
  shows "\<exists>i. i \<notin> set (item_ids ''schema-id'' (slice_of m ''schemas'')) \<and>
    item_ids ''schema-id'' (slice_of m' ''schemas'') =
      item_ids ''schema-id'' (slice_of m ''schemas'') @ [i] \<and>
    getInt m' ''current-schema-id'' = Some i"
proof -
  have "Apply [b, a] m = run_updates [AddSchema s l, SetCurrentSchema (- 1)] m"
    using assms(1,2) by (simp add: Apply_run rank_def processingOrder_def)
  with assms(3) obtain m1 where h: "applyAddSchema s l m = (None, m1)"
      "applySetCurrentSchema (- 1) m1 = (None, m')"
    by (auto split: prod.splits option.splits)
  obtain item i item' where c: "s = Some item"
      "assign_id item (slice_of m ''schemas'') ''schema-id'' = (i, item')"
      "applySetCurrentSchema (- 1) m1 = (None, mput m1 ''current-schema-id'' (GInt i))"
    using schemas.add_then_set_last [OF h(1)] by blast
  with schemas.add_ok [OF h(1)] h(2) show ?thesis
    by (auto simp: item_id_assign_id)
qed


theorem add_schema_and_select_witness:
  "\<exists>i m'. i \<notin> set (item_ids ''schema-id'' (slice_of sample_meta ''schemas'')) \<and>
    item_ids ''schema-id'' (slice_of m' ''schemas'') =
      item_ids ''schema-id'' (slice_of sample_meta ''schemas'') @ [i] \<and>
    getInt m' ''current-schema-id'' = Some i"
proof -
  let ?a = "\<lparr>ru_action = ''add-schema'', ru_raw = JObj [(''schema'', JObj [])]\<rparr>"
  let ?b = "\<lparr>ru_action = ''set-current-schema'', ru_raw = JObj [(''schema-id'', JNum (JInt (- 1)))]\<rparr>"
  have a: "parseUpdate ?a = Inr (AddSchema (Some []) None)"
    by (simp add: parseUpdate_def decode_update_def members_def mput_all_def)
  have b: "parseUpdate ?b = Inr (SetCurrentSchema (- 1))"
    by (simp add: parseUpdate_def decode_update_def members_def in_int64_def min_int64_def max_int64_def)
  have "fst (Apply [?b, ?a] sample_meta) = ApplyOk"
  proof -
    have "Apply [?b, ?a] sample_meta = run_updates [AddSchema (Some []) None, SetCurrentSchema (- 1)] sample_meta"
      using a b by (simp add: Apply_run rank_def processingOrder_def)
    moreover have "fst (run_updates [AddSchema (Some []) None, SetCurrentSchema (- 1)] sample_meta) = ApplyOk"
      by code_simp
    ultimately show ?thesis by simp
  qed
  then obtain m' where "Apply [?b, ?a] sample_meta = (ApplyOk, m')" by (cases "Apply [?b, ?a] sample_meta") auto
  from add_schema_and_select [OF a b this] show ?thesis by blast
qed

end
