(* ===== verification/Database.thy ===== *)
theory Database
  imports GoJson
begin

text \<open>
  The PostgreSQL database as the catalog sees it (\<open>internal/db/migrations\<close>): its tables with their
  \<open>UNIQUE\<close> constraints, foreign keys and \<open>ON DELETE CASCADE\<close>, and one function per SQL statement of
  the namespace, table and view handlers (the statements on keys, tokens, scan plans and the audit log
  are in the theories of their handlers).  A statement is atomic and either returns or fails with a
  \<open>sql_error\<close> and no effect; a string with a NUL byte or a name too long for its index is such a
  failure.

  Rows of \<open>tables\<close> and \<open>views\<close> have the same columns but one (\<open>previous_metadata_location\<close>, which
  stays \<open>None\<close> for views), so both are lists of \<open>item_row\<close>, and the constraint checks are written
  once.  Ids the server generates are numbers from a counter, ids the catalog generates (of keys and
  scan plans) are numbers it chooses; a time is a number of microseconds.  The columns that no handler
  reads are left out.  \<open>db_ok\<close> is what the constraints guarantee.
\<close>

section \<open>Rows and errors\<close>

record ns_row =
  ns_id :: nat
  ns_name :: "string list"
  ns_props :: "(string, string) gomap"

record item_row =
  it_id :: nat
  it_ns :: nat
  it_name :: string
  it_loc :: string
  it_meta :: json
  it_prev :: "string option"

record perm_row =
  pm_ns :: nat
  pm_principal :: string
  pm_type :: string
  pm_perms :: "string list"

record plan_row =
  pl_id :: nat
  pl_table :: nat
  pl_data :: json
  pl_status :: string
  pl_expires :: int

record key_row =
  kr_id :: nat
  kr_hash :: string
  kr_name :: string
  kr_scopes :: "string list"
  kr_created :: int
  kr_expires :: "int option"
  kr_used :: "int option"
  kr_prev :: "string option"
  kr_rotated :: "int option"

record token_row =
  tk_hash :: string
  tk_client :: string
  tk_scopes :: "string list"
  tk_expires :: int

record lock_row =
  lk_key :: string
  lk_expires :: int

record audit_row =
  au_type :: string
  au_id :: string
  au_time :: int
  au_namespace :: "string option"
  au_table :: "string option"
  au_view :: "string option"
  au_actor :: string
  au_actor_type :: string
  au_ip :: "string option"
  au_agent :: "string option"
  au_request :: "string option"
  au_code :: "int option"
  au_metadata :: json

record db =
  d_next :: nat
  d_namespaces :: "ns_row list"
  d_tables :: "item_row list"
  d_views :: "item_row list"
  d_log :: "(nat \<times> string) list"
  d_perms :: "perm_row list"
  d_plans :: "plan_row list"
  d_keys :: "key_row list"
  d_tokens :: "token_row list"
  d_locks :: "lock_row list"
  d_audit :: "audit_row list"

text \<open>An error of a statement: the SQLSTATE, empty where the error is not the server's, and the text.\<close>

record sql_error =
  sqe_code :: string
  sqe_text :: string

definition unique_violation :: sql_error where
  "unique_violation = \<lparr>sqe_code = ''23505'', sqe_text = ''duplicate key value violates unique constraint''\<rparr>"

definition foreign_key_violation :: sql_error where
  "foreign_key_violation = \<lparr>sqe_code = ''23503'', sqe_text = ''violates foreign key constraint''\<rparr>"

definition empty_db :: db where
  "empty_db = \<lparr>d_next = 0, d_namespaces = [], d_tables = [], d_views = [], d_log = [], d_perms = [],
               d_plans = [], d_keys = [], d_tokens = [], d_locks = [], d_audit = []\<rparr>"

section \<open>Namespaces\<close>

text \<open>\<open>SELECT ... FROM namespaces WHERE name = $1\<close>\<close>

definition sql_namespace :: "string list \<Rightarrow> db \<Rightarrow> ns_row option" where
  "sql_namespace name d = List.find (\<lambda>r. ns_name r = name) (d_namespaces d)"

definition sql_ns_id :: "string list \<Rightarrow> db \<Rightarrow> nat option" where
  "sql_ns_id name d = map_option ns_id (sql_namespace name d)"

definition sql_ns_exists :: "string list \<Rightarrow> db \<Rightarrow> bool" where
  "sql_ns_exists name d = (sql_namespace name d \<noteq> None)"

definition has_ns_id :: "nat \<Rightarrow> db \<Rightarrow> bool" where
  "has_ns_id i d = list_ex (\<lambda>r. ns_id r = i) (d_namespaces d)"

definition sql_insert_ns :: "string list \<Rightarrow> (string, string) gomap \<Rightarrow> db \<Rightarrow> sql_error + db" where
  "sql_insert_ns name props d =
     (if sql_ns_exists name d then Inl unique_violation
      else Inr (d\<lparr>d_next := d_next d + 1,
                  d_namespaces := d_namespaces d @ [\<lparr>ns_id = d_next d, ns_name = name, ns_props = props\<rparr>]\<rparr>))"

text \<open>\<open>UPDATE namespaces SET properties = $1 WHERE name = $2\<close>\<close>

definition sql_update_ns_props :: "(string, string) gomap \<Rightarrow> string list \<Rightarrow> db \<Rightarrow> db" where
  "sql_update_ns_props props name d =
     d\<lparr>d_namespaces := map (\<lambda>r. if ns_name r = name then r\<lparr>ns_props := props\<rparr> else r) (d_namespaces d)\<rparr>"

text \<open>Deleting rows of \<open>tables\<close> takes their rows of \<open>commit_log\<close> and \<open>scan_plans\<close> along.\<close>

definition drop_tables :: "(item_row \<Rightarrow> bool) \<Rightarrow> db \<Rightarrow> db" where
  "drop_tables p d =
     (let gone = map it_id (filter p (d_tables d))
      in d\<lparr>d_tables := filter (\<lambda>r. \<not> p r) (d_tables d),
           d_log := filter (\<lambda>(t, l). t \<notin> set gone) (d_log d),
           d_plans := filter (\<lambda>r. pl_table r \<notin> set gone) (d_plans d)\<rparr>)"

definition drop_views :: "(item_row \<Rightarrow> bool) \<Rightarrow> db \<Rightarrow> db" where
  "drop_views p d = d\<lparr>d_views := filter (\<lambda>r. \<not> p r) (d_views d)\<rparr>"

text \<open>\<open>SELECT COUNT(*)\<close> over the tables and views of a namespace; \<open>DELETE FROM namespaces WHERE id = $1\<close>.\<close>

definition sql_count_items :: "nat \<Rightarrow> db \<Rightarrow> nat" where
  "sql_count_items i d =
     length (filter (\<lambda>r. it_ns r = i) (d_tables d)) + length (filter (\<lambda>r. it_ns r = i) (d_views d))"

definition sql_delete_ns :: "nat \<Rightarrow> db \<Rightarrow> db" where
  "sql_delete_ns i d =
     (let d1 = drop_views (\<lambda>r. it_ns r = i) (drop_tables (\<lambda>r. it_ns r = i) d)
      in d1\<lparr>d_namespaces := filter (\<lambda>r. ns_id r \<noteq> i) (d_namespaces d1),
            d_perms := filter (\<lambda>r. pm_ns r \<noteq> i) (d_perms d1)\<rparr>)"

section \<open>Tables and views\<close>

text \<open>
  The row with a name in a namespace, found through the join on the name of the namespace, and the
  rows of a namespace.
\<close>

definition in_ns :: "string list \<Rightarrow> db \<Rightarrow> item_row \<Rightarrow> bool" where
  "in_ns name d r = list_ex (\<lambda>n. ns_id n = it_ns r \<and> ns_name n = name) (d_namespaces d)"

definition find_item :: "string list \<Rightarrow> string \<Rightarrow> item_row list \<Rightarrow> db \<Rightarrow> item_row option" where
  "find_item ns name xs d = List.find (\<lambda>r. in_ns ns d r \<and> it_name r = name) xs"

definition sql_table :: "string list \<Rightarrow> string \<Rightarrow> db \<Rightarrow> item_row option" where
  "sql_table ns name d = find_item ns name (d_tables d) d"

definition sql_view :: "string list \<Rightarrow> string \<Rightarrow> db \<Rightarrow> item_row option" where
  "sql_view ns name d = find_item ns name (d_views d) d"

text \<open>\<open>INSERT INTO tables\<close>, \<open>INSERT INTO views\<close>: the unique index on namespace and name is checked
  before the foreign key on the namespace.\<close>

definition new_item :: "nat \<Rightarrow> nat \<Rightarrow> string \<Rightarrow> string \<Rightarrow> json \<Rightarrow> item_row" where
  "new_item i ns name loc meta =
     \<lparr>it_id = i, it_ns = ns, it_name = name, it_loc = loc, it_meta = meta, it_prev = None\<rparr>"

definition key_taken :: "nat \<Rightarrow> string \<Rightarrow> item_row list \<Rightarrow> bool" where
  "key_taken ns name xs = list_ex (\<lambda>r. it_ns r = ns \<and> it_name r = name) xs"

definition sql_insert_table :: "nat \<Rightarrow> string \<Rightarrow> string \<Rightarrow> json \<Rightarrow> db \<Rightarrow> sql_error + db" where
  "sql_insert_table ns name loc meta d =
     (if key_taken ns name (d_tables d) then Inl unique_violation
      else if \<not> has_ns_id ns d then Inl foreign_key_violation
      else Inr (d\<lparr>d_next := d_next d + 1,
                  d_tables := d_tables d @ [new_item (d_next d) ns name loc meta]\<rparr>))"

definition sql_insert_view :: "nat \<Rightarrow> string \<Rightarrow> string \<Rightarrow> json \<Rightarrow> db \<Rightarrow> sql_error + db" where
  "sql_insert_view ns name loc meta d =
     (if key_taken ns name (d_views d) then Inl unique_violation
      else if \<not> has_ns_id ns d then Inl foreign_key_violation
      else Inr (d\<lparr>d_next := d_next d + 1,
                  d_views := d_views d @ [new_item (d_next d) ns name loc meta]\<rparr>))"

text \<open>
  \<open>UPDATE tables SET namespace_id = $1, name = $2 WHERE namespace_id = $3 AND name = $4\<close>: the rows
  affected, and the constraints on the row as it would become.
\<close>

definition moved :: "nat \<Rightarrow> string \<Rightarrow> nat \<Rightarrow> string \<Rightarrow> item_row list \<Rightarrow> item_row list" where
  "moved ns' name' ns name xs =
     map (\<lambda>r. if it_ns r = ns \<and> it_name r = name then r\<lparr>it_ns := ns', it_name := name'\<rparr> else r) xs"

definition sql_rename ::
    "nat \<Rightarrow> string \<Rightarrow> nat \<Rightarrow> string \<Rightarrow> item_row list \<Rightarrow> db \<Rightarrow> sql_error + nat \<times> item_row list" where
  "sql_rename ns' name' ns name xs d =
     (if \<not> key_taken ns name xs then Inr (0, xs)
      else if (ns', name') \<noteq> (ns, name) \<and> key_taken ns' name' xs then Inl unique_violation
      else if ns' \<noteq> ns \<and> \<not> has_ns_id ns' d then Inl foreign_key_violation
      else Inr (1, moved ns' name' ns name xs))"

text \<open>\<open>DELETE FROM tables t USING namespaces n\<close>: the number of rows deleted, and the database.\<close>

definition sql_delete_table :: "string list \<Rightarrow> string \<Rightarrow> db \<Rightarrow> nat \<times> db" where
  "sql_delete_table ns name d =
     (let p = (\<lambda>r. in_ns ns d r \<and> it_name r = name)
      in (length (filter p (d_tables d)), drop_tables p d))"

definition sql_delete_view :: "string list \<Rightarrow> string \<Rightarrow> db \<Rightarrow> nat \<times> db" where
  "sql_delete_view ns name d =
     (let p = (\<lambda>r. in_ns ns d r \<and> it_name r = name)
      in (length (filter p (d_views d)), drop_views p d))"

text \<open>The \<open>UPDATE\<close>s of a commit, by the id of the row, and the insertion into \<open>commit_log\<close>.\<close>

definition sql_update_table :: "nat \<Rightarrow> string \<Rightarrow> json \<Rightarrow> string \<Rightarrow> db \<Rightarrow> db" where
  "sql_update_table i loc meta prev d =
     d\<lparr>d_tables := map (\<lambda>r. if it_id r = i
                           then r\<lparr>it_loc := loc, it_meta := meta, it_prev := Some prev\<rparr> else r) (d_tables d)\<rparr>"

definition sql_update_view :: "nat \<Rightarrow> string \<Rightarrow> json \<Rightarrow> db \<Rightarrow> db" where
  "sql_update_view i loc meta d =
     d\<lparr>d_views := map (\<lambda>r. if it_id r = i then r\<lparr>it_loc := loc, it_meta := meta\<rparr> else r) (d_views d)\<rparr>"

definition sql_log_commit :: "nat \<Rightarrow> string \<Rightarrow> db \<Rightarrow> db" where
  "sql_log_commit i loc d = d\<lparr>d_log := d_log d @ [(i, loc)]\<rparr>"

section \<open>What the constraints guarantee\<close>

definition item_key_of :: "item_row \<Rightarrow> nat \<times> string" where
  "item_key_of r = (it_ns r, it_name r)"

definition items_ok :: "nat \<Rightarrow> nat list \<Rightarrow> item_row list \<Rightarrow> bool" where
  "items_ok nxt nss xs \<longleftrightarrow>
     distinct (map it_id xs) \<and> distinct (map item_key_of xs) \<and>
     list_all (\<lambda>r. it_ns r \<in> set nss \<and> it_id r < nxt) xs"

definition db_ok :: "db \<Rightarrow> bool" where
  "db_ok d \<longleftrightarrow>
     distinct (map ns_id (d_namespaces d)) \<and> distinct (map ns_name (d_namespaces d)) \<and>
     list_all (\<lambda>r. ns_id r < d_next d) (d_namespaces d) \<and>
     items_ok (d_next d) (map ns_id (d_namespaces d)) (d_tables d) \<and>
     items_ok (d_next d) (map ns_id (d_namespaces d)) (d_views d) \<and>
     list_all (\<lambda>(t, l). t \<in> set (map it_id (d_tables d))) (d_log d) \<and>
     list_all (\<lambda>r. pm_ns r \<in> set (map ns_id (d_namespaces d))) (d_perms d) \<and>
     list_all (\<lambda>r. pl_table r \<in> set (map it_id (d_tables d))) (d_plans d) \<and>
     distinct (map pl_id (d_plans d)) \<and> distinct (map kr_id (d_keys d)) \<and>
     distinct (map kr_hash (d_keys d)) \<and> distinct (map tk_hash (d_tokens d))"

lemma has_ns_id_iff: "has_ns_id i d \<longleftrightarrow> i \<in> set (map ns_id (d_namespaces d))"
  by (auto simp: has_ns_id_def list_ex_iff)

lemma key_taken_iff: "key_taken ns name xs \<longleftrightarrow> (ns, name) \<in> set (map item_key_of xs)"
  by (auto simp: key_taken_def list_ex_iff item_key_of_def)

lemma sql_namespace_None: "sql_namespace name d = None \<longleftrightarrow> name \<notin> set (map ns_name (d_namespaces d))"
  by (auto simp: sql_namespace_def find_None_iff)

lemma items_ok_mono: "items_ok n nss xs \<Longrightarrow> n \<le> n' \<Longrightarrow> set nss \<subseteq> set nss' \<Longrightarrow> items_ok n' nss' xs"
  by (fastforce simp: items_ok_def list_all_iff)

lemma items_ok_filter: "items_ok n nss xs \<Longrightarrow> items_ok n nss (filter p xs)"
  by (auto simp: items_ok_def list_all_iff distinct_map_filter)

lemma items_ok_insert:
  assumes "items_ok n nss xs" "\<not> key_taken ns name xs" "ns \<in> set nss"
  shows "items_ok (n + 1) nss (xs @ [new_item n ns name loc meta])"
  using assms unfolding items_ok_def key_taken_iff
  by (auto simp: list_all_iff new_item_def item_key_of_def)

lemma items_ok_map:
  assumes "items_ok n nss xs" "\<And>r. r \<in> set xs \<Longrightarrow> it_id (h r) = it_id r \<and> item_key_of (h r) = item_key_of r"
  shows "items_ok n nss (map h xs)"
proof -
  have "map it_id (map h xs) = map it_id xs" "map item_key_of (map h xs) = map item_key_of xs"
    using assms(2) by auto
  moreover have "list_all (\<lambda>r. it_ns r \<in> set nss \<and> it_id r < n) (map h xs)"
    using assms by (fastforce simp: items_ok_def list_all_iff item_key_of_def)
  ultimately show ?thesis using assms(1) by (simp add: items_ok_def del: map_map)
qed

lemma items_ok_moved:
  assumes "items_ok n nss xs" "sql_rename ns' name' ns name xs d = Inr (k, ys)"
    "map ns_id (d_namespaces d) = nss"
  shows "items_ok n nss ys \<and> map it_id ys = map it_id xs"
proof (cases "key_taken ns name xs")
  case False
  with assms show ?thesis by (simp add: sql_rename_def)
next
  case True
  with assms(2) have ys: "ys = moved ns' name' ns name xs"
      and free: "(ns', name') = (ns, name) \<or> \<not> key_taken ns' name' xs"
      and fk: "ns' = ns \<or> has_ns_id ns' d"
    by (auto simp: sql_rename_def split: if_splits)
  have ids: "map it_id ys = map it_id xs" by (auto simp: ys moved_def)
  have keys: "map item_key_of ys = map (\<lambda>k. if k = (ns, name) then (ns', name') else k) (map item_key_of xs)"
    by (auto simp: ys moved_def item_key_of_def)
  have "inj_on (\<lambda>k. if k = (ns, name) then (ns', name') else k) (set (map item_key_of xs))"
    using free unfolding key_taken_iff by (intro inj_onI) (auto split: if_splits)
  then have "distinct (map item_key_of ys)"
    using assms(1) unfolding keys items_ok_def by (blast intro: distinct_map [THEN iffD2])
  moreover have "ns \<in> set nss" using True assms(1)
    by (auto simp: key_taken_iff items_ok_def list_all_iff item_key_of_def)
  then have "list_all (\<lambda>r. it_ns r \<in> set nss \<and> it_id r < n) ys"
    using assms(1,3) fk by (auto simp: ys moved_def items_ok_def list_all_iff has_ns_id_iff)
  ultimately show ?thesis using assms(1) ids by (simp add: items_ok_def)
qed

text \<open>Each statement keeps the constraints.\<close>

lemma db_ok_empty: "db_ok empty_db"
  by (simp add: db_ok_def empty_db_def items_ok_def)

lemma db_ok_insert_ns:
  assumes "db_ok d" "sql_insert_ns name props d = Inr d'"
  shows "db_ok d'"
proof -
  have n: "name \<notin> set (map ns_name (d_namespaces d))"
      and d': "d' = d\<lparr>d_next := d_next d + 1, d_namespaces := d_namespaces d @
        [\<lparr>ns_id = d_next d, ns_name = name, ns_props = props\<rparr>]\<rparr>"
    using assms(2) unfolding sql_namespace_None [symmetric]
    by (auto simp: sql_insert_ns_def sql_ns_exists_def split: if_splits)
  let ?n = "map ns_id (d_namespaces d)"
  have i: "items_ok (Suc (d_next d)) (?n @ [d_next d]) xs" if "items_ok (d_next d) ?n xs" for xs
    using that by (rule items_ok_mono) auto
  from assms(1) n show ?thesis unfolding d' db_ok_def
    by (auto simp: i list_all_iff)
qed

lemma map_ns_update:
  "map ns_id (d_namespaces (sql_update_ns_props props name d)) = map ns_id (d_namespaces d)"
  "map ns_name (d_namespaces (sql_update_ns_props props name d)) = map ns_name (d_namespaces d)"
  by (auto simp: sql_update_ns_props_def)

lemma sql_update_ns_props_rest [simp]:
  "d_next (sql_update_ns_props props name d) = d_next d"
  "d_tables (sql_update_ns_props props name d) = d_tables d"
  "d_views (sql_update_ns_props props name d) = d_views d"
  "d_log (sql_update_ns_props props name d) = d_log d"
  "d_perms (sql_update_ns_props props name d) = d_perms d"
  "d_plans (sql_update_ns_props props name d) = d_plans d"
  "d_keys (sql_update_ns_props props name d) = d_keys d"
  "d_tokens (sql_update_ns_props props name d) = d_tokens d"
  by (simp_all add: sql_update_ns_props_def)

lemma db_ok_update_ns_props: "db_ok d \<Longrightarrow> db_ok (sql_update_ns_props props name d)"
proof -
  assume "db_ok d"
  moreover have "list_all (\<lambda>r. ns_id r < d_next d) (d_namespaces (sql_update_ns_props props name d))"
    using \<open>db_ok d\<close> by (auto simp: db_ok_def list_all_iff sql_update_ns_props_def)
  ultimately show ?thesis by (simp add: db_ok_def map_ns_update)
qed

lemma db_ok_drop_tables: "db_ok d \<Longrightarrow> db_ok (drop_tables p d)"
  by (fastforce simp: db_ok_def drop_tables_def Let_def items_ok_filter list_all_iff distinct_map_filter)

lemma db_ok_drop_views: "db_ok d \<Longrightarrow> db_ok (drop_views p d)"
  by (simp add: db_ok_def drop_views_def items_ok_filter)

lemma db_ok_delete_ns: "db_ok d \<Longrightarrow> db_ok (sql_delete_ns i d)"
proof -
  assume ok: "db_ok d"
  define d1 where "d1 = drop_views (\<lambda>r. it_ns r = i) (drop_tables (\<lambda>r. it_ns r = i) d)"
  have d1: "db_ok d1" unfolding d1_def using ok by (intro db_ok_drop_views db_ok_drop_tables)
  have gone: "\<forall>r \<in> set (d_tables d1) \<union> set (d_views d1). it_ns r \<noteq> i"
    by (auto simp: d1_def drop_views_def drop_tables_def Let_def)
  let ?n = "map ns_id (filter (\<lambda>r. ns_id r \<noteq> i) (d_namespaces d1))"
  have i: "items_ok (d_next d1) ?n xs"
    if "items_ok (d_next d1) (map ns_id (d_namespaces d1)) xs" "\<forall>r \<in> set xs. it_ns r \<noteq> i" for xs
    using that by (auto simp: items_ok_def list_all_iff)
  from d1 gone show ?thesis
    by (auto simp: sql_delete_ns_def Let_def d1_def [symmetric] db_ok_def i distinct_map_filter list_all_iff)
qed

lemma db_ok_insert_table:
  assumes "db_ok d" "sql_insert_table ns name loc meta d = Inr d'"
  shows "db_ok d'"
proof -
  let ?n = "map ns_id (d_namespaces d)"
  have h: "\<not> key_taken ns name (d_tables d)" "ns \<in> set ?n"
      and d': "d' = d\<lparr>d_next := d_next d + 1, d_tables := d_tables d @ [new_item (d_next d) ns name loc meta]\<rparr>"
    using assms(2) unfolding has_ns_id_iff [symmetric] by (auto simp: sql_insert_table_def split: if_splits)
  have "items_ok (d_next d + 1) ?n (d_tables d @ [new_item (d_next d) ns name loc meta])"
    using assms(1) h by (intro items_ok_insert) (auto simp: db_ok_def)
  moreover have "items_ok (d_next d + 1) ?n (d_views d)"
    by (rule items_ok_mono [of "d_next d" ?n]) (use assms(1) in \<open>auto simp: db_ok_def\<close>)
  moreover have "list_all (\<lambda>r. ns_id r < d_next d + 1) (d_namespaces d)"
    using assms(1) by (auto simp: db_ok_def list_all_iff)
  moreover have "list_all (\<lambda>(t, l). t = i \<or> t \<in> it_id ` set (d_tables d)) (d_log d)"
      "list_all (\<lambda>r. pl_table r = i \<or> pl_table r \<in> it_id ` set (d_tables d)) (d_plans d)" for i
    using assms(1) by (auto simp: db_ok_def elim!: list.pred_mono_strong)
  ultimately show ?thesis using assms(1) unfolding d' db_ok_def
    by (simp add: new_item_def)
qed

lemma db_ok_insert_view:
  assumes "db_ok d" "sql_insert_view ns name loc meta d = Inr d'"
  shows "db_ok d'"
proof -
  let ?n = "map ns_id (d_namespaces d)"
  have h: "\<not> key_taken ns name (d_views d)" "ns \<in> set ?n"
      and d': "d' = d\<lparr>d_next := d_next d + 1, d_views := d_views d @ [new_item (d_next d) ns name loc meta]\<rparr>"
    using assms(2) unfolding has_ns_id_iff [symmetric] by (auto simp: sql_insert_view_def split: if_splits)
  have "items_ok (d_next d + 1) ?n (d_views d @ [new_item (d_next d) ns name loc meta])"
    using assms(1) h by (intro items_ok_insert) (auto simp: db_ok_def)
  moreover have "items_ok (d_next d + 1) ?n (d_tables d)"
    by (rule items_ok_mono [of "d_next d" ?n]) (use assms(1) in \<open>auto simp: db_ok_def\<close>)
  moreover have "list_all (\<lambda>r. ns_id r < d_next d + 1) (d_namespaces d)"
    using assms(1) by (auto simp: db_ok_def list_all_iff)
  moreover have "list_all (\<lambda>(t, l). t = i \<or> t \<in> it_id ` set (d_tables d)) (d_log d)"
      "list_all (\<lambda>r. pl_table r = i \<or> pl_table r \<in> it_id ` set (d_tables d)) (d_plans d)" for i
    using assms(1) by (auto simp: db_ok_def elim!: list.pred_mono_strong)
  ultimately show ?thesis using assms(1) unfolding d' db_ok_def
    by (simp add: new_item_def)
qed

lemma db_ok_rename_table:
  assumes "db_ok d" "sql_rename ns' name' ns name (d_tables d) d = Inr (k, ys)"
  shows "db_ok (d\<lparr>d_tables := ys\<rparr>)"
proof -
  have "items_ok (d_next d) (map ns_id (d_namespaces d)) ys \<and> map it_id ys = map it_id (d_tables d)"
    using assms by (intro items_ok_moved) (auto simp: db_ok_def)
  with assms(1) show ?thesis by (simp add: db_ok_def del: set_map) 
qed

lemma db_ok_rename_view:
  assumes "db_ok d" "sql_rename ns' name' ns name (d_views d) d = Inr (k, ys)"
  shows "db_ok (d\<lparr>d_views := ys\<rparr>)"
proof -
  have "items_ok (d_next d) (map ns_id (d_namespaces d)) ys"
    using assms by (auto simp: db_ok_def dest: items_ok_moved [OF _ assms(2) refl])
  with assms(1) show ?thesis by (simp add: db_ok_def)
qed

lemma map_id_update_table: "map it_id (d_tables (sql_update_table i loc meta prev d)) = map it_id (d_tables d)"
  by (auto simp: sql_update_table_def)

lemma db_ok_update_table: "db_ok d \<Longrightarrow> db_ok (sql_update_table i loc meta prev d)"
proof -
  assume ok: "db_ok d"
  then have "items_ok (d_next d) (map ns_id (d_namespaces d)) (d_tables (sql_update_table i loc meta prev d))"
    unfolding sql_update_table_def
    by (simp add: db_ok_def) (rule items_ok_map, simp_all add: item_key_of_def)
  moreover have "d_next (sql_update_table i loc meta prev d) = d_next d"
    "d_namespaces (sql_update_table i loc meta prev d) = d_namespaces d"
    "d_views (sql_update_table i loc meta prev d) = d_views d"
    "d_log (sql_update_table i loc meta prev d) = d_log d"
    "d_perms (sql_update_table i loc meta prev d) = d_perms d"
    "d_plans (sql_update_table i loc meta prev d) = d_plans d"
    "d_keys (sql_update_table i loc meta prev d) = d_keys d"
    "d_tokens (sql_update_table i loc meta prev d) = d_tokens d"
    by (simp_all add: sql_update_table_def)
  ultimately show ?thesis using ok by (simp add: db_ok_def map_id_update_table del: set_map)
qed

lemma db_ok_update_view: "db_ok d \<Longrightarrow> db_ok (sql_update_view i loc meta d)"
proof -
  assume ok: "db_ok d"
  then have "items_ok (d_next d) (map ns_id (d_namespaces d)) (d_views (sql_update_view i loc meta d))"
    unfolding sql_update_view_def
    by (simp add: db_ok_def) (rule items_ok_map, simp_all add: item_key_of_def)
  with ok show ?thesis by (simp add: db_ok_def sql_update_view_def)
qed

lemma db_ok_log_commit: "db_ok d \<Longrightarrow> i \<in> set (map it_id (d_tables d)) \<Longrightarrow> db_ok (sql_log_commit i loc d)"
  by (simp add: db_ok_def sql_log_commit_def)

lemma db_ok_delete_table: "db_ok d \<Longrightarrow> sql_delete_table ns name d = (k, d') \<Longrightarrow> db_ok d'"
  by (auto simp: sql_delete_table_def Let_def intro: db_ok_drop_tables)

lemma db_ok_delete_view: "db_ok d \<Longrightarrow> sql_delete_view ns name d = (k, d') \<Longrightarrow> db_ok d'"
  by (auto simp: sql_delete_view_def Let_def intro: db_ok_drop_views)

end
