(* ===== verification/Http.thy ===== *)
theory Http
  imports Database
begin

text \<open>
  Requests and responses of the catalog's handlers: \<open>internal/api/handlers/errors.go\<close>, the error
  helpers of \<open>namespace.go\<close>, \<open>table.go\<close> and \<open>view.go\<close>, \<open>parseNamespace\<close>, and \<open>errorHandler\<close> of
  \<open>internal/api/server.go\<close>.

  A handler is a \<open>prog\<close>: a tree of SQL statements.  \<open>Stmt f g\<close> runs one statement: \<open>f\<close> takes the
  database and gives the rest of the handler and the database after the statement, \<open>g\<close> is the rest
  of the handler when the statement fails with an error of the server or of the connection, with no
  effect.  Between two statements of one handler the statements of others may run: \<open>cstep\<close> is the
  step of one of the handlers in flight.  \<open>run\<close> is the run of a handler alone without failures.
\<close>

section \<open>Responses\<close>

text \<open>A status and a JSON body, or a panic.  A struct or \<open>fiber.Map\<close> of the response is a \<open>gval\<close>.\<close>

datatype response = Resp int "gval option" | Crash string

text \<open>What a handler does beside the database: metrics it counts, events it publishes.\<close>

datatype effect = Metric string "string list" | Event string string

type_synonym outcome = "response \<times> effect list"

definition error_body :: "string \<Rightarrow> string \<Rightarrow> int \<Rightarrow> gval" where
  "error_body message ty code =
     GObj [(''error'', GObj [(''message'', GStr message), (''type'', GStr ty), (''code'', GInt code)])]"

definition dotted :: "string list \<Rightarrow> string" where
  "dotted ns = join_with ''.'' ns"

definition namespaceNotFound :: "string list \<Rightarrow> response" where
  "namespaceNotFound namespace =
     Resp 404 (Some (error_body (''Namespace does not exist: '' @ dotted namespace)
       ''NoSuchNamespaceException'' 404))"

definition tableNotFound :: "string list \<Rightarrow> string \<Rightarrow> response" where
  "tableNotFound namespace tbl =
     Resp 404 (Some (error_body (''Table does not exist: '' @ dotted namespace @ ''.'' @ tbl)
       ''NoSuchTableException'' 404))"

definition viewNotFound :: "string list \<Rightarrow> string \<Rightarrow> response" where
  "viewNotFound namespace view =
     Resp 404 (Some (error_body (''View does not exist: '' @ dotted namespace @ ''.'' @ view)
       ''NoSuchViewException'' 404))"

definition badRequest :: "string \<Rightarrow> response" where
  "badRequest message = Resp 400 (Some (error_body message ''BadRequestException'' 400))"

definition internalError :: "string \<Rightarrow> string \<Rightarrow> response" where
  "internalError message err = Resp 500 (Some (error_body (message @ '': '' @ err) ''ServerError'' 500))"

definition alreadyExistsError :: "string \<Rightarrow> string \<Rightarrow> response" where
  "alreadyExistsError entityType name =
     Resp 409 (Some (error_body (entityType @ '' already exists: '' @ name) ''AlreadyExistsException'' 409))"

text \<open>\<open>errorHandler\<close>, for a handler that returns a \<open>*fiber.Error\<close>.\<close>

definition errorHandler :: "int \<Rightarrow> string \<Rightarrow> response" where
  "errorHandler code message = Resp code (Some (error_body message ''ServerError'' code))"

definition PgErrUniqueViolation :: string where
  "PgErrUniqueViolation = ''23505''"

definition IsDuplicateError :: "sql_error \<Rightarrow> bool" where
  "IsDuplicateError err = (sqe_code err = PgErrUniqueViolation)"

definition getStringFromMap :: "gobj \<Rightarrow> string \<Rightarrow> string option" where
  "getStringFromMap m key = (case mget m key of Some (GStr s) \<Rightarrow> Some s | _ \<Rightarrow> None)"

definition validatePageSize :: "int \<Rightarrow> int" where
  "validatePageSize pageSize =
     (if pageSize < 1 then 1 else if pageSize > 1000 then 1000 else pageSize)"

definition status_of :: "response \<Rightarrow> int option" where
  "status_of r = (case r of Resp c _ \<Rightarrow> Some c | Crash _ \<Rightarrow> None)"

section \<open>Names in paths\<close>

definition hex_val :: "char \<Rightarrow> nat option" where
  "hex_val c =
     (let n = of_char c in
      if 48 \<le> n \<and> n \<le> 57 then Some (n - 48)
      else if 97 \<le> n \<and> n \<le> 102 then Some (n - 87)
      else if 65 \<le> n \<and> n \<le> 70 then Some (n - 55) else None)"

text \<open>\<open>url.PathUnescape\<close>; \<open>None\<close> is its error.\<close>

fun unescape :: "string \<Rightarrow> string option" where
  "unescape [] = Some []"
| "unescape (c # cs) =
     (if c = CHR ''%''
      then (case cs of
              a # b # ds \<Rightarrow>
                (case (hex_val a, hex_val b) of
                   (Some x, Some y) \<Rightarrow> map_option (Cons (char_of (16 * x + y))) (unescape ds)
                 | _ \<Rightarrow> None)
            | _ \<Rightarrow> None)
      else map_option (Cons c) (unescape cs))"

definition parseNamespace :: "string \<Rightarrow> string list" where
  "parseNamespace encoded =
     (let decoded = (case unescape encoded of Some s \<Rightarrow> s | None \<Rightarrow> encoded)
      in if CHR 0x1F \<in> set decoded then split_on (CHR 0x1F) decoded
         else split_on (CHR ''.'') decoded)"

section \<open>Programs\<close>

datatype 'r prog =
    Done 'r
  | Stmt "db \<Rightarrow> 'r prog \<times> db" "sql_error \<Rightarrow> 'r prog"

text \<open>A handler that ends with a response and no effects.\<close>

abbreviation reply :: "response \<Rightarrow> outcome prog" where
  "reply r \<equiv> Done (r, [])"

text \<open>A statement that only reads, and one that writes and may violate a constraint.\<close>

definition query :: "(db \<Rightarrow> 'a) \<Rightarrow> (sql_error \<Rightarrow> 'r prog) \<Rightarrow> ('a \<Rightarrow> 'r prog) \<Rightarrow> 'r prog" where
  "query q failed k = Stmt (\<lambda>d. (k (q d), d)) failed"

definition exec :: "(db \<Rightarrow> sql_error + 'a \<times> db) \<Rightarrow> (sql_error \<Rightarrow> 'r prog) \<Rightarrow> ('a \<Rightarrow> 'r prog) \<Rightarrow> 'r prog" where
  "exec s failed k =
     Stmt (\<lambda>d. case s d of Inl e \<Rightarrow> (failed e, d) | Inr (x, d') \<Rightarrow> (k x, d')) failed"

primrec run :: "'r prog \<Rightarrow> db \<Rightarrow> 'r \<times> db" where
  "run (Done r) = (\<lambda>d. (r, d))"
| "run (Stmt f g) = (\<lambda>d. (\<lambda>(p, d'). p d') (map_prod run id (f d)))"

lemma run_simps [simp]:
  "run (Done r) d = (r, d)"
  "run (Stmt f g) d = run (fst (f d)) (snd (f d))"
  by (simp_all add: map_prod_def split_beta)

declare run.simps [simp del]

lemma run_query [simp]: "run (query q failed k) d = run (k (q d)) d"
  by (simp add: query_def)

lemma run_exec [simp]:
  "run (exec s failed k) d =
     (case s d of Inl e \<Rightarrow> run (failed e) d | Inr (x, d') \<Rightarrow> run (k x) d')"
  by (simp add: exec_def split: sum.splits prod.splits)

lemma map_sum_Pair_Inr [simp]: "map_sum id (Pair u) x = Inr (u', d') \<longleftrightarrow> u' = u \<and> x = Inr d'"
  by (cases x) auto

section \<open>Handlers in flight\<close>

text \<open>One handler takes a step: its next statement runs, or fails with some error.\<close>

inductive pstep :: "'r prog \<times> db \<Rightarrow> 'r prog \<times> db \<Rightarrow> bool" where
  ok: "f d = (p, d') \<Longrightarrow> pstep (Stmt f g, d) (p, d')"
| failed: "pstep (Stmt f g, d) (g e, d)"

inductive_cases pstep_DoneE: "pstep (Done r, d) s"
inductive_cases pstep_StmtE: "pstep (Stmt f g, d) s"

inductive cstep :: "'r prog list \<times> db \<Rightarrow> 'r prog list \<times> db \<Rightarrow> bool" where
  "i < length ps \<Longrightarrow> pstep (ps ! i, d) (p', d') \<Longrightarrow> cstep (ps, d) (ps[i := p'], d')"

inductive creach :: "'r prog list \<times> db \<Rightarrow> 'r prog list \<times> db \<Rightarrow> bool" where
  start: "creach s s"
| more: "creach s s' \<Longrightarrow> cstep s' s'' \<Longrightarrow> creach s s''"

text \<open>
  The run of a handler alone, with the fate of its statements given in advance: \<open>None\<close> for a
  statement that runs, \<open>Some e\<close> for one that fails with \<open>e\<close>.
\<close>

fun play :: "sql_error option list \<Rightarrow> 'r prog \<Rightarrow> db \<Rightarrow> 'r prog \<times> db" where
  "play [] p d = (p, d)"
| "play (a # as) (Done r) d = (Done r, d)"
| "play (a # as) (Stmt f g) d =
     (case a of
        None \<Rightarrow> (case f d of (p, d') \<Rightarrow> play as p d')
      | Some e \<Rightarrow> play as (g e) d)"

text \<open>
  A program is safe for an invariant \<open>I\<close> of the database and results \<open>Q\<close> if each of its statements keeps
  \<open>I\<close> and whatever it ends with satisfies \<open>Q\<close>.
\<close>

inductive safe :: "(db \<Rightarrow> bool) \<Rightarrow> ('r \<Rightarrow> bool) \<Rightarrow> 'r prog \<Rightarrow> bool" for I Q where
  safe_Done: "Q r \<Longrightarrow> safe I Q (Done r)"
| safe_Stmt: "(\<And>d. I d \<Longrightarrow> I (snd (f d)) \<and> safe I Q (fst (f d))) \<Longrightarrow> (\<And>e. safe I Q (g e)) \<Longrightarrow>
    safe I Q (Stmt f g)"

inductive_cases safe_StmtE: "safe I Q (Stmt f g)"
inductive_simps safe_Done_iff: "safe I Q (Done r)"

lemma safe_query:
  "(\<And>d. I d \<Longrightarrow> safe I Q (k (q d))) \<Longrightarrow> (\<And>e. safe I Q (failed e)) \<Longrightarrow> safe I Q (query q failed k)"
  by (auto simp: query_def intro!: safe_Stmt)

lemma safe_exec:
  assumes "\<And>x. safe I Q (k x)" "\<And>e. safe I Q (failed e)" "\<And>d x d'. I d \<Longrightarrow> s d = Inr (x, d') \<Longrightarrow> I d'"
  shows "safe I Q (exec s failed k)"
  using assms by (auto simp: exec_def intro!: safe_Stmt split: sum.splits prod.splits)

lemma safe_pstep:
  assumes "pstep (p, d) (p', d')" "safe I Q p" "I d"
  shows "I d' \<and> safe I Q p'"
  using assms by (cases rule: pstep.cases) (auto elim!: safe_StmtE split: prod.splits)

lemma safe_cstep:
  assumes "cstep (ps, d) (ps', d')" "list_all (safe I Q) ps" "I d"
  shows "list_all (safe I Q) ps' \<and> I d'"
  using assms(1)
proof cases
  case (1 i p')
  from assms(2) 1(2) have "safe I Q (ps ! i)" by (simp add: list_all_iff)
  with safe_pstep [OF 1(3)] assms(3) have "I d'" "safe I Q p'" by auto
  with 1(1) assms(2) show ?thesis
    by (auto simp: list_all_iff dest!: set_update_subset_insert [THEN subsetD])
qed

lemma safe_creach:
  assumes "creach (ps, d) (ps', d')" "list_all (safe I Q) ps" "I d"
  shows "list_all (safe I Q) ps' \<and> I d'"
  using assms
proof (induction "(ps, d)" "(ps', d')" arbitrary: ps' d' rule: creach.induct)
  case (more s')
  then show ?case using safe_cstep by (cases s') blast
qed simp

lemma safe_run: "safe I Q p \<Longrightarrow> I d \<Longrightarrow> I (snd (run p d)) \<and> Q (fst (run p d))"
  by (induction p arbitrary: d rule: safe.induct) auto

text \<open>The handler answered, with one of the status codes of the API, and did not panic.\<close>

definition answered :: "outcome \<Rightarrow> bool" where
  "answered out = (case fst out of Resp c _ \<Rightarrow> c \<in> {200, 201, 202, 204, 400, 401, 403, 404, 409, 500, 503} | Crash _ \<Rightarrow> False)"

lemma answered_simps [simp]:
  "answered (Resp c b, effs) \<longleftrightarrow> c \<in> {200, 201, 202, 204, 400, 401, 403, 404, 409, 500, 503}"
  "answered (namespaceNotFound ns, effs)" "answered (tableNotFound ns t, effs)" "answered (viewNotFound ns t, effs)"
  "answered (badRequest s, effs)" "answered (internalError s e, effs)" "answered (alreadyExistsError s e, effs)"
  by (simp_all add: answered_def namespaceNotFound_def tableNotFound_def viewNotFound_def badRequest_def
      internalError_def alreadyExistsError_def)

end
