(* ===== verification/Storable.thy ===== *)
theory Storable
  imports UpdateProps
begin

text \<open>
  The type of metadata: \<open>storable\<close> values are those a Go program on a 64-bit machine can hold, with
  one entry per key and integers of 64 bits.  The update handlers keep it, so what they leave behind
  can be printed as JSON and read back; \<open>reload\<close> is what is read: the same value with every integer
  as the nearest \<open>float64\<close>.
\<close>

primrec storable :: "gval \<Rightarrow> bool" where
  "storable GNil = True"
| "storable (GBool b) = True"
| "storable (GFloat f) = True"
| "storable (GInt64 i) = in_int64 i"
| "storable (GInt i) = in_int64 i"
| "storable (GStr s) = True"
| "storable (GArr vs) = list_all storable vs"
| "storable (GObj kvs) = (wf_gomap kvs \<and> list_all (pred_prod (\<lambda>_. True) storable) kvs)"

primrec reload :: "gval \<Rightarrow> gval" where
  "reload GNil = GNil"
| "reload (GBool b) = GBool b"
| "reload (GFloat f) = GFloat f"
| "reload (GInt64 i) = GFloat (the (f64_of_int i))"
| "reload (GInt i) = GFloat (the (f64_of_int i))"
| "reload (GStr s) = GStr s"
| "reload (GArr vs) = GArr (map reload vs)"
| "reload (GObj kvs) = GObj (map (map_prod id reload) kvs)"

section \<open>Storing and reading back\<close>

lemma decode_storable: "storable v \<Longrightarrow> decode_any (encode v) = Some (reload v)"
proof (induction v)
  case (GInt64 i)
  then show ?case using f64_of_int64_Some [of i] by auto
next
  case (GInt i)
  then show ?case using f64_of_int64_Some [of i] by auto
next
  case (GArr vs)
  then have "those (map (decode_any \<circ> encode) vs) = Some (map reload vs)"
    by (intro those_map_Some) (auto simp: list_all_iff)
  then show ?case by (simp add: comp_def)
next
  case (GObj kvs)
  have "those (map (\<lambda>(k, v). map_option (Pair k) v)
          (map (map_prod id decode_any) (map (map_prod id encode) kvs))) = Some (map (map_prod id reload) kvs)"
    unfolding map_map
  proof (rule those_map_Some)
    fix x assume x: "x \<in> set kvs"
    obtain k v where kv: "x = (k, v)" by (cases x)
    with x GObj have "decode_any (encode v) = Some (reload v)"
      by (fastforce simp: list_all_iff)
    with kv show "((\<lambda>(k, v). map_option (Pair k) v) \<circ> (map_prod id decode_any \<circ> map_prod id encode)) x
        = Some (map_prod id reload x)" by simp
  qed
  moreover have "mput_all [] (map (map_prod id reload) kvs) = map (map_prod id reload) kvs"
    using GObj.prems by (intro mput_all_distinct [where m = "[]", simplified])
      (simp add: wf_gomap_def mkeys_def comp_def)
  ultimately show ?case by (simp del: map_map)
qed auto

lemma decoded_storable: "decoded v \<Longrightarrow> storable v"
  by (induction v) (auto simp: list_all_iff)

lemma decoded_mput_all:
  assumes "wf_gomap m" "list_all (pred_prod (\<lambda>_. True) decoded) m" "\<And>k v. (k, v) \<in> set kvs \<Longrightarrow> decoded v"
  shows "decoded (GObj (mput_all m kvs))"
  using assms
proof (induction kvs arbitrary: m)
  case (Cons x kvs)
  obtain k v where x: "x = (k, v)" by (cases x)
  have "list_all (pred_prod (\<lambda>_. True) decoded) (mput m k v)"
    using Cons.prems x by (fastforce simp: list_all_iff pred_prod_beta dest: mput_entries)
  moreover have "wf_gomap (mput m k v)" using Cons.prems(1) by simp
  ultimately have "decoded (GObj (mput_all (mput m k v) kvs))"
    using Cons.prems(3) by (intro Cons.IH) auto
  with x show ?case by (simp add: mput_all_def)
qed (simp add: mput_all_def)

lemma decode_decoded: "decode_any j = Some v \<Longrightarrow> decoded v"
proof (induction j arbitrary: v)
  case (JArr js)
  then obtain vs where vs: "those (map decode_any js) = Some vs" "v = GArr vs" by auto
  then have m: "map decode_any js = map Some vs" by (simp add: those_SomeD)
  have "decoded w" if "w \<in> set vs" for w
  proof -
    from that have "Some w \<in> set (map decode_any js)" unfolding m by simp
    then show ?thesis using JArr.IH by auto
  qed
  with vs show ?case by (simp add: list_all_iff)
next
  case (JObj kvs)
  then obtain vs where vs: "those (map (\<lambda>(k, v). map_option (Pair k) v) (map (map_prod id decode_any) kvs)) = Some vs"
      "v = GObj (mput_all [] vs)" by auto
  then have m: "map (\<lambda>(k, v). map_option (Pair k) v) (map (map_prod id decode_any) kvs) = map Some vs"
    by (simp add: those_SomeD)
  have "decoded w" if "(k, w) \<in> set vs" for k w
  proof -
    from that have "Some (k, w) \<in> set (map (\<lambda>(k, v). map_option (Pair k) v) (map (map_prod id decode_any) kvs))"
      unfolding m by force
    then obtain j where "(k, j) \<in> set kvs" "map_option (Pair k) (decode_any j) = Some (k, w)"
      by (auto simp: eq_commute [of "Some (_, _)"])
    then have "(k, j) \<in> set kvs" "decode_any j = Some w" by (auto simp: map_option_case split: option.splits)
    then show ?thesis using JObj.IH by fastforce
  qed
  then show ?case unfolding vs(2) by (intro decoded_mput_all) auto
qed auto

section \<open>Reading and writing storable metadata\<close>

abbreviation st :: "gobj \<Rightarrow> bool" where
  "st m \<equiv> storable (GObj m)"

lemma st_iff: "st m \<longleftrightarrow> wf_gomap m \<and> (\<forall>(k, v) \<in> set m. storable v)"
  by (auto simp: list_all_iff pred_prod_beta)

lemma st_mput: "st m \<Longrightarrow> storable v \<Longrightarrow> st (mput m k v)"
  unfolding st_iff by (auto dest: mput_entries)

lemma st_mdel: "st m \<Longrightarrow> st (mdel m k)"
  unfolding st_iff by (auto dest: mdel_entries)

lemma st_get: "st m \<Longrightarrow> mget m k = Some v \<Longrightarrow> storable v"
  unfolding st_iff using mget_SomeD by fast

lemma st_getSlice: "st m \<Longrightarrow> getSlice m k = Some xs \<Longrightarrow> list_all storable xs"
  using st_get [of m k "GArr xs"] by (auto simp: getSlice_def split: option.splits gval.splits)

lemma st_getMap: "st m \<Longrightarrow> getMap m k = Some x \<Longrightarrow> st x"
  using st_get [of m k "GObj x"] by (auto simp: getMap_def simp del: storable.simps split: option.splits gval.splits)

lemma f64_to_int_range: "in_int64 (f64_to_int f)"
  by (simp add: f64_to_int_def Let_def in_int64_def min_int64_def max_int64_def)

lemma num_of_val_range: "storable v \<Longrightarrow> num_of_val v = Some i \<Longrightarrow> in_int64 i"
  by (cases v) (auto simp: f64_to_int_range)

lemma getInt_range: "st m \<Longrightarrow> getInt m k = Some i \<Longrightarrow> in_int64 i"
  unfolding getInt_def using num_of_val_range [OF st_get] by (auto split: option.splits simp del: storable.simps)

lemma item_id_range: "storable x \<Longrightarrow> item_id k x = Some i \<Longrightarrow> in_int64 i"
  by (cases x) (auto simp: item_id_def simp del: storable.simps dest: getInt_range)

lemma maxIntFrom_range: "list_all storable xs \<Longrightarrow> in_int64 mx \<Longrightarrow> in_int64 (maxIntFrom mx xs k)"
  by (induction xs arbitrary: mx) (auto split: option.splits dest: item_id_range)

lemma st_ensureSlice:
  assumes "st m" "ensureSlice m k = (xs, m1)"
  shows "list_all storable xs \<and> st m1"
proof (cases "getSlice m k")
  case None
  then have "xs = []" "m1 = mput m k (GArr [])"
    using assms(2) by (auto simp: ensureSlice_def getSlice_def split: option.splits gval.splits)
  then show ?thesis using st_mput [OF assms(1)] by simp
next
  case (Some ys)
  then have "xs = ys" "m1 = m"
    using assms(2) by (auto simp: ensureSlice_def getSlice_def split: option.splits gval.splits)
  with st_getSlice [OF assms(1) Some] assms(1) show ?thesis by simp
qed

lemma st_ensureMap:
  assumes "st m" "ensureMap m k = (x, m1)"
  shows "st x \<and> st m1"
proof (cases "getMap m k")
  case None
  then have "x = []" "m1 = mput m k (GObj [])"
    using assms(2) by (auto simp: ensureMap_def getMap_def split: option.splits gval.splits)
  then show ?thesis using st_mput [OF assms(1), of "GObj []"] by simp
next
  case (Some y)
  then have "x = y" "m1 = m"
    using assms(2) by (auto simp: ensureMap_def getMap_def split: option.splits gval.splits)
  with st_getMap [OF assms(1) Some] assms(1) show ?thesis by simp
qed

lemma st_assign_id: "st item \<Longrightarrow> assign_id item xs k = (i, item') \<Longrightarrow> st item'"
  by (auto simp: assign_id_def Let_def wrap64_range simp del: storable.simps(8) split: option.splits intro!: st_mput)

lemma st_raise_counter: "st m \<Longrightarrow> in_int64 v \<Longrightarrow> st (raise_counter m k v)"
  by (auto simp: raise_counter_def simp del: storable.simps(8) intro!: st_mput)

lemma st_raise_from_fields: "st m \<Longrightarrow> st x \<Longrightarrow> st (raise_from_fields m x fk c)"
  by (auto simp: raise_from_fields_def simp del: storable.simps split: option.splits
      intro!: st_raise_counter maxIntFrom_range dest: st_getSlice)
    (simp add: in_int64_def min_int64_def max_int64_def)

lemma resolve_last_range: "list_all storable xs \<Longrightarrow> xs \<noteq> [] \<Longrightarrow> in_int64 i \<Longrightarrow> in_int64 (resolve_last xs k i)"
  using item_id_range [of "last xs" k] by (auto simp: resolve_last_def list_all_iff split: option.splits)

lemma storable_arr_append: "list_all storable xs \<Longrightarrow> storable x \<Longrightarrow> storable (GArr (xs @ [x]))"
  by simp

lemma storable_arr_filter: "list_all storable xs \<Longrightarrow> storable (GArr (filterSlice xs p))"
  by (simp add: filterSlice_filter list_all_iff)

section \<open>Typed updates\<close>

definition st_opt :: "gobj option \<Rightarrow> bool" where
  "st_opt s = (case s of None \<Rightarrow> True | Some x \<Rightarrow> st x)"

definition int_opt :: "int option \<Rightarrow> bool" where
  "int_opt i = (case i of None \<Rightarrow> True | Some j \<Rightarrow> in_int64 j)"

lemma opt_simps [simp]: "st_opt None" "st_opt (Some x) = st x" "int_opt None" "int_opt (Some i) = in_int64 i"
  by (simp_all add: st_opt_def int_opt_def)

fun storable_update :: "typed_update \<Rightarrow> bool" where
  "storable_update (UpgradeFormatVersion v) = in_int64 v"
| "storable_update (AddSchema s l) = (st_opt s \<and> int_opt l)"
| "storable_update (SetCurrentSchema i) = in_int64 i"
| "storable_update (AddSpec s) = st_opt s"
| "storable_update (SetDefaultSpec i) = in_int64 i"
| "storable_update (AddSortOrder s) = st_opt s"
| "storable_update (SetDefaultSortOrder i) = in_int64 i"
| "storable_update (AddSnapshot s) = st_opt s"
| "storable_update (SetSnapshotRef r) =
     (in_int64 (RefSnapshotID r) \<and> int_opt (MaxRefAgeMs r) \<and> int_opt (MaxSnapshotAgeMs r) \<and>
      int_opt (MinSnapshotsToKeep r))"
| "storable_update (SetStatistics i s) = (int_opt i \<and> st_opt s)"
| "storable_update (SetPartitionStatistics s) = st_opt s"
| "storable_update (AddEncryptionKey s) = st_opt s"
| "storable_update u = True"

text \<open>What \<open>parseUpdate\<close> yields is storable: the integers are in range, the objects come from JSON.\<close>

lemma int_of_num_range: "int_of_num n = Some i \<Longrightarrow> in_int64 i"
  by (cases n) (auto split: if_splits)

lemma dec_int_range: "dec_int i js = Some k \<Longrightarrow> in_int64 i \<Longrightarrow> in_int64 k"
  by (induction i js rule: dec_int.induct) (auto split: option.splits dest: int_of_num_range)

lemma dec_int_ptr_range: "dec_int_ptr p js = Some k \<Longrightarrow> int_opt p \<Longrightarrow> int_opt k"
  by (induction p js rule: dec_int_ptr.induct) (auto split: option.splits dest: int_of_num_range)

lemma decoded_merge: "decoded (GObj m) \<Longrightarrow> decoded (GObj o') \<Longrightarrow> decoded (GObj (mput_all m o'))"
  by (rule decoded_mput_all) (auto simp: list_all_iff pred_prod_beta)

lemma dec_obj_decoded:
  "dec_obj m js = Some r \<Longrightarrow> (\<And>x. m = Some x \<Longrightarrow> decoded (GObj x)) \<Longrightarrow> r = Some y \<Longrightarrow> decoded (GObj y)"
proof (induction m js rule: dec_obj.induct)
  case (3 m kvs js)
  from "3.prems"(1) obtain x where d: "decode_any (JObj kvs) = Some (GObj x)"
      and rest: "dec_obj (Some (mput_all (case m of None \<Rightarrow> [] | Some o0 \<Rightarrow> o0) x)) js = Some r"
    by (auto simp del: decode_any.simps split: option.splits gval.splits)
  have dm: "decoded (GObj (case m of None \<Rightarrow> [] | Some o0 \<Rightarrow> o0))"
    using "3.prems"(2) by (auto split: option.splits)
  have "decoded (GObj (mput_all (case m of None \<Rightarrow> [] | Some o0 \<Rightarrow> o0) x))"
    by (rule decoded_merge [OF dm decode_decoded [OF d]])
  then show ?case by (intro "3.IH" [OF d refl rest _ "3.prems"(3)]) auto
qed auto

lemma dec_obj_st: "dec_obj None js = Some s \<Longrightarrow> st_opt s"
  using dec_obj_decoded [of None js s] decoded_storable by (cases s) (auto simp del: storable.simps decoded.simps)

lemma in_int64_0 [simp]: "in_int64 0"
  by (simp add: in_int64_def min_int64_def max_int64_def)

lemmas dec_int_start = dec_int_range [OF _ in_int64_0]

lemmas dec_int_ptr_start = dec_int_ptr_range [of None, simplified opt_simps simp_thms]

lemma decode_update_storable: "decode_update a kvs = Some (Some u) \<Longrightarrow> storable_update u"
  unfolding decode_update_def
  by (auto split: if_splits option.splits simp del: members_def
      dest!: dec_obj_st dec_int_start dec_int_ptr_start)

lemma parseUpdate_storable: "parseUpdate r = Inr u \<Longrightarrow> storable_update u"
  by (auto simp: parseUpdate_def split: option.splits if_splits dest: decode_update_storable)

lemma parse_all_storable: "parse_all i rs = Inr us \<Longrightarrow> u \<in> set us \<Longrightarrow> storable_update u"
proof (induction i rs arbitrary: us rule: parse_all.induct)
  case (2 i r rs)
  then show ?case by (auto simp: map_sum_def split: sum.splits dest: parseUpdate_storable)
qed simp

section \<open>The handlers\<close>

lemma mput_Nil_st: "storable v \<Longrightarrow> st [(k, v)]"
  by (simp add: wf_gomap_def mkeys_def)

lemma st_props: "st m \<Longrightarrow> st (foldl (\<lambda>acc (k, v). mput acc k (GStr v)) m ps)"
proof (induction ps arbitrary: m)
  case (Cons a ps)
  obtain k v where a: "a = (k, v)" by (cases a)
  have "st (mput m k (GStr v))" using Cons.prems by (rule st_mput) simp
  from Cons.IH [OF this] a show ?case by simp
qed simp

lemma st_mdels: "st m \<Longrightarrow> st (foldl mdel m ks)"
proof (induction ks arbitrary: m)
  case (Cons k ks)
  from Cons.IH [OF st_mdel [OF Cons.prems]] show ?case by simp
qed simp

lemma st_append:
  "st m \<Longrightarrow> list_all storable xs \<Longrightarrow> st x \<Longrightarrow> st (mput m k (GArr (xs @ [GObj x])))"
  by (rule st_mput) (simp_all del: storable.simps(8))

lemma st_filter: "st m \<Longrightarrow> list_all storable xs \<Longrightarrow> st (mput m k (GArr (filterSlice xs p)))"
  by (rule st_mput) (simp_all add: filterSlice_filter list_all_iff del: storable.simps(8))

lemma st_raise_last_column:
  "st m \<Longrightarrow> st x \<Longrightarrow> int_opt l \<Longrightarrow> st (raise_last_column m x l)"
  by (auto simp: raise_last_column_def Let_def simp del: storable.simps split: option.splits
      intro!: st_raise_counter st_raise_from_fields)

lemma st_add_schema:
  assumes "applyAddSchema (Some x) l m = (e, m')" "st x" "int_opt l" "st m"
  shows "st m'"
proof -
  obtain xs m1 where en: "ensureSlice m ''schemas'' = (xs, m1)" by (metis surj_pair)
  obtain i x1 where a: "assign_id x xs ''schema-id'' = (i, x1)" by (metis surj_pair)
  from st_ensureSlice [OF assms(4) en] st_assign_id [OF assms(2) a] assms(3)
  have "st m1" "st (mput (raise_last_column m1 x1 l) ''schemas'' (GArr (xs @ [GObj x1])))"
    by (auto intro!: st_append st_raise_last_column simp del: storable.simps)
  with assms(1) en a show ?thesis
    by (simp add: applyAddSchema_def split: if_splits del: storable.simps)
qed

lemma st_add_spec:
  assumes "applyAddSpec (Some x) m = (e, m')" "st x" "st m"
  shows "st m'"
proof -
  obtain xs m1 where en: "ensureSlice m ''partition-specs'' = (xs, m1)" by (metis surj_pair)
  obtain i x1 where a: "assign_id x xs ''spec-id'' = (i, x1)" by (metis surj_pair)
  from st_ensureSlice [OF assms(3) en] st_assign_id [OF assms(2) a]
  have "st m1" "st (mput (raise_from_fields m1 x1 ''field-id'' ''last-partition-id'') ''partition-specs''
      (GArr (xs @ [GObj x1])))"
    by (auto intro!: st_append st_raise_from_fields simp del: storable.simps)
  with assms(1) en a show ?thesis
    by (simp add: applyAddSpec_def split: if_splits del: storable.simps)
qed

lemma st_add_order:
  assumes "applyAddSortOrder (Some x) m = (e, m')" "st x" "st m"
  shows "st m'"
proof -
  obtain xs m1 where en: "ensureSlice m ''sort-orders'' = (xs, m1)" by (metis surj_pair)
  obtain i x1 where a: "assign_id x xs ''order-id'' = (i, x1)" by (metis surj_pair)
  from st_ensureSlice [OF assms(3) en] st_assign_id [OF assms(2) a]
  have "st m1" "st (mput m1 ''sort-orders'' (GArr (xs @ [GObj x1])))"
    by (auto intro!: st_append simp del: storable.simps)
  with assms(1) en a show ?thesis
    by (simp add: applyAddSortOrder_def split: if_splits del: storable.simps)
qed

lemma st_select:
  "st m \<Longrightarrow> getSlice m coll = Some xs \<Longrightarrow> xs \<noteq> [] \<Longrightarrow> in_int64 i \<Longrightarrow> st (mput m cur (GInt (resolve_last xs k i)))"
  using resolve_last_range [OF st_getSlice] by (intro st_mput) simp_all

lemma st_set_current:
  "applySetCurrentSchema i m = (e, m') \<Longrightarrow> in_int64 i \<Longrightarrow> st m \<Longrightarrow> st m'"
  "applySetDefaultSpec i m = (e, m') \<Longrightarrow> in_int64 i \<Longrightarrow> st m \<Longrightarrow> st m'"
  "applySetDefaultSortOrder i m = (e, m') \<Longrightarrow> in_int64 i \<Longrightarrow> st m \<Longrightarrow> st m'"
  by (auto simp: applySetCurrentSchema_def applySetDefaultSpec_def applySetDefaultSortOrder_def Let_def
      simp del: storable.simps split: option.split_asm if_split_asm intro!: st_select)

lemma storable_removeItems: "list_all storable xs \<Longrightarrow> removeItemsByID xs rs k p t = Inr ys \<Longrightarrow> list_all storable ys"
  by (auto simp: removeItemsByID_def Let_def filterSlice_filter list_all_iff split: if_splits)

lemma st_remove:
  "applyRemoveSchemas rs m = (e, m') \<Longrightarrow> st m \<Longrightarrow> st m'"
  "applyRemovePartitionSpecs rs m = (e, m') \<Longrightarrow> st m \<Longrightarrow> st m'"
  by (auto simp: applyRemoveSchemas_def applyRemovePartitionSpecs_def
      simp del: storable.simps(8) split: option.split_asm sum.split_asm
      intro!: st_mput dest: storable_removeItems [OF st_getSlice])

lemma st_add_snapshot:
  assumes "applyAddSnapshot (Some x) m = (e, m')" "st x" "st m"
  shows "st m'"
proof (cases "getInt64 x ''snapshot-id'' = None \<or> getInt64 x ''timestamp-ms'' = None")
  case True
  with assms(1,3) show ?thesis by (auto simp: applyAddSnapshot_def simp del: storable.simps split: option.splits)
next
  case False
  then obtain i t where it: "getInt64 x ''snapshot-id'' = Some i" "getInt64 x ''timestamp-ms'' = Some t" by auto
  then have r: "in_int64 i" "in_int64 t" using getInt_range [OF assms(2)] by (auto simp: getInt64_eq)
  obtain xs m1 where en: "ensureSlice m ''snapshots'' = (xs, m1)" by (metis surj_pair)
  define m2 where "m2 = mput m1 ''snapshots'' (GArr (xs @ [GObj x]))"
  define m3 where "m3 = (case getInt64 x ''sequence-number'' of None \<Rightarrow> m2
      | Some seqNum \<Rightarrow> if seqNum > the_int m2 ''last-sequence-number''
          then mput m2 ''last-sequence-number'' (GInt64 seqNum) else m2)"
  obtain ys m4 where en': "ensureSlice m3 ''snapshot-log'' = (ys, m4)" by (metis surj_pair)
  have s1: "list_all storable xs" "st m1" using st_ensureSlice [OF assms(3) en] by auto
  then have "st m2" unfolding m2_def using assms(2) by (intro st_append)
  then have "st m3" unfolding m3_def using getInt_range [OF assms(2)]
    by (auto simp: getInt64_eq simp del: storable.simps(8) split: option.splits intro!: st_mput)
  from st_ensureSlice [OF this en'] have s4: "list_all storable ys" "st m4" by auto
  have entry: "st [(''snapshot-id'', GInt64 i), (''timestamp-ms'', GInt64 t)]"
    using r by (simp add: wf_gomap_def mkeys_def)
  from st_append [OF s4(2,1) entry, of "''snapshot-log''"] s1(2) assms(1) it en en' show ?thesis
    by (simp add: applyAddSnapshot_def Let_def m3_def [symmetric] m2_def [symmetric]
        split: if_splits del: storable.simps)
qed

lemma st_setIfNotNil: "st m \<Longrightarrow> (\<And>x. v = Some x \<Longrightarrow> storable x) \<Longrightarrow> st (setIfNotNil m k v)"
  by (cases v) (auto simp: setIfNotNil_def simp del: storable.simps intro!: st_mput)

lemma st_ref_object: "storable_update (SetSnapshotRef u) \<Longrightarrow> st (ref_object u)"
  unfolding ref_object_def
  by (intro st_setIfNotNil) (auto simp: wf_gomap_def mkeys_def int_opt_def)

lemma st_set_ref:
  assumes "applySetSnapshotRef u m = (e, m')" "storable_update (SetSnapshotRef u)" "st m"
  shows "st m'"
proof -
  obtain refs m1 where en: "ensureMap m ''refs'' = (refs, m1)" by (metis surj_pair)
  then have s: "st refs" "st m1" using st_ensureMap [OF assms(3) en] by auto
  have "st (mput refs (RefName u) (GObj (ref_object u)))"
    using s(1) st_ref_object [OF assms(2)] by (rule st_mput)
  with s(2) have m2: "st (mput m1 ''refs'' (GObj (mput refs (RefName u) (GObj (ref_object u)))))"
    by (rule st_mput)
  moreover have "storable (GInt64 (RefSnapshotID u))" using assms(2) by simp
  ultimately have "st (mput (mput m1 ''refs'' (GObj (mput refs (RefName u) (GObj (ref_object u)))))
      ''current-snapshot-id'' (GInt64 (RefSnapshotID u)))" by (rule st_mput)
  with m2 assms(1,3) en show ?thesis
    by (simp add: applySetSnapshotRef_def Let_def split: if_split_asm del: storable.simps)
qed

lemma st_remove_snapshots: "applyRemoveSnapshots rs m = (e, m') \<Longrightarrow> st m \<Longrightarrow> st m'"
  by (auto simp: applyRemoveSnapshots_def simp del: storable.simps
      split: if_split_asm option.split_asm intro!: st_filter dest: st_getSlice)

lemma st_remove_ref: "applyRemoveSnapshotRef n m = (e, m') \<Longrightarrow> st m \<Longrightarrow> st m'"
  by (auto simp: applyRemoveSnapshotRef_def Let_def simp del: storable.simps
      split: if_splits option.splits gval.splits intro!: st_mput st_mdel dest: st_getMap)

lemma st_set_statistics:
  assumes "applySetStatistics i (Some x) m = (e, m')" "int_opt i" "st x" "st m"
  shows "st m'"
proof (cases "stats_item i x")
  case None
  with assms(1,4) show ?thesis by (simp add: applySetStatistics_def del: storable.simps)
next
  case (Some p)
  obtain sid x1 where p: "p = (sid, x1)" by (cases p)
  have x1: "st x1" using Some assms(2,3)
    by (auto simp: stats_item_def p simp del: storable.simps(8) split: option.splits intro!: st_mput)
  obtain xs m1 where en: "ensureSlice m ''statistics'' = (xs, m1)" by (metis surj_pair)
  from st_ensureSlice [OF assms(4) en]
  have "st (mput m1 ''statistics'' (GArr (filterSlice xs (keeps_id (\<lambda>j. j \<noteq> sid) ''snapshot-id'') @ [GObj x1])))"
    using x1 by (intro st_append) (auto simp: filterSlice_filter list_all_iff)
  with assms(1) en Some p show ?thesis by (simp add: applySetStatistics_def Let_def del: storable.simps)
qed

lemma st_set_partition_statistics:
  assumes "applySetPartitionStatistics (Some x) m = (e, m')" "st x" "st m"
  shows "st m'"
proof (cases "getInt64 x ''snapshot-id''")
  case None
  with assms(1,3) show ?thesis by (simp add: applySetPartitionStatistics_def del: storable.simps)
next
  case (Some sid)
  obtain xs m1 where en: "ensureSlice m ''partition-statistics'' = (xs, m1)" by (metis surj_pair)
  from st_ensureSlice [OF assms(3) en]
  have "st (mput m1 ''partition-statistics''
      (GArr (filterSlice xs (keeps_id (\<lambda>j. j \<noteq> sid) ''snapshot-id'') @ [GObj x])))"
    using assms(2) by (intro st_append) (auto simp: filterSlice_filter list_all_iff)
  with assms(1) en Some show ?thesis by (simp add: applySetPartitionStatistics_def Let_def del: storable.simps)
qed

lemma st_remove_statistics:
  "applyRemoveStatistics i m = (e, m') \<Longrightarrow> st m \<Longrightarrow> st m'"
  "applyRemovePartitionStatistics i m = (e, m') \<Longrightarrow> st m \<Longrightarrow> st m'"
  by (auto simp: applyRemoveStatistics_def applyRemovePartitionStatistics_def simp del: storable.simps
      split: if_split_asm option.split_asm intro!: st_filter dest: st_getSlice)

lemma st_set_properties:
  assumes "applySetProperties ps m = (e, m')" "st m"
  shows "st m'"
proof -
  obtain props m1 where en: "ensureMap m ''properties'' = (props, m1)" by (metis surj_pair)
  from st_ensureMap [OF assms(2) en] have "st props" "st m1" by auto
  then have "st (mput m1 ''properties'' (GObj (foldl (\<lambda>acc (key, val). mput acc key (GStr val)) props ps)))"
    by (intro st_mput st_props)
  with assms en show ?thesis by (simp add: applySetProperties_def split: if_splits del: storable.simps)
qed

lemma st_add_key:
  assumes "applyAddEncryptionKey (Some x) m = (e, m')" "st x" "st m"
  shows "st m'"
proof -
  obtain xs m1 where en: "ensureSlice m ''encryption-keys'' = (xs, m1)" by (metis surj_pair)
  from st_ensureSlice [OF assms(3) en] have "st m1" "list_all storable xs" by auto
  moreover from this have "st (mput m1 ''encryption-keys'' (GArr (xs @ [GObj x])))"
    using assms(2) by (intro st_append)
  ultimately show ?thesis using assms(1,3) en
    by (auto simp: applyAddEncryptionKey_def simp del: storable.simps split: option.splits if_splits)
qed

lemma st_properties:
  "applyRemoveProperties ks m = (e, m') \<Longrightarrow> st m \<Longrightarrow> st m'"
  "applyRemoveEncryptionKey k m = (e, m') \<Longrightarrow> st m \<Longrightarrow> st m'"
  "applyAssignUUID u m = (e, m') \<Longrightarrow> st m \<Longrightarrow> st m'"
  "applySetLocation u m = (e, m') \<Longrightarrow> st m \<Longrightarrow> st m'"
  "applyUpgradeFormatVersion v m = (e, m') \<Longrightarrow> in_int64 v \<Longrightarrow> st m \<Longrightarrow> st m'"
  by (auto simp: applyRemoveProperties_def applyRemoveEncryptionKey_def applyAssignUUID_def
      applySetLocation_def applyUpgradeFormatVersion_def Let_def simp del: storable.simps(8)
      split: if_split_asm option.split_asm intro!: st_mput st_mdels dest: st_getMap)
    (drule (1) st_getSlice, simp add: filterSlice_filter list_all_iff)

lemmas st_handlers =
  st_add_schema st_set_current st_remove st_add_spec st_add_order st_add_snapshot st_set_ref
  st_remove_snapshots st_remove_ref st_set_statistics st_set_partition_statistics st_remove_statistics
  st_set_properties st_add_key st_properties

text \<open>An update without its object is rejected and changes nothing.\<close>

lemma no_object:
  "applyAddSchema None l m = (Some ''schema is required'', m)"
  "applyAddSpec None m = (Some ''spec is required'', m)"
  "applyAddSortOrder None m = (Some ''sort-order is required'', m)"
  "applyAddSnapshot None m = (Some ''snapshot is required'', m)"
  "applySetStatistics i None m = (Some ''statistics is required'', m)"
  "applySetPartitionStatistics None m = (Some ''partition-statistics is required'', m)"
  "applyAddEncryptionKey None m = (Some ''encryption-key is required'', m)"
  by (simp_all add: applyAddSchema_def applyAddSpec_def applyAddSortOrder_def applyAddSnapshot_def
      applySetStatistics_def applySetPartitionStatistics_def applyAddEncryptionKey_def)

lemma st_handle:
  assumes h: "handle u m = (e, m')" and u: "storable_update u" and m: "st m"
  shows "st m'"
proof (cases u)
  case (AddSchema s l)
  with h u m show ?thesis by (cases s) (auto simp: no_object simp del: storable.simps dest: st_add_schema)
next
  case (AddSpec s)
  with h u m show ?thesis by (cases s) (auto simp: no_object simp del: storable.simps dest: st_add_spec)
next
  case (AddSortOrder s)
  with h u m show ?thesis by (cases s) (auto simp: no_object simp del: storable.simps dest: st_add_order)
next
  case (AddSnapshot s)
  with h u m show ?thesis by (cases s) (auto simp: no_object simp del: storable.simps dest: st_add_snapshot)
next
  case (SetStatistics i s)
  with h u m show ?thesis by (cases s) (auto simp: no_object simp del: storable.simps dest: st_set_statistics)
next
  case (SetPartitionStatistics s)
  with h u m show ?thesis
    by (cases s) (auto simp: no_object simp del: storable.simps dest: st_set_partition_statistics)
next
  case (AddEncryptionKey s)
  with h u m show ?thesis by (cases s) (auto simp: no_object simp del: storable.simps dest: st_add_key)
qed (use h u m in \<open>auto simp del: storable.simps dest: st_handlers\<close>)

lemma st_run: "run_updates us m = (r, m') \<Longrightarrow> (\<And>u. u \<in> set us \<Longrightarrow> storable_update u) \<Longrightarrow> st m \<Longrightarrow> st m'"
proof (induction us arbitrary: m)
  case (Cons u us)
  obtain e m1 where h: "handle u m = (e, m1)" by (cases "handle u m")
  have "st m1" using st_handle [OF h] Cons.prems by simp
  with h Cons show ?case by (cases e) (auto simp del: storable.simps)
qed (simp del: storable.simps)

lemma st_Apply:
  assumes "Apply rs m = (r, m')" "st m"
  shows "st m'"
proof (cases "parse_all 0 rs")
  case (Inl e)
  with assms show ?thesis by (simp add: Apply_run del: storable.simps)
next
  case (Inr us)
  with assms(1) have "run_updates (sort_key rank us) m = (r, m')" by (simp add: Apply_run)
  then show ?thesis by (rule st_run) (use parse_all_storable [OF Inr] assms(2) in auto)
qed

end
