(* ===== verification/Content.thy ===== *)
theory Content
  imports Database Storable
begin

text \<open>
  What the catalog relies on beside the constraints of the database: the \<open>metadata\<close> column of every
  row holds an object with the row's UUID and location, without which a commit answers 500 or
  panics (in particular it is never the JSON \<open>null\<close>).  \<open>catalog_ok\<close> is the invariant the handlers keep; the lemmas say so for each statement.
\<close>

text \<open>Reading the \<open>metadata\<close> column into a \<open>map[string]any\<close>.\<close>

definition load_meta :: "json \<Rightarrow> gobj option" where
  "load_meta j = (case decode_any j of Some (GObj m) \<Rightarrow> Some m | _ \<Rightarrow> None)"

definition metadata_ok :: "string \<Rightarrow> json \<Rightarrow> bool" where
  "metadata_ok uuidKey j =
     (case load_meta j of
        None \<Rightarrow> False
      | Some m \<Rightarrow>
          (case getString m uuidKey of None \<Rightarrow> False | Some u \<Rightarrow> 8 \<le> length u) \<and>
          getString m ''location'' \<noteq> None)"

definition rows_ok :: "string \<Rightarrow> item_row list \<Rightarrow> bool" where
  "rows_ok uuidKey xs = list_all (\<lambda>r. metadata_ok uuidKey (it_meta r)) xs"

definition catalog_ok :: "db \<Rightarrow> bool" where
  "catalog_ok d \<longleftrightarrow> db_ok d \<and> rows_ok ''table-uuid'' (d_tables d) \<and> rows_ok ''view-uuid'' (d_views d)"

section \<open>Metadata in the database\<close>

lemma load_meta_st: "load_meta j = Some m \<Longrightarrow> st m"
  by (auto simp: load_meta_def simp del: storable.simps split: option.splits gval.splits
      dest: decode_decoded decoded_storable)

lemma mget_reload: "mget (map (map_prod id reload) m) k = map_option reload (mget m k)"
  by (induction m) auto

lemma getString_reload: "getString (map (map_prod id reload) m) k = getString m k"
proof (cases "mget m k")
  case (Some v)
  then show ?thesis by (cases v) (simp_all add: getString_def mget_reload)
qed (simp add: getString_def mget_reload)

lemma load_meta_encode: "st m \<Longrightarrow> load_meta (encode (GObj m)) = Some (map (map_prod id reload) m)"
  using decode_storable [of "GObj m"] by (simp add: load_meta_def del: storable.simps encode.simps decode_any.simps)

text \<open>Storable metadata with a UUID and a location may be written to a row.\<close>

lemma metadata_ok_encode:
  assumes "st m" "getString m k = Some u" "8 \<le> length u" "getString m ''location'' = Some l"
  shows "metadata_ok k (encode (GObj m))"
  using assms by (simp add: metadata_ok_def load_meta_encode getString_reload del: encode.simps storable.simps)

section \<open>The statements keep the invariant\<close>

lemma rows_ok_simps [simp]:
  "rows_ok k []" "rows_ok k (x # xs) \<longleftrightarrow> metadata_ok k (it_meta x) \<and> rows_ok k xs"
  "rows_ok k (xs @ ys) \<longleftrightarrow> rows_ok k xs \<and> rows_ok k ys"
  by (simp_all add: rows_ok_def)

lemma rows_ok_filter: "rows_ok k xs \<Longrightarrow> rows_ok k (filter p xs)"
  by (auto simp: rows_ok_def list_all_iff)

lemma rows_ok_map: "rows_ok k xs \<Longrightarrow> (\<And>r. r \<in> set xs \<Longrightarrow> metadata_ok k (it_meta r) \<Longrightarrow> metadata_ok k (it_meta (h r))) \<Longrightarrow>
    rows_ok k (map h xs)"
  by (auto simp: rows_ok_def list_all_iff)

lemma rows_ok_rename: "rows_ok k xs \<Longrightarrow> sql_rename i' n' i n xs d = Inr (c, ys) \<Longrightarrow> rows_ok k ys"
  by (auto simp: sql_rename_def moved_def split: if_splits intro!: rows_ok_map)

lemma catalog_ok_db: "catalog_ok d \<Longrightarrow> db_ok d"
  by (simp add: catalog_ok_def)

lemma catalog_ok_empty: "catalog_ok empty_db"
  by (simp add: catalog_ok_def db_ok_empty) (simp add: empty_db_def)

lemma catalog_ok_insert_ns: "catalog_ok d \<Longrightarrow> sql_insert_ns n p d = Inr d' \<Longrightarrow> catalog_ok d'"
  using db_ok_insert_ns [of d n p d'] by (auto simp: catalog_ok_def sql_insert_ns_def split: if_splits)

lemma catalog_ok_update_ns: "catalog_ok d \<Longrightarrow> catalog_ok (sql_update_ns_props p n d)"
  by (simp add: catalog_ok_def db_ok_update_ns_props)

lemma catalog_ok_delete_ns: "catalog_ok d \<Longrightarrow> catalog_ok (sql_delete_ns i d)"
  using db_ok_delete_ns [of d i]
  by (auto simp: catalog_ok_def sql_delete_ns_def drop_views_def drop_tables_def Let_def rows_ok_filter)

lemma catalog_ok_insert_table:
  "catalog_ok d \<Longrightarrow> metadata_ok ''table-uuid'' meta \<Longrightarrow> sql_insert_table i n loc meta d = Inr d' \<Longrightarrow> catalog_ok d'"
  using db_ok_insert_table [of d i n loc meta d']
  by (auto simp: catalog_ok_def sql_insert_table_def new_item_def split: if_splits)

lemma catalog_ok_insert_view:
  "catalog_ok d \<Longrightarrow> metadata_ok ''view-uuid'' meta \<Longrightarrow> sql_insert_view i n loc meta d = Inr d' \<Longrightarrow> catalog_ok d'"
  using db_ok_insert_view [of d i n loc meta d']
  by (auto simp: catalog_ok_def sql_insert_view_def new_item_def split: if_splits)

lemma catalog_ok_delete_table: "catalog_ok d \<Longrightarrow> sql_delete_table ns n d = (k, d') \<Longrightarrow> catalog_ok d'"
  using db_ok_delete_table [of d ns n k d']
  by (auto simp: catalog_ok_def sql_delete_table_def drop_tables_def Let_def rows_ok_filter)

lemma catalog_ok_delete_view: "catalog_ok d \<Longrightarrow> sql_delete_view ns n d = (k, d') \<Longrightarrow> catalog_ok d'"
  using db_ok_delete_view [of d ns n k d']
  by (auto simp: catalog_ok_def sql_delete_view_def drop_views_def Let_def rows_ok_filter)

lemma catalog_ok_commit:
  assumes "catalog_ok d" "metadata_ok ''table-uuid'' meta" "i \<in> set (map it_id (d_tables d))"
  shows "catalog_ok (sql_log_commit i loc (sql_update_table i loc meta prev d))"
proof -
  have "db_ok (sql_log_commit i loc (sql_update_table i loc meta prev d))"
    by (rule db_ok_log_commit [OF db_ok_update_table])
      (use assms in \<open>simp_all add: catalog_ok_def map_id_update_table del: set_map\<close>)
  with assms(1,2) show ?thesis
    by (auto simp: catalog_ok_def sql_log_commit_def sql_update_table_def intro!: rows_ok_map)
qed

lemma catalog_ok_update_view:
  "catalog_ok d \<Longrightarrow> metadata_ok ''view-uuid'' meta \<Longrightarrow> catalog_ok (sql_update_view i loc meta d)"
  using db_ok_update_view [of d i loc meta]
  by (auto simp: catalog_ok_def sql_update_view_def intro!: rows_ok_map)

end
