(* ===== verification/Namespaces.thy ===== *)
theory Namespaces
  imports Http Content "HOL-Library.Multiset"
begin

text \<open>
  \<open>internal/api/handlers/namespace.go\<close>.  A request body is an option: \<open>None\<close> where \<open>BodyParser\<close>
  fails.  The order of names and of arrays of names is the collation of the database, the parameter
  \<open>coll\<close> (a reflexive order on strings) of the listings.  \<open>scan_page\<close> is the loop over
  \<open>rows.Next()\<close> that the three listings share: what it scans, and the rows not yet read.
\<close>

record create_ns_req =
  cn_namespace :: "string list"
  cn_properties :: "(string, string) gomap option"

record update_ns_req =
  un_removals :: "string list"
  un_updates :: "(string, string) gomap"

section \<open>Listings\<close>

text \<open>Arrays of text compare element by element, the shorter one first.\<close>

fun array_le :: "(string \<Rightarrow> string \<Rightarrow> bool) \<Rightarrow> string list \<Rightarrow> string list \<Rightarrow> bool" where
  "array_le coll [] ys = True"
| "array_le coll (x # xs) [] = False"
| "array_le coll (x # xs) (y # ys) = (if x = y then array_le coll xs ys else coll x y)"

text \<open>\<open>ORDER BY\<close>\<close>

fun insert_by :: "('a \<Rightarrow> 'a \<Rightarrow> bool) \<Rightarrow> 'a \<Rightarrow> 'a list \<Rightarrow> 'a list" where
  "insert_by le x [] = [x]"
| "insert_by le x (y # ys) = (if le x y then x # y # ys else y # insert_by le x ys)"

definition order_by :: "('a \<Rightarrow> 'a \<Rightarrow> bool) \<Rightarrow> 'a list \<Rightarrow> 'a list" where
  "order_by le xs = foldr (insert_by le) xs []"

fun scan_page :: "nat \<Rightarrow> nat \<Rightarrow> 'a list \<Rightarrow> 'a list \<times> 'a list" where
  "scan_page pageSize cnt [] = ([], [])"
| "scan_page pageSize cnt (r # rs) =
     (if cnt \<ge> pageSize then ([], rs)
      else (case scan_page pageSize (cnt + 1) rs of (xs, left) \<Rightarrow> (r # xs, left)))"

text \<open>
  The rows that reach a listing: all of them, or the first few where the connection breaks while they are
  read.  \<open>rows.Next()\<close> is false then as it is at the end, and no listing looks at \<open>rows.Err()\<close>.
\<close>

definition arriving :: "nat option \<Rightarrow> 'a list \<Rightarrow> 'a list" where
  "arriving got rows = (case got of None \<Rightarrow> rows | Some n \<Rightarrow> take n rows)"

text \<open>The four queries of \<open>ListNamespaces\<close>; an empty parameter is one that is absent.\<close>

definition sql_list_namespaces ::
    "(string \<Rightarrow> string \<Rightarrow> bool) \<Rightarrow> string list option \<Rightarrow> string list option \<Rightarrow> nat \<Rightarrow> db \<Rightarrow> string list list" where
  "sql_list_namespaces coll parent after limit d =
     take limit (order_by (array_le coll)
       (filter (\<lambda>n. (case parent of None \<Rightarrow> True | Some p \<Rightarrow> take (length p) n = p) \<and>
                    (case after of None \<Rightarrow> True | Some t \<Rightarrow> \<not> array_le coll n t))
         (map ns_name (d_namespaces d))))"

definition name_val :: "string list \<Rightarrow> gval" where
  "name_val ns = GArr (map GStr ns)"

definition token_param :: "string \<Rightarrow> string list option" where
  "token_param s = (if s = [] then None else Some (split_on (CHR 0x1F) s))"

definition token_member :: "string \<Rightarrow> gobj" where
  "token_member t = (if t = [] then [] else [(''next-page-token'', GStr t)])"

definition ListNamespaces ::
    "(string \<Rightarrow> string \<Rightarrow> bool) \<Rightarrow> nat option \<Rightarrow> string \<Rightarrow> string \<Rightarrow> int \<Rightarrow> outcome prog" where
  "ListNamespaces coll got parent pageToken pageSizeParam =
     (let pageSize = nat (validatePageSize pageSizeParam) in
      query (sql_list_namespaces coll (token_param parent) (token_param pageToken) (pageSize + 1))
        (\<lambda>e. reply (internalError ''failed to list namespaces'' (sqe_text e)))
        (\<lambda>rows.
          let (namespaces, left) = scan_page pageSize 0 (arriving got rows);
              lastName = (if namespaces = [] then [] else last namespaces);
              token = (if left \<noteq> [] \<and> lastName \<noteq> [] then join_with [CHR 0x1F] lastName else [])
          in reply (Resp 200 (Some (GObj ((''namespaces'', GArr (map name_val namespaces)) # token_member token))))))"

section \<open>Single namespaces\<close>

definition props_val :: "(string, string) gomap \<Rightarrow> gval" where
  "props_val m = GObj (map (map_prod id GStr) m)"

text \<open>The struct \<open>Namespace\<close>; its properties are left out when empty.\<close>

definition namespace_val :: "string list \<Rightarrow> (string, string) gomap \<Rightarrow> gval" where
  "namespace_val ns props =
     GObj ((''namespace'', name_val ns) # (if props = [] then [] else [(''properties'', props_val props)]))"

definition CreateNamespace :: "bool \<Rightarrow> create_ns_req option \<Rightarrow> outcome prog" where
  "CreateNamespace broker body =
     (case body of
        None \<Rightarrow> reply (badRequest ''invalid request body'')
      | Some req \<Rightarrow>
          if cn_namespace req = [] then reply (badRequest ''namespace is required'')
          else
            let properties = (case cn_properties req of Some p \<Rightarrow> p | None \<Rightarrow> []) in
            exec (\<lambda>d. map_sum id (Pair ()) (sql_insert_ns (cn_namespace req) properties d))
              (\<lambda>e. reply (if IsDuplicateError e then alreadyExistsError ''Namespace'' (dotted (cn_namespace req))
                         else internalError ''failed to create namespace'' (sqe_text e)))
              (\<lambda>_. Done (Resp 200 (Some (namespace_val (cn_namespace req) properties)),
                 Metric ''namespace_created'' [] #
                 (if broker then [Event ''namespace.created'' (dotted (cn_namespace req))] else []))))"

definition GetNamespace :: "string \<Rightarrow> outcome prog" where
  "GetNamespace param =
     (let namespaceName = parseNamespace param in
      query (sql_namespace namespaceName)
        (\<lambda>e. reply (internalError ''failed to get namespace'' (sqe_text e)))
        (\<lambda>r. case r of
           None \<Rightarrow> reply (namespaceNotFound namespaceName)
         | Some row \<Rightarrow> reply (Resp 200 (Some (namespace_val namespaceName (ns_props row))))))"

definition NamespaceExists :: "string \<Rightarrow> outcome prog" where
  "NamespaceExists param =
     query (sql_ns_exists (parseNamespace param))
       (\<lambda>e. reply (internalError ''failed to check namespace'' (sqe_text e)))
       (\<lambda>x. reply (Resp (if x then 204 else 404) None))"

definition DeleteNamespace :: "bool \<Rightarrow> string \<Rightarrow> outcome prog" where
  "DeleteNamespace broker param =
     (let namespaceName = parseNamespace param in
      query (sql_ns_id namespaceName)
        (\<lambda>e. reply (internalError ''failed to get namespace'' (sqe_text e)))
        (\<lambda>r. case r of
           None \<Rightarrow> reply (namespaceNotFound namespaceName)
         | Some namespaceID \<Rightarrow>
             query (sql_count_items namespaceID)
               (\<lambda>e. reply (internalError ''failed to check namespace contents'' (sqe_text e)))
               (\<lambda>count.
                 if 0 < count then reply (badRequest ''Namespace is not empty'')
                 else exec (\<lambda>d. Inr ((), sql_delete_ns namespaceID d))
                   (\<lambda>e. reply (internalError ''failed to delete namespace'' (sqe_text e)))
                   (\<lambda>_. Done (Resp 204 None,
                      Metric ''namespace_dropped'' [] #
                      (if broker then [Event ''namespace.dropped'' (dotted namespaceName)] else []))))))"

text \<open>The two loops of \<open>UpdateNamespaceProperties\<close>.  The first goes over a Go map, in an order that the runtime picks:
  the parameter \<open>visit\<close>, which lists the entries of a map.\<close>

fun apply_updates :: "(string, string) gomap \<Rightarrow> (string, string) gomap \<Rightarrow> (string, string) gomap \<times> string list" where
  "apply_updates props [] = (props, [])"
| "apply_updates props ((k, v) # us) = (case apply_updates (mput props k v) us of (p, ks) \<Rightarrow> (p, k # ks))"

fun apply_removals :: "(string, string) gomap \<Rightarrow> string list \<Rightarrow> (string, string) gomap \<times> string list \<times> string list" where
  "apply_removals props [] = (props, [], [])"
| "apply_removals props (k # ks) =
     (case mget props k of
        Some _ \<Rightarrow> (case apply_removals (mdel props k) ks of (p, removed, missing) \<Rightarrow> (p, k # removed, missing))
      | None \<Rightarrow> (case apply_removals props ks of (p, removed, missing) \<Rightarrow> (p, removed, k # missing)))"

definition UpdateNamespaceProperties ::
    "((string, string) gomap \<Rightarrow> (string, string) gomap) \<Rightarrow> string \<Rightarrow> update_ns_req option \<Rightarrow> outcome prog" where
  "UpdateNamespaceProperties visit param body =
     (let namespaceName = parseNamespace param in
      case body of
        None \<Rightarrow> reply (badRequest ''invalid request body'')
      | Some req \<Rightarrow>
          query (sql_namespace namespaceName)
            (\<lambda>e. reply (internalError ''failed to get namespace'' (sqe_text e)))
            (\<lambda>r. case r of
               None \<Rightarrow> reply (namespaceNotFound namespaceName)
             | Some row \<Rightarrow>
                 (case apply_updates (ns_props row) (visit (un_updates req)) of (p1, updated) \<Rightarrow>
                  (case apply_removals p1 (un_removals req) of (properties, removed, missing) \<Rightarrow>
                   exec (\<lambda>d. Inr ((), sql_update_ns_props properties namespaceName d))
                     (\<lambda>e. reply (internalError ''failed to update namespace'' (sqe_text e)))
                     (\<lambda>_. reply (Resp 200 (Some (GObj [(''updated'', name_val updated),
                        (''removed'', name_val removed), (''missing'', name_val missing)]))))))))"

section \<open>Names\<close>

lemma split_on_nonempty: "split_on c s \<noteq> []"
  by (induction s) (auto split: list.splits)

lemma split_on_parts: "p \<in> set (split_on c s) \<Longrightarrow> c \<notin> set p"
proof (induction s arbitrary: p)
  case (Cons x xs)
  then show ?case by (auto split: if_splits list.splits)
qed simp

lemma split_on_clean: "c \<notin> set s \<Longrightarrow> split_on c s = [s]"
  by (induction s) auto

lemma split_on_append: "c \<notin> set p \<Longrightarrow> split_on c (p @ c # s) = p # split_on c s"
  by (induction p) auto

lemma unescape_append:
  "unescape p = Some p' \<Longrightarrow> unescape q = Some q' \<Longrightarrow> unescape (p @ q) = Some (p' @ q')"
proof (induction p arbitrary: p' rule: unescape.induct)
  case (2 c cs)
  show ?case
  proof (cases "c = CHR ''%''")
    case True
    with "2.prems"(1) obtain a b ds x y r where cs: "cs = a # b # ds" "hex_val a = Some x" "hex_val b = Some y"
        "unescape ds = Some r" "p' = char_of (16 * x + y) # r"
      by (auto simp: map_option_case split: list.split_asm option.split_asm)
    with "2.IH"(1) [OF True cs(1) refl refl cs(2,3,4) "2.prems"(2)] True show ?thesis
      by simp
  next
    case False
    with "2.prems"(1) obtain r where r: "unescape cs = Some r" "p' = c # r" by auto
    with "2.IH"(2) [OF False r(1) "2.prems"(2)] False show ?thesis by simp
  qed
qed simp

lemma unescape_clean: "CHR ''%'' \<notin> set s \<Longrightarrow> unescape s = Some s"
  by (induction s) auto

lemma unescape_sep: "unescape ''%1F'' = Some [CHR 0x1F]"
  by code_simp

lemma unescape_join:
  "\<forall>p \<in> set ps. CHR ''%'' \<notin> set p \<Longrightarrow> unescape (join_with ''%1F'' ps) = Some (join_with [CHR 0x1F] ps)"
proof (induction "''%1F''" ps rule: join_with.induct)
  case (3 p q ps)
  then have "unescape (''%1F'' @ join_with ''%1F'' (q # ps)) = Some ([CHR 0x1F] @ join_with [CHR 0x1F] (q # ps))"
    by (intro unescape_append unescape_sep) auto
  with 3 show ?case by (auto intro!: unescape_append [of p p, OF unescape_clean, simplified])
qed (auto simp: unescape_clean)

lemma split_on_join:
  "ps \<noteq> [] \<Longrightarrow> \<forall>p \<in> set ps. c \<notin> set p \<Longrightarrow> split_on c (join_with [c] ps) = ps"
  by (induction "[c]" ps rule: join_with.induct) (auto simp: split_on_clean split_on_append)


lemma parseNamespace_join:
  assumes "2 \<le> length ns" "\<forall>p \<in> set ns. CHR ''%'' \<notin> set p \<and> CHR 0x1F \<notin> set p"
  shows "parseNamespace (join_with ''%1F'' ns) = ns"
proof -
  obtain p q ps where ns: "ns = p # q # ps" using assms(1) by (metis One_nat_def Suc_1 Suc_le_length_iff)
  then have "CHR 0x1F \<in> set (join_with [CHR 0x1F] ns)" by simp
  moreover have "unescape (join_with ''%1F'' ns) = Some (join_with [CHR 0x1F] ns)"
    using assms(2) by (simp add: unescape_join)
  moreover have "split_on (CHR 0x1F) (join_with [CHR 0x1F] ns) = ns"
    using assms(2) ns by (intro split_on_join) auto
  ultimately show ?thesis by (simp only: parseNamespace_def Let_def option.case if_True)
qed

lemma parseNamespace_single: "parseNamespace s = [x] \<Longrightarrow> CHR ''.'' \<notin> set x"
  unfolding parseNamespace_def Let_def
proof (split if_split_asm)
  fix t assume "CHR 0x1F \<in> set t" "split_on (CHR 0x1F) t = [x]"
  moreover have "length (split_on c u) = 1 \<Longrightarrow> c \<notin> set u" for c u
    by (induction u) (auto split: if_splits list.splits simp: split_on_nonempty)
  ultimately show ?thesis by (metis One_nat_def length_Cons list.size(3))
next
  fix t assume "split_on (CHR ''.'') t = [x]"
  then show ?thesis using split_on_parts [of x "CHR ''.''" t] by simp
qed

section \<open>The namespaces as a map\<close>

text \<open>The abstract state of this component: the properties of each namespace, by its name.\<close>

definition ns_map :: "db \<Rightarrow> string list \<rightharpoonup> (string, string) gomap" where
  "ns_map d name = map_option ns_props (sql_namespace name d)"

lemma find_append: "List.find P (xs @ ys) = (case List.find P xs of None \<Rightarrow> List.find P ys | Some x \<Rightarrow> Some x)"
  by (induction xs) auto

lemma find_SomeD: "List.find P xs = Some x \<Longrightarrow> x \<in> set xs \<and> P x"
  by (induction xs) (auto split: if_splits)

lemma sql_ns_exists_iff: "sql_ns_exists name d \<longleftrightarrow> name \<in> dom (ns_map d)"
  by (auto simp: sql_ns_exists_def ns_map_def)

lemma ns_map_insert:
  "sql_insert_ns name props d = Inr d' \<Longrightarrow> ns_map d name = None \<and> ns_map d' = (ns_map d)(name \<mapsto> props)"
  by (auto simp: sql_insert_ns_def sql_ns_exists_def ns_map_def sql_namespace_def find_append fun_eq_iff
      split: if_splits option.splits)

lemma find_map_upd:
  "List.find (\<lambda>r. ns_name r = n)
     (map (\<lambda>r. if ns_name r = name then r\<lparr>ns_props := props\<rparr> else r) rs) =
   map_option (\<lambda>r. if ns_name r = name then r\<lparr>ns_props := props\<rparr> else r)
     (List.find (\<lambda>r. ns_name r = n) rs)"
  by (induction rs) auto

lemma find_name: "List.find (\<lambda>r. ns_name r = n) rs = Some r \<Longrightarrow> ns_name r = n"
  by (auto simp: find_Some_iff)

lemma ns_map_update:
  assumes "ns_map d name \<noteq> None"
  shows "ns_map (sql_update_ns_props props name d) = (ns_map d)(name \<mapsto> props)"
proof
  fix n
  show "ns_map (sql_update_ns_props props name d) n = ((ns_map d)(name \<mapsto> props)) n"
    using assms by (cases "List.find (\<lambda>r. ns_name r = n) (d_namespaces d)")
      (auto simp: ns_map_def sql_namespace_def sql_update_ns_props_def find_map_upd dest: find_name)
qed

lemma find_filter_id:
  assumes "distinct (map ns_id rs)" "distinct (map ns_name rs)"
    "List.find (\<lambda>r. ns_name r = name) rs = Some r0"
  shows "List.find (\<lambda>r. ns_name r = n) (filter (\<lambda>r. ns_id r \<noteq> ns_id r0) rs) =
    (if n = name then None else List.find (\<lambda>r. ns_name r = n) rs)"
  using assms
proof (induction rs)
  case (Cons x rs)
  show ?case
  proof (cases "ns_name x = name")
    case True
    with Cons.prems have r0: "r0 = x" by simp
    with Cons.prems(1) have "filter (\<lambda>r. ns_id r \<noteq> ns_id r0) rs = rs"
      by (auto simp: filter_id_conv) (metis image_eqI)
    moreover have "List.find (\<lambda>r. ns_name r = name) rs = None"
      using Cons.prems(2) True by (auto simp: find_None_iff) (metis image_eqI)
    ultimately show ?thesis using r0 True by auto
  next
    case False
    with Cons.prems(3) have r0: "List.find (\<lambda>r. ns_name r = name) rs = Some r0" by simp
    then have "r0 \<in> set rs" by (auto simp: find_Some_iff in_set_conv_nth)
    with Cons.prems(1) have "ns_id x \<noteq> ns_id r0" by auto
    with Cons r0 False show ?thesis by auto
  qed
qed simp

lemma ns_map_delete:
  assumes "db_ok d" "sql_ns_id name d = Some i"
  shows "ns_map (sql_delete_ns i d) = (ns_map d)(name := None)"
proof -
  obtain r0 where r0: "List.find (\<lambda>r. ns_name r = name) (d_namespaces d) = Some r0" "i = ns_id r0"
    using assms(2) by (auto simp: sql_ns_id_def sql_namespace_def)
  have "d_namespaces (sql_delete_ns i d) = filter (\<lambda>r. ns_id r \<noteq> i) (d_namespaces d)"
    by (simp add: sql_delete_ns_def drop_views_def drop_tables_def Let_def)
  with r0 find_filter_id [OF _ _ r0(1)] assms(1) show ?thesis
    by (auto simp: ns_map_def sql_namespace_def fun_eq_iff db_ok_def)
qed

section \<open>Properties\<close>

text \<open>The handlers keep the invariant of the catalog and end with an answer.\<close>

lemma safe_ListNamespaces: "safe I answered (ListNamespaces coll got parent tok n)"
  by (auto simp: ListNamespaces_def Let_def split: prod.splits intro!: safe_query safe_Done)

lemma safe_CreateNamespace: "safe catalog_ok answered (CreateNamespace b body)"
  by (auto simp: CreateNamespace_def Let_def split: option.splits intro!: safe_Done safe_exec
      elim: catalog_ok_insert_ns)

lemma safe_GetNamespace: "safe I answered (GetNamespace p)"
  by (auto simp: GetNamespace_def Let_def split: option.splits intro!: safe_Done safe_query)

lemma safe_NamespaceExists: "safe I answered (NamespaceExists p)"
  by (auto simp: NamespaceExists_def intro!: safe_Done safe_query)

lemma safe_DeleteNamespace: "safe catalog_ok answered (DeleteNamespace b p)"
  by (auto simp: DeleteNamespace_def Let_def catalog_ok_delete_ns split: option.splits
      intro!: safe_Done safe_query safe_exec)

lemma safe_UpdateNamespaceProperties: "safe catalog_ok answered (UpdateNamespaceProperties visit p body)"
  by (auto simp: UpdateNamespaceProperties_def Let_def catalog_ok_update_ns split: option.splits prod.splits
      intro!: safe_Done safe_query safe_exec)

lemmas namespace_handlers_safe =
  safe_ListNamespaces safe_CreateNamespace safe_GetNamespace safe_NamespaceExists
  safe_DeleteNamespace safe_UpdateNamespaceProperties


text \<open>\<open>CreateNamespace\<close> alone with the database.  A body that does not parse or has no name is a 400;
  a name in use is a 409 and changes nothing; otherwise the answer is a 200 with the namespace, the
  name maps to the given properties (none given: empty) and to nothing else, and one event is
  published if there is a broker.\<close>

theorem CreateNamespace_spec:
  "case body of
     None \<Rightarrow> run (CreateNamespace broker body) d = ((badRequest ''invalid request body'', []), d)
   | Some req \<Rightarrow>
       let name = cn_namespace req; props = (case cn_properties req of Some p \<Rightarrow> p | None \<Rightarrow> []);
           ((resp, effs), d') = run (CreateNamespace broker body) d
       in if name = [] then resp = badRequest ''namespace is required'' \<and> effs = [] \<and> d' = d
          else if name \<in> dom (ns_map d)
          then resp = alreadyExistsError ''Namespace'' (dotted name) \<and> effs = [] \<and> d' = d
          else resp = Resp 200 (Some (namespace_val name props)) \<and> ns_map d' = (ns_map d)(name \<mapsto> props) \<and>
               d_tables d' = d_tables d \<and> d_views d' = d_views d \<and>
               filter (\<lambda>x. case x of Event _ _ \<Rightarrow> True | _ \<Rightarrow> False) effs =
                 (if broker then [Event ''namespace.created'' (dotted name)] else [])"
proof (cases body)
  case None
  then show ?thesis by (simp add: CreateNamespace_def)
next
  case (Some req)
  define props where "props = (case cn_properties req of Some p \<Rightarrow> p | None \<Rightarrow> [])"
  show ?thesis
  proof (cases "sql_insert_ns (cn_namespace req) props d")
    case (Inl e)
    then have "e = unique_violation" "cn_namespace req \<in> dom (ns_map d)"
      by (auto simp: sql_insert_ns_def sql_ns_exists_iff split: if_splits)
    with Some Inl show ?thesis
      by (auto simp: CreateNamespace_def Let_def props_def unique_violation_def IsDuplicateError_def
          PgErrUniqueViolation_def)
  next
    case (Inr d')
    then have "cn_namespace req \<notin> dom (ns_map d)" "ns_map d' = (ns_map d)(cn_namespace req \<mapsto> props)"
        "d_tables d' = d_tables d" "d_views d' = d_views d"
      using ns_map_insert [OF Inr] by (auto simp: sql_insert_ns_def split: if_splits)
    with Some Inr show ?thesis
      by (auto simp: CreateNamespace_def Let_def props_def)
  qed
qed

text \<open>A namespace of two or more levels can be read back: after \<open>CreateNamespace\<close> has answered 200,
  \<open>GetNamespace\<close> on its levels joined by \<open>%1F\<close> answers 200 with the same name and properties
  (where no level contains the separator or a per cent sign, which a client must escape).\<close>

theorem create_then_get_namespace:
  assumes "2 \<le> length ns" "\<forall>p \<in> set ns. CHR ''%'' \<notin> set p \<and> CHR 0x1F \<notin> set p"
    "run (CreateNamespace broker (Some \<lparr>cn_namespace = ns, cn_properties = Some props\<rparr>)) d = ((Resp 200 b, effs), d')"
  shows "run (GetNamespace (join_with ''%1F'' ns)) d' = ((Resp 200 (Some (namespace_val ns props)), []), d')"
proof -
  from assms(1,3) have "sql_insert_ns ns props d = Inr d'"
    by (cases "sql_insert_ns ns props d")
      (auto simp: CreateNamespace_def alreadyExistsError_def internalError_def badRequest_def
        split: if_splits)
  then have "ns_map d' ns = Some props" using ns_map_insert by fastforce
  then show ?thesis
    by (auto simp: GetNamespace_def parseNamespace_join [OF assms(1,2)] ns_map_def)
qed

theorem create_then_get_namespace_witness:
  "run (GetNamespace ''a%1Fb'')
     (snd (run (CreateNamespace True (Some \<lparr>cn_namespace = [''a'', ''b''], cn_properties = Some [(''k'', ''v'')]\<rparr>)) empty_db)) =
   ((Resp 200 (Some (namespace_val [''a'', ''b''] [(''k'', ''v'')])), []),
     snd (run (CreateNamespace True (Some \<lparr>cn_namespace = [''a'', ''b''], cn_properties = Some [(''k'', ''v'')]\<rparr>)) empty_db))"
  using create_then_get_namespace [of "[''a'', ''b'']" True "[(''k'', ''v'')]" empty_db
      "Some (namespace_val [''a'', ''b''] [(''k'', ''v'')])"]
  by (simp add: CreateNamespace_def sql_insert_ns_def sql_ns_exists_def sql_namespace_def empty_db_def Let_def)

text \<open>A namespace of one level whose name contains a dot, which \<open>CreateNamespace\<close> accepts, cannot be
  reached: no path parameter makes \<open>GetNamespace\<close> return it, because \<open>parseNamespace\<close> splits at dots.\<close>

theorem dotted_namespace_unreachable:
  assumes "CHR ''.'' \<in> set n"
  shows "parseNamespace param \<noteq> [n] \<and>
    fst (fst (run (GetNamespace param) d)) \<noteq> Resp 200 (Some (namespace_val [n] props))"
proof -
  have ne: "parseNamespace param \<noteq> [n]" using parseNamespace_single assms by blast
  then have "namespace_val (parseNamespace param) p \<noteq> namespace_val [n] props" for p
    by (auto simp: namespace_val_def name_val_def inj_map_eq_map [of GStr] inj_on_def
        simp del: list.map dest: map_injective)
  with ne show ?thesis
    by (auto simp: GetNamespace_def Let_def namespaceNotFound_def split: option.splits)
qed

theorem dotted_namespace_unreachable_witness:
  "fst (fst (run (CreateNamespace True (Some \<lparr>cn_namespace = [''a.b''], cn_properties = None\<rparr>)) empty_db)) =
     Resp 200 (Some (namespace_val [''a.b''] [])) \<and>
   fst (fst (run (GetNamespace ''a.b'')
     (snd (run (CreateNamespace True (Some \<lparr>cn_namespace = [''a.b''], cn_properties = None\<rparr>)) empty_db)))) \<noteq>
     Resp 200 (Some (namespace_val [''a.b''] []))"
  using dotted_namespace_unreachable [of "''a.b''" "''a.b''"
      "snd (run (CreateNamespace True (Some \<lparr>cn_namespace = [''a.b''], cn_properties = None\<rparr>)) empty_db)" "[]"]
  by (simp add: CreateNamespace_def sql_insert_ns_def sql_ns_exists_def sql_namespace_def empty_db_def Let_def)


text \<open>A namespace without tables and views is deleted without touching any.\<close>

lemma count_items_0: "sql_count_items i d = 0 \<longleftrightarrow> (\<forall>r \<in> set (d_tables d) \<union> set (d_views d). it_ns r \<noteq> i)"
  by (auto simp: sql_count_items_def filter_empty_conv)

lemma delete_empty_ns:
  assumes "sql_count_items i d = 0"
  shows "d_tables (sql_delete_ns i d) = d_tables d" "d_views (sql_delete_ns i d) = d_views d"
    "d_log (sql_delete_ns i d) = d_log d" "d_plans (sql_delete_ns i d) = d_plans d"
  using assms unfolding count_items_0
  by (auto simp: sql_delete_ns_def drop_tables_def drop_views_def Let_def filter_id_conv filter_empty_conv)



lemma apply_updates_spec:
  "apply_updates props us = (mput_all props us, map fst us)"
  by (induction props us rule: apply_updates.induct) (auto simp: mput_all_def)

lemma apply_removals_spec:
  "apply_removals props ks = (p, removed, missing) \<Longrightarrow>
     (\<forall>k. mget p k = (if k \<in> set ks then None else mget props k)) \<and>
     set removed \<union> set missing = set ks \<and> distinct removed \<and>
     (\<forall>k. k \<in> set removed \<longleftrightarrow> k \<in> set ks \<and> mget props k \<noteq> None) \<and> mset removed + mset missing = mset ks"
proof (induction props ks arbitrary: p removed missing rule: apply_removals.induct)
  case (2 props k' ks)
  show ?case
  proof (cases "mget props k'")
    case None
    obtain p1 r1 m1 where h: "apply_removals props ks = (p1, r1, m1)" by (metis surj_pair)
    with None "2.prems" have "p = p1" "removed = r1" "missing = k' # m1" by auto
    with "2.IH"(1) [OF None h] None show ?thesis by auto
  next
    case (Some v)
    obtain p1 r1 m1 where h: "apply_removals (mdel props k') ks = (p1, r1, m1)" by (metis surj_pair)
    with Some "2.prems" have "p = p1" "removed = k' # r1" "missing = m1" by auto
    with "2.IH"(2) [OF Some h] Some show ?thesis by auto
  qed
qed simp

text \<open>Removals without repetition are split by whether the key was there, both parts in the order of the request.\<close>

lemma apply_removals_distinct:
  "apply_removals props ks = (p, removed, missing) \<Longrightarrow> distinct ks \<Longrightarrow>
     removed = filter (\<lambda>k. mget props k \<noteq> None) ks \<and> missing = filter (\<lambda>k. mget props k = None) ks"
proof (induction props ks arbitrary: p removed missing rule: apply_removals.induct)
  case (2 props k' ks)
  show ?case
  proof (cases "mget props k'")
    case None
    obtain p1 r1 m1 where h: "apply_removals props ks = (p1, r1, m1)" by (metis surj_pair)
    with None "2.prems" have "removed = r1" "missing = k' # m1" by auto
    with "2.IH"(1) [OF None h] None "2.prems"(2) show ?thesis by simp
  next
    case (Some v)
    obtain p1 r1 m1 where h: "apply_removals (mdel props k') ks = (p1, r1, m1)" by (metis surj_pair)
    with Some "2.prems" have "removed = k' # r1" "missing = m1" by auto
    moreover have "filter (\<lambda>k. mget (mdel props k') k \<noteq> None) ks = filter (\<lambda>k. mget props k \<noteq> None) ks"
        "filter (\<lambda>k. mget (mdel props k') k = None) ks = filter (\<lambda>k. mget props k = None) ks"
      by (rule filter_cong [OF refl], use "2.prems"(2) in auto)+
    moreover have "distinct ks" using "2.prems"(2) by simp
    ultimately show ?thesis using "2.IH"(2) [OF Some h] Some by simp
  qed
qed simp

lemma mget_mset:
  assumes "mset m' = mset m" "wf_gomap m"
  shows "mget m' k = mget m k" "wf_gomap m'"
proof -
  have "mset (mkeys m') = mset (mkeys m)" using assms(1) unfolding mkeys_def mset_map by simp
  with assms(2) show w: "wf_gomap m'" unfolding wf_gomap_def by (metis mset_eq_imp_distinct_iff)
  have "set m' = set m" using assms(1) by (rule mset_eq_setD)
  then have "mget m' k = Some v \<longleftrightarrow> mget m k = Some v" for v using w assms(2) by (simp add: mget_in_set)
  then show "mget m' k = mget m k" by (metis not_Some_eq)
qed



section \<open>Listing\<close>

locale total_order =
  fixes le :: "'a \<Rightarrow> 'a \<Rightarrow> bool"
  assumes le_refl: "le x x"
    and le_trans: "le x y \<Longrightarrow> le y z \<Longrightarrow> le x z"
    and le_antisym: "le x y \<Longrightarrow> le y x \<Longrightarrow> x = y"
    and le_total: "le x y \<or> le y x"
begin

lemma set_insert_by: "set (insert_by le x ys) = insert x (set ys)"
  by (induction ys) auto

lemma set_order_by: "set (order_by le xs) = set xs"
  by (induction xs) (auto simp: order_by_def set_insert_by)

lemma sorted_insert_by: "sorted_wrt le ys \<Longrightarrow> sorted_wrt le (insert_by le x ys)"
  by (induction ys) (use le_total in \<open>auto simp: set_insert_by intro: le_trans\<close>)

lemma sorted_order_by: "sorted_wrt le (order_by le xs)"
  by (induction xs) (auto simp: order_by_def sorted_insert_by)

lemma length_order_by: "length (order_by le xs) = length xs"
proof -
  have "length (insert_by le x ys) = Suc (length ys)" for x ys by (induction ys) auto
  then show ?thesis by (induction xs) (auto simp: order_by_def)
qed

text \<open>The rows of a page precede the rows that are left out.\<close>

lemma page_first:
  assumes "x \<in> set (take n (order_by le xs))" "y \<in> set xs" "y \<notin> set (take n (order_by le xs))"
  shows "le x y"
proof -
  have "y \<in> set (drop n (order_by le xs))"
    using assms(2,3) set_order_by [of xs] by (metis Un_iff append_take_drop_id set_append)
  moreover have "sorted_wrt le (take n (order_by le xs) @ drop n (order_by le xs))"
    using sorted_order_by [of xs] by simp
  ultimately show ?thesis using assms(1) by (auto simp only: sorted_wrt_append)
qed

text \<open>What a page is: the first rows in the order, each once.\<close>

lemma page_spec:
  assumes "distinct xs" "page = take n (order_by le xs)"
  shows "distinct page \<and> sorted_wrt le page \<and> set page \<subseteq> set xs \<and> length page = min n (card (set xs)) \<and>
    (\<forall>x \<in> set page. \<forall>y \<in> set xs - set page. le x y)"
proof -
  have "distinct (order_by le xs)"
    using assms(1) by (simp add: card_distinct distinct_card length_order_by set_order_by)
  moreover have "set page \<subseteq> set xs" using assms(2) set_order_by set_take_subset by metis
  moreover have "sorted_wrt le page" unfolding assms(2) using sorted_order_by by (rule sorted_wrt_take)
  ultimately show ?thesis using assms page_first
    by (auto simp: length_order_by distinct_card min.commute)
qed

end

text \<open>A collation orders arrays of text.\<close>

locale collation = total_order coll for coll :: "string \<Rightarrow> string \<Rightarrow> bool"
begin

lemma array_le_refl: "array_le coll x x"
  by (induction x) auto

lemma array_le_antisym: "array_le coll x y \<Longrightarrow> array_le coll y x \<Longrightarrow> x = y"
proof (induction x arbitrary: y)
  case Nil
  then show ?case by (cases y) auto
next
  case (Cons a x)
  then obtain b y' where "y = b # y'" by (cases y) auto
  with Cons show ?case using le_antisym [of a b] by (auto split: if_splits)
qed

lemma array_le_total: "array_le coll x y \<or> array_le coll y x"
proof (induction x arbitrary: y)
  case (Cons a x)
  then show ?case using le_total by (cases y) auto
qed simp

lemma array_le_trans: "array_le coll x y \<Longrightarrow> array_le coll y z \<Longrightarrow> array_le coll x z"
proof (induction x arbitrary: y z)
  case (Cons a x)
  then obtain b y' where y: "y = b # y'" by (cases y) auto
  with Cons.prems obtain c z' where z: "z = c # z'" by (cases z) auto
  show ?case using Cons.prems Cons.IH [of y' z'] le_trans [of a b c] le_antisym [of a b]
    unfolding y z by (auto split: if_splits)
qed simp

end

sublocale collation \<subseteq> arrays: total_order "array_le coll"
  by (unfold_locales; (rule array_le_refl array_le_total | erule (1) array_le_trans array_le_antisym))

context collation
begin

lemmas arrays_page_spec = arrays.page_spec

end

text \<open>The collation \<open>C\<close>: bytes in order, a prefix first.\<close>

fun bytes_le :: "string \<Rightarrow> string \<Rightarrow> bool" where
  "bytes_le [] ys = True"
| "bytes_le (x # xs) [] = False"
| "bytes_le (x # xs) (y # ys) =
     (if x = y then bytes_le xs ys else (of_char x :: nat) < of_char y)"

lemma bytes_le_refl: "bytes_le x x"
  by (induction x) auto

lemma bytes_le_antisym: "bytes_le x y \<Longrightarrow> bytes_le y x \<Longrightarrow> x = y"
proof (induction x arbitrary: y)
  case (Cons a x)
  then show ?case by (cases y) (auto split: if_splits)
qed (metis bytes_le.elims(2) list.distinct(1))

lemma bytes_le_total: "bytes_le x y \<or> bytes_le y x"
proof (induction x arbitrary: y)
  case (Cons a x)
  then show ?case using of_char_eq_iff [where 'a = nat] by (cases y) (auto simp: neq_iff, metis nat_neq_iff of_char_eq_iff)
qed simp

lemma bytes_le_trans: "bytes_le x y \<Longrightarrow> bytes_le y z \<Longrightarrow> bytes_le x z"
proof (induction x arbitrary: y z)
  case (Cons a x)
  then obtain b y' where y: "y = b # y'" by (cases y) auto
  with Cons.prems obtain c z' where z: "z = c # z'" by (cases z) auto
  show ?case using Cons.prems Cons.IH [of y' z']
    unfolding y z by (auto split: if_splits)
qed simp

interpretation c_collation: collation bytes_le
  by (unfold_locales; (rule bytes_le_refl bytes_le_total | erule (1) bytes_le_trans bytes_le_antisym))

lemma scan_page_take: "n \<le> p \<Longrightarrow> scan_page p n rows = (take (p - n) rows, drop (Suc (p - n)) rows)"
proof (induction rows arbitrary: n)
  case (Cons r rs)
  show ?case
  proof (cases "n = p")
    case False
    with Cons show ?thesis by (auto simp: Suc_diff_le [symmetric] take_Cons' drop_Cons')
  qed simp
qed simp


lemma scan_page_limit: "scan_page p 0 (take (Suc p) xs) = (take p xs, [])"
  by (simp add: scan_page_take min_def)

lemma scan_page_arriving:
  "scan_page p 0 (arriving got (take (Suc p) xs)) = (take (case got of None \<Rightarrow> p | Some k \<Rightarrow> min k p) xs, [])"
  by (cases got) (auto simp: arriving_def scan_page_take scan_page_limit min_def)

text \<open>The namespaces a listing selects.\<close>

definition listed :: "(string \<Rightarrow> string \<Rightarrow> bool) \<Rightarrow> string list option \<Rightarrow> string list option \<Rightarrow> db \<Rightarrow> string list set" where
  "listed coll parent after d =
     {n \<in> dom (ns_map d). (case parent of None \<Rightarrow> True | Some p \<Rightarrow> take (length p) n = p) \<and>
                          (case after of None \<Rightarrow> True | Some t \<Rightarrow> \<not> array_le coll n t)}"

lemma dom_ns_map: "dom (ns_map d) = set (map ns_name (d_namespaces d))"
  by (rule set_eqI) (metis (no_types, lifting) domIff ns_map_def option.map_disc_iff sql_namespace_None)

text \<open>C26: \<open>ListNamespaces\<close> answers 200 with the first \<open>pageSize\<close> (clamped to 1..1000) of the selected
  namespaces in the order of the collation, each once, and never with a next page token, however
  many namespaces are left: the loop reads the row that would show there are more, and the test
  after the loop looks for yet another.  Where the connection breaks after some rows, the answer is
  a 200 too, with the rows that had arrived.\<close>

theorem ListNamespaces_spec:
  assumes "collation coll" "db_ok d"
  shows "\<exists>page. run (ListNamespaces coll got parent pageToken n) d =
      ((Resp 200 (Some (GObj [(''namespaces'', GArr (map name_val page))])), []), d) \<and>
    distinct page \<and> sorted_wrt (array_le coll) page \<and>
    set page \<subseteq> listed coll (token_param parent) (token_param pageToken) d \<and>
    length page = min (case got of None \<Rightarrow> nat (validatePageSize n) | Some k \<Rightarrow> min k (nat (validatePageSize n)))
      (card (listed coll (token_param parent) (token_param pageToken) d)) \<and>
    (\<forall>x \<in> set page. \<forall>y \<in> listed coll (token_param parent) (token_param pageToken) d - set page.
       array_le coll x y)"
proof -
  define P where "P = (\<lambda>n. (case token_param parent of None \<Rightarrow> True | Some p \<Rightarrow> take (length p) n = p) \<and>
      (case token_param pageToken of None \<Rightarrow> True | Some t \<Rightarrow> \<not> array_le coll n t))"
  define xs where "xs = filter P (map ns_name (d_namespaces d))"
  define page where "page = take (case got of None \<Rightarrow> nat (validatePageSize n) | Some k \<Rightarrow> min k (nat (validatePageSize n)))
      (order_by (array_le coll) xs)"
  have xs: "distinct xs" "set xs = listed coll (token_param parent) (token_param pageToken) d"
    using assms(2) by (auto simp: xs_def P_def listed_def dom_ns_map db_ok_def)
  have q: "sql_list_namespaces coll (token_param parent) (token_param pageToken) k d =
      take k (order_by (array_le coll) xs)" for k
    by (simp add: sql_list_namespaces_def xs_def P_def)
  have "run (ListNamespaces coll got parent pageToken n) d =
      ((Resp 200 (Some (GObj [(''namespaces'', GArr (map name_val page))])), []), d)"
    by (simp add: ListNamespaces_def Let_def q page_def scan_page_arriving token_member_def)
  then show ?thesis
    using collation.arrays_page_spec [OF assms(1) xs(1) page_def] unfolding xs(2) by blast
qed

theorem ListNamespaces_spec_witness:
  "\<exists>page. run (ListNamespaces bytes_le None [] [] 1)
       (empty_db\<lparr>d_namespaces := [\<lparr>ns_id = 0, ns_name = [''b''], ns_props = []\<rparr>,
                                 \<lparr>ns_id = 1, ns_name = [''a''], ns_props = []\<rparr>], d_next := 2\<rparr>) =
      ((Resp 200 (Some (GObj [(''namespaces'', GArr (map name_val page))])), []),
       empty_db\<lparr>d_namespaces := [\<lparr>ns_id = 0, ns_name = [''b''], ns_props = []\<rparr>,
                                \<lparr>ns_id = 1, ns_name = [''a''], ns_props = []\<rparr>], d_next := 2\<rparr>) \<and>
    length page \<le> 1"
proof -
  let ?d = "empty_db\<lparr>d_namespaces := [\<lparr>ns_id = 0, ns_name = [''b''], ns_props = []\<rparr>,
                                      \<lparr>ns_id = 1, ns_name = [''a''], ns_props = []\<rparr>], d_next := 2\<rparr>"
  have "db_ok ?d" by (simp add: db_ok_def empty_db_def items_ok_def)
  from ListNamespaces_spec [OF c_collation.collation_axioms this, of None "[]" "[]" 1]
  show ?thesis by (auto simp: validatePageSize_def)
qed

end
