(* ===== verification/Items.thy ===== *)
theory Items
  imports Namespaces
begin

text \<open>
  The interface the table and the view handlers share: an item store finds, inserts, renames and
  deletes rows by namespace and name.  \<open>item_store\<close> states what the SQL statements promise on a
  database that satisfies its constraints; what a sequence of statements means is proved from that.
  The interpretations \<open>tables\<close> and \<open>views\<close> are the statements of \<open>Database\<close>.
\<close>

text \<open>The statement \<open>UPDATE tables SET namespace_id = ..., name = ...\<close>, and the one on \<open>views\<close>.\<close>

definition sql_rename_table :: "nat \<Rightarrow> string \<Rightarrow> nat \<Rightarrow> string \<Rightarrow> db \<Rightarrow> sql_error + nat \<times> db" where
  "sql_rename_table ns' name' ns name d =
     map_sum id (\<lambda>(k, xs). (k, d\<lparr>d_tables := xs\<rparr>)) (sql_rename ns' name' ns name (d_tables d) d)"

definition sql_rename_view :: "nat \<Rightarrow> string \<Rightarrow> nat \<Rightarrow> string \<Rightarrow> db \<Rightarrow> sql_error + nat \<times> db" where
  "sql_rename_view ns' name' ns name d =
     map_sum id (\<lambda>(k, xs). (k, d\<lparr>d_views := xs\<rparr>)) (sql_rename ns' name' ns name (d_views d) d)"

section \<open>Finding rows\<close>

text \<open>With the constraints, the join on the name of the namespace is a look-up of its id.\<close>

lemma in_ns_iff:
  assumes "db_ok d"
  shows "in_ns ns d r \<longleftrightarrow> sql_ns_id ns d = Some (it_ns r)"
proof
  assume "in_ns ns d r"
  then obtain n where n: "n \<in> set (d_namespaces d)" "ns_id n = it_ns r" "ns_name n = ns"
    by (auto simp: in_ns_def list_ex_iff)
  then obtain m where m: "sql_namespace ns d = Some m"
    using sql_namespace_None [of ns d] by fastforce
  then have "m \<in> set (d_namespaces d)" "ns_name m = ns"
    by (auto simp: sql_namespace_def dest: find_SomeD)
  with n assms have "m = n" by (auto simp: db_ok_def distinct_map dest: inj_onD)
  with m n show "sql_ns_id ns d = Some (it_ns r)" by (simp add: sql_ns_id_def)
next
  assume "sql_ns_id ns d = Some (it_ns r)"
  then obtain m where "sql_namespace ns d = Some m" "ns_id m = it_ns r"
    by (auto simp: sql_ns_id_def)
  then show "in_ns ns d r"
    by (auto simp: sql_namespace_def in_ns_def list_ex_iff dest: find_SomeD)
qed

lemma sql_ns_id_inj: "db_ok d \<Longrightarrow> sql_ns_id ns d = Some i \<Longrightarrow> sql_ns_id ns' d = Some i \<Longrightarrow> ns' = ns"
proof -
  assume ok: "db_ok d" and "sql_ns_id ns d = Some i" "sql_ns_id ns' d = Some i"
  then obtain a b where "a \<in> set (d_namespaces d)" "b \<in> set (d_namespaces d)" "ns_id a = i" "ns_id b = i"
      "ns_name a = ns" "ns_name b = ns'"
    by (auto simp: sql_ns_id_def sql_namespace_def dest!: find_SomeD)
  with ok show "ns' = ns" by (auto simp: db_ok_def distinct_map dest: inj_onD)
qed

lemma sql_ns_id_has: "sql_ns_id ns d = Some i \<Longrightarrow> has_ns_id i d"
  by (auto simp: sql_ns_id_def sql_namespace_def has_ns_id_def list_ex_iff dest!: find_SomeD)

definition find_key :: "nat \<Rightarrow> string \<Rightarrow> item_row list \<Rightarrow> item_row option" where
  "find_key i name xs = List.find (\<lambda>r. it_ns r = i \<and> it_name r = name) xs"

lemma find_item_key:
  assumes "db_ok d"
  shows "find_item ns name xs d = (case sql_ns_id ns d of None \<Rightarrow> None | Some i \<Rightarrow> find_key i name xs)"
proof (cases "sql_ns_id ns d")
  case None
  with assms show ?thesis by (auto simp: find_item_def in_ns_iff find_None_iff)
next
  case (Some i)
  with assms have "(\<lambda>r. in_ns ns d r \<and> it_name r = name) = (\<lambda>r. it_ns r = i \<and> it_name r = name)"
    by (auto simp: in_ns_iff)
  with Some show ?thesis by (simp add: find_item_def find_key_def)
qed

lemma key_taken_find: "key_taken i name xs \<longleftrightarrow> find_key i name xs \<noteq> None"
  by (auto simp: key_taken_def find_key_def list_ex_iff find_None_iff)

lemma find_key_append:
  "find_key i name (xs @ ys) = (case find_key i name xs of None \<Rightarrow> find_key i name ys | Some r \<Rightarrow> Some r)"
  unfolding find_key_def find_append ..

lemma find_key_filter:
  "find_key i name (filter (\<lambda>r. it_ns r = j \<longrightarrow> it_name r \<noteq> n) xs) =
   (if i = j \<and> name = n then None else find_key i name xs)"
  by (induction xs) (auto simp: find_key_def)

lemma find_key_Cons:
  "find_key i name (x # xs) = (if it_ns x = i \<and> it_name x = name then Some x else find_key i name xs)"
  by (simp add: find_key_def)

lemma moved_Cons:
  "moved j n i name (x # xs) =
     (if it_ns x = i \<and> it_name x = name then x\<lparr>it_ns := j, it_name := n\<rparr> else x) # moved j n i name xs"
  by (simp add: moved_def)

lemma find_key_moved:
  assumes "find_key i name xs = Some r" "(j, n) \<noteq> (i, name) \<longrightarrow> find_key j n xs = None"
    "distinct (map item_key_of xs)"
  shows "find_key i' name' (moved j n i name xs) =
    (if (i', name') = (j, n) then Some (r\<lparr>it_ns := j, it_name := n\<rparr>)
     else if (i', name') = (i, name) then None else find_key i' name' xs)"
  using assms
proof (induction xs)
  case (Cons x xs)
  show ?case
  proof (cases "it_ns x = i \<and> it_name x = name")
    case True
    with Cons.prems(1) have r: "r = x" by (simp add: find_key_Cons)
    have gone: "\<not> (it_ns y = i \<and> it_name y = name)" if "y \<in> set xs" for y
    proof -
      have "item_key_of y \<noteq> item_key_of x"
        using Cons.prems(3) that by (metis distinct.simps(2) image_eqI list.simps(9) set_map)
      with True show ?thesis by (auto simp: item_key_of_def)
    qed
    then have m: "moved j n i name xs = xs" unfolding moved_def by (intro map_idI) auto
    have none: "find_key i name xs = None" using gone by (simp add: find_key_def find_None_iff)
    show ?thesis unfolding moved_Cons m find_key_Cons using True r none by auto
  next
    case False
    with Cons.prems have h: "find_key i name xs = Some r" "distinct (map item_key_of xs)"
        "(j, n) \<noteq> (i, name) \<longrightarrow> find_key j n xs = None"
        "(j, n) \<noteq> (i, name) \<longrightarrow> \<not> (it_ns x = j \<and> it_name x = n)"
      by (auto simp: find_key_Cons split: if_splits)
    have mv: "moved j n i name (x # xs) = x # moved j n i name xs" using False by (auto simp: moved_Cons)
    show ?thesis
    proof (cases "it_ns x = i' \<and> it_name x = name'")
      case True
      with False h(4) have "(i', name') \<noteq> (i, name)" "(i', name') \<noteq> (j, n)" by auto
      with True show ?thesis by (auto simp: mv find_key_Cons)
    next
      case False
      then have e: "find_key i' name' (x # ys) = find_key i' name' ys" for ys by (auto simp: find_key_Cons)
      show ?thesis unfolding mv e by (rule Cons.IH [OF h(1,3,2)])
    qed
  qed
qed (simp add: find_key_def)

section \<open>The interface\<close>

locale item_store =
  fixes find_row :: "string list \<Rightarrow> string \<Rightarrow> db \<Rightarrow> item_row option"
    and insert_row :: "nat \<Rightarrow> string \<Rightarrow> string \<Rightarrow> json \<Rightarrow> db \<Rightarrow> sql_error + db"
    and delete_row :: "string list \<Rightarrow> string \<Rightarrow> db \<Rightarrow> nat \<times> db"
    and rename_row :: "nat \<Rightarrow> string \<Rightarrow> nat \<Rightarrow> string \<Rightarrow> db \<Rightarrow> sql_error + nat \<times> db"
  assumes find_ns: "db_ok d \<Longrightarrow> find_row ns name d = Some r \<Longrightarrow> sql_ns_id ns d \<noteq> None"
    and insert_ok: "db_ok d \<Longrightarrow> sql_ns_id ns d = Some i \<Longrightarrow> find_row ns name d = None \<Longrightarrow>
      \<exists>d'. insert_row i name loc meta d = Inr d' \<and> ns_map d' = ns_map d \<and>
        (\<forall>ns' name'. find_row ns' name' d' =
           (if (ns', name') = (ns, name) then Some (new_item (d_next d) i name loc meta)
            else find_row ns' name' d))"
    and insert_dup: "db_ok d \<Longrightarrow> sql_ns_id ns d = Some i \<Longrightarrow> find_row ns name d \<noteq> None \<Longrightarrow>
      insert_row i name loc meta d = Inl unique_violation"
    and insert_keeps: "db_ok d \<Longrightarrow> insert_row i name loc meta d = Inr d' \<Longrightarrow> db_ok d'"
    and delete_ok: "db_ok d \<Longrightarrow> delete_row ns name d = (k, d') \<Longrightarrow>
      (0 < k) = (find_row ns name d \<noteq> None) \<and> ns_map d' = ns_map d \<and>
      (\<forall>ns' name'. find_row ns' name' d' =
         (if (ns', name') = (ns, name) then None else find_row ns' name' d))"
    and delete_keeps: "db_ok d \<Longrightarrow> delete_row ns name d = (k, d') \<Longrightarrow> db_ok d'"
    and rename_ok: "db_ok d \<Longrightarrow> sql_ns_id ns d = Some i \<Longrightarrow> sql_ns_id ns' d = Some i' \<Longrightarrow>
      find_row ns name d = Some r \<Longrightarrow> (ns', name') \<noteq> (ns, name) \<Longrightarrow> find_row ns' name' d = None \<Longrightarrow>
      \<exists>d'. rename_row i' name' i name d = Inr (1, d') \<and> ns_map d' = ns_map d \<and>
        (\<forall>n m. find_row n m d' =
           (if (n, m) = (ns', name') then Some (r\<lparr>it_ns := i', it_name := name'\<rparr>)
            else if (n, m) = (ns, name) then None else find_row n m d))"
    and rename_dup: "db_ok d \<Longrightarrow> sql_ns_id ns d = Some i \<Longrightarrow> sql_ns_id ns' d = Some i' \<Longrightarrow>
      find_row ns name d = Some r \<Longrightarrow> (ns', name') \<noteq> (ns, name) \<Longrightarrow> find_row ns' name' d \<noteq> None \<Longrightarrow>
      rename_row i' name' i name d = Inl unique_violation"
    and rename_absent: "db_ok d \<Longrightarrow> sql_ns_id ns d = Some i \<Longrightarrow> find_row ns name d = None \<Longrightarrow>
      rename_row i' name' i name d = Inr (0, d)"
    and rename_keeps: "db_ok d \<Longrightarrow> rename_row i' name' i name d = Inr (k, d') \<Longrightarrow> db_ok d'"
begin

text \<open>What a client sees of an item, by namespace and name: its metadata location and metadata.\<close>

definition catalog :: "db \<Rightarrow> string list \<times> string \<rightharpoonup> string \<times> json" where
  "catalog d = (\<lambda>(ns, name). map_option (\<lambda>r. (it_loc r, it_meta r)) (find_row ns name d))"

lemma catalog_insert:
  assumes "db_ok d" "sql_ns_id ns d = Some i" "insert_row i name loc meta d = Inr d'"
  shows "(ns, name) \<notin> dom (catalog d) \<and> catalog d' = (catalog d)((ns, name) \<mapsto> (loc, meta))"
proof -
  have "find_row ns name d = None" using insert_dup [OF assms(1,2), of name loc meta] assms(3) by fastforce
  with insert_ok [OF assms(1,2) this, of loc meta] assms(3) show ?thesis
    by (auto simp: catalog_def fun_eq_iff new_item_def)
qed

lemma catalog_delete:
  assumes "db_ok d" "delete_row ns name d = (k, d')"
  shows "catalog d' = (catalog d)((ns, name) := None)"
  using delete_ok [OF assms] by (auto simp: catalog_def fun_eq_iff)

lemma catalog_rename:
  assumes "db_ok d" "sql_ns_id ns d = Some i" "sql_ns_id ns' d = Some i'"
    "find_row ns name d = Some r" "(ns', name') \<noteq> (ns, name)" "find_row ns' name' d = None"
    "rename_row i' name' i name d = Inr (k, d')"
  shows "catalog d' = (catalog d)((ns, name) := None, (ns', name') := catalog d (ns, name))"
  using rename_ok [OF assms(1-6)] assms(7) assms(4) by (auto simp: catalog_def fun_eq_iff)

end

lemma ns_reads_cong:
  assumes "d_namespaces d' = d_namespaces d"
  shows "ns_map d' = ns_map d" "sql_ns_id ns d' = sql_ns_id ns d"
  using assms by (auto simp: ns_map_def sql_ns_id_def sql_namespace_def fun_eq_iff)

lemma find_item_after:
  assumes "d_namespaces d' = d_namespaces d" "db_ok d'"
  shows "find_item ns name ys d' = (case sql_ns_id ns d of None \<Rightarrow> None | Some i \<Rightarrow> find_key i name ys)"
  unfolding find_item_key [OF assms(2)] ns_reads_cong(2) [OF assms(1)] ..

lemma find_key_new: "find_key j m [new_item n i name loc meta] =
    (if j = i \<and> m = name then Some (new_item n i name loc meta) else None)"
  by (auto simp: find_key_def new_item_def)

lemma store_insert:
  assumes ok: "db_ok d" and i: "sql_ns_id ns d = Some i" and free: "find_key i name xs = None"
    and d': "d_namespaces d' = d_namespaces d" "db_ok d'"
  shows "find_item ns' name' (xs @ [new_item n i name loc meta]) d' =
    (if (ns', name') = (ns, name) then Some (new_item n i name loc meta) else find_item ns' name' xs d)"
proof (cases "ns' = ns")
  case True
  with i free show ?thesis
    by (simp add: find_item_after [OF d'] find_item_key [OF ok] find_key_append find_key_new split: option.split)
next
  case False
  then have "sql_ns_id ns' d \<noteq> Some i" using sql_ns_id_inj [OF ok i] by blast
  with False show ?thesis
    by (cases "sql_ns_id ns' d")
      (simp_all add: find_item_after [OF d'] find_item_key [OF ok] find_key_append find_key_new split: option.split)
qed

lemma store_delete:
  assumes ok: "db_ok d" and d': "d_namespaces d' = d_namespaces d" "db_ok d'"
    and xs': "xs' = filter (\<lambda>r. \<not> (in_ns ns d r \<and> it_name r = name)) xs"
  shows "find_item ns' name' xs' d' = (if (ns', name') = (ns, name) then None else find_item ns' name' xs d)"
proof (cases "sql_ns_id ns d")
  case None
  then have "xs' = xs" by (auto simp: xs' in_ns_iff ok)
  with None show ?thesis by (simp add: find_item_after [OF d'] find_item_key [OF ok])
next
  case (Some i)
  then have x: "xs' = filter (\<lambda>r. it_ns r = i \<longrightarrow> it_name r \<noteq> name) xs"
    by (simp add: xs' in_ns_iff ok) (auto intro!: filter_cong)
  show ?thesis
  proof (cases "ns' = ns")
    case True
    with Some show ?thesis by (simp add: find_item_after [OF d'] find_item_key [OF ok] x find_key_filter)
  next
    case False
    then have "sql_ns_id ns' d \<noteq> Some i" using sql_ns_id_inj [OF ok Some] by blast
    with False show ?thesis
      by (cases "sql_ns_id ns' d")
        (simp_all add: find_item_after [OF d'] find_item_key [OF ok] x find_key_filter)
  qed
qed

lemma store_delete_count:
  "db_ok d \<Longrightarrow> 0 < length (filter (\<lambda>r. in_ns ns d r \<and> it_name r = name) xs) \<longleftrightarrow> find_item ns name xs d \<noteq> None"
  by (auto simp: find_item_def find_None_iff filter_empty_conv)

lemma store_rename:
  assumes ok: "db_ok d" and i: "sql_ns_id ns d = Some i" "sql_ns_id ns' d = Some i'"
    and r: "find_item ns name xs d = Some r" and ne: "(ns', name') \<noteq> (ns, name)"
    and free: "find_item ns' name' xs d = None" and dist: "distinct (map item_key_of xs)"
    and d': "d_namespaces d' = d_namespaces d" "db_ok d'"
  shows "sql_rename i' name' i name xs d = Inr (1, moved i' name' i name xs) \<and>
    find_item n m (moved i' name' i name xs) d' =
      (if (n, m) = (ns', name') then Some (r\<lparr>it_ns := i', it_name := name'\<rparr>)
       else if (n, m) = (ns, name) then None else find_item n m xs d)"
proof -
  have k: "find_key i name xs = Some r" "find_key i' name' xs = None"
    using r free i by (simp_all add: find_item_key ok)
  have inj: "\<And>j. sql_ns_id n d = Some j \<Longrightarrow> j = i \<Longrightarrow> n = ns" "\<And>j. sql_ns_id n d = Some j \<Longrightarrow> j = i' \<Longrightarrow> n = ns'"
    using sql_ns_id_inj [OF ok i(1)] sql_ns_id_inj [OF ok i(2)] by auto
  have "(i', name') \<noteq> (i, name)" using k by auto
  then have "sql_rename i' name' i name xs d = Inr (1, moved i' name' i name xs)"
    using k sql_ns_id_has [OF i(2)] by (simp add: sql_rename_def key_taken_find)
  moreover have "find_item n m (moved i' name' i name xs) d' =
      (if (n, m) = (ns', name') then Some (r\<lparr>it_ns := i', it_name := name'\<rparr>)
       else if (n, m) = (ns, name) then None else find_item n m xs d)"
  proof (cases "sql_ns_id n d")
    case None
    with i have "n \<noteq> ns" "n \<noteq> ns'" by auto
    with None show ?thesis by (simp add: find_item_after [OF d'] find_item_key [OF ok])
  next
    case (Some j)
    with i inj [of j] have "j = i \<longleftrightarrow> n = ns" "j = i' \<longleftrightarrow> n = ns'" by auto
    with Some k(2) show ?thesis
      by (simp add: find_item_after [OF d'] find_item_key [OF ok] find_key_moved [OF k(1) _ dist])
  qed
  ultimately show ?thesis by blast
qed

lemma db_ok_sql_rename_table: "db_ok d \<Longrightarrow> sql_rename_table i' n' i n d = Inr (k, d') \<Longrightarrow> db_ok d'"
  by (auto simp: sql_rename_table_def map_sum_def split: sum.splits intro: db_ok_rename_table)

lemma db_ok_sql_rename_view: "db_ok d \<Longrightarrow> sql_rename_view i' n' i n d = Inr (k, d') \<Longrightarrow> db_ok d'"
  by (auto simp: sql_rename_view_def map_sum_def split: sum.splits intro: db_ok_rename_view)


lemma catalog_ok_rename_table: "catalog_ok d \<Longrightarrow> sql_rename_table i' n' i n d = Inr (k, d') \<Longrightarrow> catalog_ok d'"
  using db_ok_sql_rename_table [of d i' n' i n k d']
  by (auto simp: catalog_ok_def sql_rename_table_def map_sum_def split: sum.splits intro: rows_ok_rename)

lemma catalog_ok_rename_view: "catalog_ok d \<Longrightarrow> sql_rename_view i' n' i n d = Inr (k, d') \<Longrightarrow> catalog_ok d'"
  using db_ok_sql_rename_view [of d i' n' i n k d']
  by (auto simp: catalog_ok_def sql_rename_view_def map_sum_def split: sum.splits intro: rows_ok_rename)

section \<open>Tables and views provide it\<close>

interpretation tables: item_store sql_table sql_insert_table sql_delete_table sql_rename_table
proof (unfold_locales, goal_cases)
  case (1 d ns name r)
  then show ?case by (auto simp: sql_table_def find_item_key split: option.splits)
next
  case (2 d ns i name loc meta)
  then have free: "find_key i name (d_tables d) = None" by (simp add: sql_table_def find_item_key)
  with 2 have ins: "sql_insert_table i name loc meta d = Inr (d\<lparr>d_next := d_next d + 1,
      d_tables := d_tables d @ [new_item (d_next d) i name loc meta]\<rparr>)"
    by (simp add: sql_insert_table_def key_taken_find sql_ns_id_has)
  with 2(1) have "db_ok (d\<lparr>d_next := d_next d + 1, d_tables := d_tables d @ [new_item (d_next d) i name loc meta]\<rparr>)"
    by (rule db_ok_insert_table)
  note store_insert [OF 2(1,2) free _ this]
  moreover have "ns_map (d\<lparr>d_next := d_next d + 1,
      d_tables := d_tables d @ [new_item (d_next d) i name loc meta]\<rparr>) = ns_map d"
    by (rule ns_reads_cong) simp
  ultimately show ?case unfolding ins by (auto simp: sql_table_def)
next
  case (3 d ns i name loc meta)
  then show ?case by (simp add: sql_table_def find_item_key sql_insert_table_def key_taken_find)
next
  case (4 d i name loc meta d')
  then show ?case by (rule db_ok_insert_table)
next
  case (5 d ns name k d')
  then have d': "d_namespaces d' = d_namespaces d" "db_ok d'"
      "d_tables d' = filter (\<lambda>r. \<not> (in_ns ns d r \<and> it_name r = name)) (d_tables d)"
    by (auto simp: sql_delete_table_def drop_tables_def Let_def intro: db_ok_delete_table)
  have "k = length (filter (\<lambda>r. in_ns ns d r \<and> it_name r = name) (d_tables d))"
    using 5(2) by (simp add: sql_delete_table_def Let_def)
  then have "(0 < k) = (sql_table ns name d \<noteq> None)"
    unfolding sql_table_def by (simp only: store_delete_count [OF 5(1)])
  moreover have "sql_table ns' name' d' = (if (ns', name') = (ns, name) then None else sql_table ns' name' d)" for ns' name'
    unfolding sql_table_def by (rule store_delete [OF 5(1) d'])
  ultimately show ?case using ns_reads_cong(1) [OF d'(1)] by blast
next
  case (6 d ns name k d')
  then show ?case by (rule db_ok_delete_table)
next
  case (7 d ns i ns' i' name r name')
  let ?d' = "d\<lparr>d_tables := moved i' name' i name (d_tables d)\<rparr>"
  have dist: "distinct (map item_key_of (d_tables d))" using 7(1) by (simp add: db_ok_def items_ok_def)
  have ren: "sql_rename i' name' i name (d_tables d) d = Inr (1, moved i' name' i name (d_tables d))"
    using store_rename [OF 7(1,2,3) _ 7(5) _ dist refl 7(1)] 7(4,6) by (simp add: sql_table_def)
  then have ok: "db_ok ?d'" using 7(1) by (auto intro: db_ok_rename_table)
  have "sql_rename_table i' name' i name d = Inr (1, ?d')" using ren by (simp add: sql_rename_table_def)
  moreover have "ns_map ?d' = ns_map d" by (rule ns_reads_cong) simp
  moreover have "sql_table n m ?d' = (if (n, m) = (ns', name') then Some (r\<lparr>it_ns := i', it_name := name'\<rparr>)
       else if (n, m) = (ns, name) then None else sql_table n m d)" for n m
    using store_rename [OF 7(1,2,3) _ 7(5) _ dist _ ok] 7(4,6) by (simp add: sql_table_def)
  ultimately show ?case by blast
next
  case (8 d ns i ns' i' name r name')
  then have "find_key i name (d_tables d) = Some r" "find_key i' name' (d_tables d) \<noteq> None"
    by (simp_all add: sql_table_def find_item_key)
  moreover have "(i', name') \<noteq> (i, name)" using 8 sql_ns_id_inj by blast
  ultimately show ?case by (auto simp: sql_rename_table_def sql_rename_def key_taken_find)
next
  case (9 d ns i name i' name')
  then show ?case by (simp add: sql_rename_table_def sql_rename_def sql_table_def find_item_key key_taken_find)
next
  case (10 d i' name' i name k d')
  then show ?case by (rule db_ok_sql_rename_table)
qed

interpretation views: item_store sql_view sql_insert_view sql_delete_view sql_rename_view
proof (unfold_locales, goal_cases)
  case (1 d ns name r)
  then show ?case by (auto simp: sql_view_def find_item_key split: option.splits)
next
  case (2 d ns i name loc meta)
  then have free: "find_key i name (d_views d) = None" by (simp add: sql_view_def find_item_key)
  with 2 have ins: "sql_insert_view i name loc meta d = Inr (d\<lparr>d_next := d_next d + 1,
      d_views := d_views d @ [new_item (d_next d) i name loc meta]\<rparr>)"
    by (simp add: sql_insert_view_def key_taken_find sql_ns_id_has)
  with 2(1) have "db_ok (d\<lparr>d_next := d_next d + 1, d_views := d_views d @ [new_item (d_next d) i name loc meta]\<rparr>)"
    by (rule db_ok_insert_view)
  note store_insert [OF 2(1,2) free _ this]
  moreover have "ns_map (d\<lparr>d_next := d_next d + 1,
      d_views := d_views d @ [new_item (d_next d) i name loc meta]\<rparr>) = ns_map d"
    by (rule ns_reads_cong) simp
  ultimately show ?case unfolding ins by (auto simp: sql_view_def)
next
  case (3 d ns i name loc meta)
  then show ?case by (simp add: sql_view_def find_item_key sql_insert_view_def key_taken_find)
next
  case (4 d i name loc meta d')
  then show ?case by (rule db_ok_insert_view)
next
  case (5 d ns name k d')
  then have d': "d_namespaces d' = d_namespaces d" "db_ok d'"
      "d_views d' = filter (\<lambda>r. \<not> (in_ns ns d r \<and> it_name r = name)) (d_views d)"
    by (auto simp: sql_delete_view_def drop_views_def Let_def intro: db_ok_delete_view)
  have "k = length (filter (\<lambda>r. in_ns ns d r \<and> it_name r = name) (d_views d))"
    using 5(2) by (simp add: sql_delete_view_def Let_def)
  then have "(0 < k) = (sql_view ns name d \<noteq> None)"
    unfolding sql_view_def by (simp only: store_delete_count [OF 5(1)])
  moreover have "sql_view ns' name' d' = (if (ns', name') = (ns, name) then None else sql_view ns' name' d)" for ns' name'
    unfolding sql_view_def by (rule store_delete [OF 5(1) d'])
  ultimately show ?case using ns_reads_cong(1) [OF d'(1)] by blast
next
  case (6 d ns name k d')
  then show ?case by (rule db_ok_delete_view)
next
  case (7 d ns i ns' i' name r name')
  let ?d' = "d\<lparr>d_views := moved i' name' i name (d_views d)\<rparr>"
  have dist: "distinct (map item_key_of (d_views d))" using 7(1) by (simp add: db_ok_def items_ok_def)
  have ren: "sql_rename i' name' i name (d_views d) d = Inr (1, moved i' name' i name (d_views d))"
    using store_rename [OF 7(1,2,3) _ 7(5) _ dist refl 7(1)] 7(4,6) by (simp add: sql_view_def)
  then have ok: "db_ok ?d'" using 7(1) by (auto intro: db_ok_rename_view)
  have "sql_rename_view i' name' i name d = Inr (1, ?d')" using ren by (simp add: sql_rename_view_def)
  moreover have "ns_map ?d' = ns_map d" by (rule ns_reads_cong) simp
  moreover have "sql_view n m ?d' = (if (n, m) = (ns', name') then Some (r\<lparr>it_ns := i', it_name := name'\<rparr>)
       else if (n, m) = (ns, name) then None else sql_view n m d)" for n m
    using store_rename [OF 7(1,2,3) _ 7(5) _ dist _ ok] 7(4,6) by (simp add: sql_view_def)
  ultimately show ?case by blast
next
  case (8 d ns i ns' i' name r name')
  then have "find_key i name (d_views d) = Some r" "find_key i' name' (d_views d) \<noteq> None"
    by (simp_all add: sql_view_def find_item_key)
  moreover have "(i', name') \<noteq> (i, name)" using 8 sql_ns_id_inj by blast
  ultimately show ?case by (auto simp: sql_rename_view_def sql_rename_def key_taken_find)
next
  case (9 d ns i name i' name')
  then show ?case by (simp add: sql_rename_view_def sql_rename_def sql_view_def find_item_key key_taken_find)
next
  case (10 d i' name' i name k d')
  then show ?case by (rule db_ok_sql_rename_view)
qed

end
