(* ===== verification/Lock.thy ===== *)
theory Lock
  imports Http
begin

text \<open>
  \<open>internal/db/lock.go\<close>: \<open>WithLock\<close> runs a function in a transaction and tries again when a row
  lock could not be had in time.  The transaction is one atomic step: the function takes the
  database and gives its result and the database to commit, or an error, upon which the transaction
  is rolled back.  The other way a transaction fails is the environment's: one of its statements,
  \<open>BEGIN\<close> or \<open>COMMIT\<close> fails, and \<open>executeWithLock\<close> returns an error, which is arbitrary here.  A transaction that
  fails has no effect: a \<open>COMMIT\<close> that is carried out while its answer is lost is left out.  (The rows a transaction has
  locked cannot change before it ends, so what it read is still true when it commits: \<open>Isolation\<close> shows that nothing is
  lost by this, taking the transactions apart into their statements.)
\<close>

record lock_config =
  lc_timeout :: int
  lc_interval :: int
  lc_max_retries :: int

text \<open>\<open>WithLock\<close> returns \<open>ErrLockTimeout\<close>, wrapping the last error if there was one, or an error as it is.\<close>

datatype lock_error = ErrLockTimeout "sql_error option" | OtherError sql_error

definition lock_error_text :: "lock_error \<Rightarrow> string" where
  "lock_error_text e =
     (case e of
        ErrLockTimeout None \<Rightarrow> ''failed to acquire lock after maximum retries''
      | ErrLockTimeout (Some l) \<Rightarrow> ''failed to acquire lock after maximum retries: '' @ sqe_text l
      | OtherError x \<Rightarrow> sqe_text x)"

definition isLockTimeoutError :: "sql_error \<Rightarrow> bool" where
  "isLockTimeoutError e = (sqe_code e = ''55P03'')"

definition IsSerializationError :: "sql_error \<Rightarrow> bool" where
  "IsSerializationError e = (sqe_code e = ''40001'')"

text \<open>
  \<open>seen e\<close> is the error \<open>executeWithLock\<close> returns when the environment lets a statement fail with \<open>e\<close>:
  that depends on what the function makes of it.
\<close>

definition executeWithLock ::
    "(sql_error \<Rightarrow> sql_error) \<Rightarrow> (db \<Rightarrow> (sql_error + 'a) \<times> db) \<Rightarrow> (sql_error \<Rightarrow> 'r prog) \<Rightarrow>
     ('a \<Rightarrow> 'r prog) \<Rightarrow> 'r prog" where
  "executeWithLock seen fn failed k =
     Stmt (\<lambda>d. case fn d of (Inl e, d') \<Rightarrow> (failed e, d) | (Inr x, d') \<Rightarrow> (k x, d'))
       (\<lambda>e. failed (seen e))"

text \<open>
  The \<open>select\<close> before a retry: the interval passes, or the context ends first, with its error.
\<close>

definition pause :: "(sql_error \<Rightarrow> 'r prog) \<Rightarrow> 'r prog \<Rightarrow> 'r prog" where
  "pause cancelled p = Stmt (\<lambda>d. (p, d)) cancelled"

text \<open>\<open>attempts n\<close>: the loop of \<open>WithLock\<close> with \<open>n\<close> attempts left; the first is made at once.\<close>

fun attempts ::
    "(sql_error \<Rightarrow> sql_error) \<Rightarrow> bool \<Rightarrow> nat \<Rightarrow> sql_error option \<Rightarrow> (db \<Rightarrow> (sql_error + 'a) \<times> db) \<Rightarrow>
     (lock_error \<Rightarrow> 'r prog) \<Rightarrow> ('a \<Rightarrow> 'r prog) \<Rightarrow> 'r prog" where
  "attempts seen first 0 lastErr fn failed k = failed (ErrLockTimeout lastErr)"
| "attempts seen first (Suc n) lastErr fn failed k =
     (let try = executeWithLock seen fn
            (\<lambda>e. if isLockTimeoutError e then attempts seen False n (Some e) fn failed k
                 else failed (OtherError e)) k
      in if first then try else pause (\<lambda>e. failed (OtherError e)) try)"

definition WithLock ::
    "(sql_error \<Rightarrow> sql_error) \<Rightarrow> lock_config \<Rightarrow> (db \<Rightarrow> (sql_error + 'a) \<times> db) \<Rightarrow> (lock_error \<Rightarrow> 'r prog) \<Rightarrow> ('a \<Rightarrow> 'r prog) \<Rightarrow>
     'r prog" where
  "WithLock seen cfg fn failed k = attempts seen True (nat (lc_max_retries cfg + 1)) None fn failed k"

section \<open>Lemmas\<close>

text \<open>Without failures of the environment, one attempt decides.\<close>

lemma run_WithLock:
  assumes "0 \<le> lc_max_retries cfg" "fn d = (x, d')" "\<And>e. x = Inl e \<Longrightarrow> \<not> isLockTimeoutError e"
  shows "run (WithLock seen cfg fn failed k) d =
    (case x of Inl e \<Rightarrow> run (failed (OtherError e)) d | Inr y \<Rightarrow> run (k y) d')"
proof -
  obtain n where "nat (lc_max_retries cfg + 1) = Suc n"
    using assms(1) by (metis Suc_nat_eq_nat_zadd1 add.commute)
  with assms(2,3) show ?thesis
    by (auto simp: WithLock_def executeWithLock_def split: sum.splits)
qed

lemma safe_attempts:
  assumes "\<And>e. safe I Q (failed e)" "\<And>d x d'. I d \<Longrightarrow> fn d = (Inr x, d') \<Longrightarrow> I d' \<and> safe I Q (k x)"
  shows "safe I Q (attempts seen first n lastErr fn failed k)"
proof (induction n arbitrary: first lastErr)
  case 0
  with assms show ?case by simp
next
  case (Suc n)
  have f: "safe I Q (if isLockTimeoutError e then attempts seen False n (Some e) fn failed k
                 else failed (OtherError e))" for e
    using Suc assms(1) by simp
  have "safe I Q (executeWithLock seen fn (\<lambda>e. if isLockTimeoutError e then attempts seen False n (Some e) fn failed k
                 else failed (OtherError e)) k)"
    unfolding executeWithLock_def
    by (rule safe_Stmt) (use f assms in \<open>auto split: prod.splits sum.splits\<close>)
  with assms(1) show ?case by (auto simp: pause_def Let_def intro!: safe_Stmt)
qed

lemma safe_WithLock:
  assumes "\<And>e. safe I Q (failed e)" "\<And>d x d'. I d \<Longrightarrow> fn d = (Inr x, d') \<Longrightarrow> I d' \<and> safe I Q (k x)"
  shows "safe I Q (WithLock seen cfg fn failed k)"
  unfolding WithLock_def using assms by (rule safe_attempts)

lemma play_append: "play (as @ bs) p d = (case play as p d of (p', d') \<Rightarrow> play bs p' d')"
proof (induction as arbitrary: p d)
  case (Cons a as)
  show ?case
  proof (cases p)
    case (Done r)
    have "play bs (Done r) d = (Done r, d)" by (cases bs) auto
    with Done show ?thesis by simp
  next
    case (Stmt f g)
    with Cons show ?thesis by (auto split: option.splits prod.splits)
  qed
qed simp

lemma attempts_retry:
  assumes "isLockTimeoutError (seen e)" "fn d = (Inr x, d')" "n < m"
  shows "play (concat (replicate n [Some e, None]) @ [None]) (attempts seen True m l fn failed k) d = (k x, d')"
proof -
  have "play (concat (replicate n [Some e, None]) @ [None])
      (executeWithLock seen fn (\<lambda>e. if isLockTimeoutError e then attempts seen False j (Some e) fn failed k
          else failed (OtherError e)) k) d = (k x, d')" if "n \<le> j" for j
    using that
  proof (induction n arbitrary: j)
    case 0
    with assms show ?case by (simp add: executeWithLock_def)
  next
    case (Suc n)
    then obtain i where j: "j = Suc i" "n \<le> i" by (cases j) auto
    with Suc.IH [OF j(2)] assms(1) show ?case by (simp add: executeWithLock_def pause_def)
  qed
  moreover obtain j where "m = Suc j" "n \<le> j" using assms(3) by (cases m) auto
  ultimately show ?thesis by simp
qed

lemma attempts_give_up:
  assumes "isLockTimeoutError (seen e)"
  shows "play (Some e # concat (replicate n [None, Some e])) (attempts seen True (Suc n) l fn failed k) d =
    play [] (failed (ErrLockTimeout (Some (seen e)))) d"
proof -
  have "play (concat (replicate n [None, Some e])) (attempts seen False n (Some (seen e)) fn failed k) d =
      play [] (failed (ErrLockTimeout (Some (seen e)))) d"
  proof (induction n)
    case (Suc n)
    with assms show ?case by (simp add: executeWithLock_def pause_def)
  qed simp
  with assms show ?thesis by (simp add: executeWithLock_def)
qed

text \<open>C13: \<open>WithLock\<close> makes at most \<open>MaxRetries + 1\<close> attempts.  After \<open>n <= MaxRetries\<close> lock timeouts, an
  attempt whose function succeeds commits what the function did; when all \<open>MaxRetries + 1\<close> attempts
  time out it gives up with \<open>ErrLockTimeout\<close> and no effect; an error of another kind is returned at
  once, with no further attempt.\<close>

theorem WithLock_attempts:
  assumes "isLockTimeoutError (seen e)" "\<not> isLockTimeoutError (seen e')" "lc_max_retries cfg = int m"
    "fn d = (Inr x, d')"
  shows "(n \<le> m \<longrightarrow>
      play (concat (replicate n [Some e, None]) @ [None]) (WithLock seen cfg fn failed k) d = (k x, d')) \<and>
    play (Some e # concat (replicate m [None, Some e])) (WithLock seen cfg fn failed k) d =
      (failed (ErrLockTimeout (Some (seen e))), d) \<and>
    play [Some e'] (WithLock seen cfg fn failed k) d = (failed (OtherError (seen e')), d)"
proof -
  have m: "nat (lc_max_retries cfg + 1) = Suc m" using assms(3) by simp
  have other: "play [Some e'] (attempts seen True (Suc m) None fn failed k) d = (failed (OtherError (seen e')), d)"
    using assms(2) by (simp add: executeWithLock_def)
  have give_up: "play (Some e # concat (replicate m [None, Some e]))
      (attempts seen True (Suc m) None fn failed k) d = (failed (ErrLockTimeout (Some (seen e))), d)"
    unfolding attempts_give_up [where seen = seen, OF assms(1)] by simp
  show ?thesis unfolding WithLock_def m
    by (intro conjI impI other give_up) (rule attempts_retry [where fn = fn and seen = seen, OF assms(1) assms(4)], simp)
qed

theorem WithLock_attempts_witness:
  "play [Some \<lparr>sqe_code = ''55P03'', sqe_text = ''t''\<rparr>, None, None]
     (WithLock (\<lambda>e. e) \<lparr>lc_timeout = 1, lc_interval = 1, lc_max_retries = 2\<rparr> (\<lambda>d. (Inr (5::nat), d\<lparr>d_next := 9\<rparr>))
        (\<lambda>e. Done 0) Done) empty_db = (Done 5, empty_db\<lparr>d_next := 9\<rparr>)"
  using WithLock_attempts [of "\<lambda>e. e" "\<lparr>sqe_code = ''55P03'', sqe_text = ''t''\<rparr>" "\<lparr>sqe_code = ''23505'', sqe_text = ''''\<rparr>"
      "\<lparr>lc_timeout = 1, lc_interval = 1, lc_max_retries = 2\<rparr>" 2 "\<lambda>d. (Inr (5::nat), d\<lparr>d_next := 9\<rparr>)"
      empty_db 5 "empty_db\<lparr>d_next := 9\<rparr>" 1 "\<lambda>e. Done 0" Done]
  by (simp add: isLockTimeoutError_def)

end
