(* ===== verification/Tables.thy ===== *)
theory Tables
  imports Items Lock
begin

text \<open>
  \<open>internal/api/handlers/table.go\<close>: the table handlers, the commit requirements, and the commit
  itself, which runs the update processor on the metadata of a locked row.  The id a new table gets
  (\<open>uuid.New\<close>) and the time (\<open>time.Now\<close>, in milliseconds) are arguments.  Metadata is stored as the
  JSON text \<open>encode\<close> prints and read back by \<open>decode_any\<close>.

  A commit is one atomic step: the error it may end with is that of the whole transaction.  The code
  ignores the errors of the query for the namespace and of the insert into \<open>commit_log\<close>; a statement that
  failed aborts the transaction, so such an error comes back as that of \<open>COMMIT\<close>, with no effect either.
\<close>

section \<open>Requests\<close>

record create_table_req =
  ct_name :: string
  ct_location :: string
  ct_schema :: "gobj option"
  ct_spec :: "gobj option"
  ct_order :: "gobj option"
  ct_stage :: bool
  ct_properties :: "(string, string) gomap option"

record requirement =
  rq_type :: string
  rq_ref :: string
  rq_uuid :: string
  rq_snapshot :: "int option"
  rq_field :: "int option"
  rq_schema :: "int option"
  rq_partition :: "int option"
  rq_spec :: "int option"
  rq_order :: "int option"

record commit_table_req =
  cm_requirements :: "requirement list"
  cm_updates :: "raw_update list"

record item_ident =
  id_namespace :: "string list"
  id_name :: string

record rename_req =
  rn_source :: item_ident
  rn_destination :: item_ident

record register_req =
  rg_name :: string
  rg_location :: string

record catalog_config =
  cc_warehouse :: string
  cc_lock :: lock_config

section \<open>Requirements\<close>

text \<open>\<open>metadata[key].(float64)\<close>, converted to an integer.\<close>

definition float_int :: "gobj \<Rightarrow> string \<Rightarrow> int option" where
  "float_int m key = (case mget m key of Some (GFloat f) \<Rightarrow> Some (f64_to_int f) | _ \<Rightarrow> None)"

text \<open>\<open>if !ok { return req.F == nil }; return req.F != nil && int(x) == *req.F\<close>\<close>

definition int_matches :: "int option \<Rightarrow> int option \<Rightarrow> bool" where
  "int_matches have want = (case have of None \<Rightarrow> want = None | Some i \<Rightarrow> want = Some i)"

definition validateRequirement :: "gobj \<Rightarrow> requirement \<Rightarrow> bool" where
  "validateRequirement m req =
     (if rq_type req = ''assert-create'' then True
      else if rq_type req = ''assert-table-uuid'' then mget m ''table-uuid'' = Some (GStr (rq_uuid req))
      else if rq_type req = ''assert-ref-snapshot-id''
        then (case mget m ''refs'' of
                Some (GObj refs) \<Rightarrow>
                  (case mget refs (rq_ref req) of
                     Some (GObj ref) \<Rightarrow> int_matches (float_int ref ''snapshot-id'') (rq_snapshot req)
                   | _ \<Rightarrow> rq_snapshot req = None)
              | _ \<Rightarrow> rq_snapshot req = None)
      else if rq_type req = ''assert-last-assigned-field-id''
        then int_matches (float_int m ''last-column-id'') (rq_field req)
      else if rq_type req = ''assert-current-schema-id''
        then int_matches (float_int m ''current-schema-id'') (rq_schema req)
      else if rq_type req = ''assert-last-assigned-partition-id'' then True
      else if rq_type req = ''assert-default-spec-id''
        then int_matches (float_int m ''default-spec-id'') (rq_spec req)
      else if rq_type req = ''assert-default-sort-order-id''
        then int_matches (float_int m ''default-sort-order-id'') (rq_order req)
      else True)"

definition getMetadataVersion :: "string \<Rightarrow> int" where
  "getMetadataVersion location = 0"

section \<open>Locations and metadata\<close>

text \<open>\<open>s[:8]\<close>, which panics on a shorter string.\<close>

definition first8 :: "string \<Rightarrow> string option" where
  "first8 s = (if 8 \<le> length s then Some (take 8 s) else None)"

definition slice_panic :: string where
  "slice_panic = ''slice bounds out of range''"

text \<open>\<open>fmt.Sprintf("%s/metadata/%05d-%.10d-%s.metadata.json", ...)\<close>\<close>

definition metadata_location :: "string \<Rightarrow> int \<Rightarrow> int \<Rightarrow> string \<Rightarrow> string" where
  "metadata_location location version now uuid8 =
     location @ ''/metadata/'' @ show_int_width 5 version @ ''-'' @ show_int_prec 10 now @ ''-'' @ uuid8 @
     ''.metadata.json''"

definition scan_error :: string where
  "scan_error = ''cannot scan into *map[string]interface {}''"

definition load_response :: "string \<Rightarrow> gobj \<Rightarrow> response" where
  "load_response loc m = Resp 200 (Some (GObj [(''metadata-location'', GStr loc), (''metadata'', GObj m)]))"

fun last_column :: "int \<Rightarrow> gval list \<Rightarrow> int" where
  "last_column mx [] = mx"
| "last_column mx (x # xs) =
     last_column (case x of
                    GObj f \<Rightarrow> (case float_int f ''id'' of Some i \<Rightarrow> (if i > mx then i else mx) | None \<Rightarrow> mx)
                  | _ \<Rightarrow> mx) xs"

text \<open>A nil map in an \<open>any\<close> is printed as \<open>null\<close>.\<close>

definition map_or_null :: "gobj option \<Rightarrow> gval" where
  "map_or_null v = (case v of None \<Rightarrow> GNil | Some x \<Rightarrow> GObj x)"

definition strmap_or_null :: "(string, string) gomap option \<Rightarrow> gval" where
  "strmap_or_null v = (case v of None \<Rightarrow> GNil | Some x \<Rightarrow> props_val x)"

definition new_table_metadata :: "create_table_req \<Rightarrow> gobj \<Rightarrow> string \<Rightarrow> string \<Rightarrow> int \<Rightarrow> gobj" where
  "new_table_metadata req schema uuid location now =
     [(''format-version'', GInt 2),
      (''table-uuid'', GStr uuid),
      (''location'', GStr location),
      (''last-updated-ms'', GInt64 now),
      (''last-column-id'', GInt (case getSlice schema ''fields'' of Some fs \<Rightarrow> last_column 0 fs | None \<Rightarrow> 0)),
      (''properties'', strmap_or_null (ct_properties req)),
      (''schemas'', GArr [GObj schema]),
      (''current-schema-id'', GInt 0),
      (''partition-specs'', GArr [map_or_null (ct_spec req)]),
      (''default-spec-id'', GInt 0),
      (''sort-orders'', GArr [map_or_null (ct_order req)]),
      (''default-sort-order-id'', GInt 0),
      (''snapshots'', GArr []),
      (''snapshot-log'', GArr []),
      (''refs'', GObj [])]"

section \<open>Handlers\<close>

definition ident_val :: "string list \<Rightarrow> string \<Rightarrow> gval" where
  "ident_val ns name = GObj [(''namespace'', name_val ns), (''name'', GStr name)]"

text \<open>The query of \<open>ListTables\<close> (and \<open>ListViews\<close>): the names of the rows of a namespace, after the token.\<close>

definition sql_list_items ::
    "(string \<Rightarrow> string \<Rightarrow> bool) \<Rightarrow> string list \<Rightarrow> string \<Rightarrow> nat \<Rightarrow> item_row list \<Rightarrow> db \<Rightarrow> string list" where
  "sql_list_items coll ns after limit xs d =
     take limit (order_by coll
       (filter (\<lambda>n. after = [] \<or> \<not> coll n after) (map it_name (filter (in_ns ns d) xs))))"

text \<open>The answer where no row was found: which of the two is missing.\<close>

definition missing_or :: "string list \<Rightarrow> response \<Rightarrow> outcome prog" where
  "missing_or ns notFound =
     query (sql_ns_exists ns)
       (\<lambda>e. reply (namespaceNotFound ns))
       (\<lambda>x. reply (if x then notFound else namespaceNotFound ns))"

definition ListTables :: "(string \<Rightarrow> string \<Rightarrow> bool) \<Rightarrow> nat option \<Rightarrow> string \<Rightarrow> string \<Rightarrow> int \<Rightarrow> outcome prog" where
  "ListTables coll got param pageToken pageSizeParam =
     (let namespaceName = parseNamespace param; pageSize = nat (validatePageSize pageSizeParam) in
      query (\<lambda>d. sql_list_items coll namespaceName pageToken (pageSize + 1) (d_tables d) d)
        (\<lambda>e. reply (internalError ''failed to list tables'' (sqe_text e)))
        (\<lambda>rows.
          let (names, left) = scan_page pageSize 0 (arriving got rows);
              lastName = (if names = [] then [] else last names);
              answer = reply (Resp 200 (Some (GObj ((''identifiers'', GArr (map (ident_val namespaceName) names)) #
                         token_member (if left \<noteq> [] then lastName else [])))))
          in if names = []
             then query (sql_ns_exists namespaceName)
                    (\<lambda>e. reply (internalError ''failed to check namespace'' (sqe_text e)))
                    (\<lambda>x. if x then answer else reply (namespaceNotFound namespaceName))
             else answer))"

definition CreateTable :: "catalog_config \<Rightarrow> string \<Rightarrow> int \<Rightarrow> string \<Rightarrow> create_table_req option \<Rightarrow> outcome prog" where
  "CreateTable cfg uuid now param body =
     (let namespaceName = parseNamespace param in
      case body of
        None \<Rightarrow> reply (badRequest ''invalid request body'')
      | Some req \<Rightarrow>
          if ct_name req = [] then reply (badRequest ''table name is required'')
          else (case ct_schema req of
            None \<Rightarrow> reply (badRequest ''schema is required'')
          | Some schema \<Rightarrow>
              query (sql_ns_id namespaceName)
                (\<lambda>e. reply (internalError ''failed to get namespace'' (sqe_text e)))
                (\<lambda>r. case r of
                   None \<Rightarrow> reply (namespaceNotFound namespaceName)
                 | Some namespaceID \<Rightarrow>
                     let location = (if ct_location req = []
                           then trim_suffix ''/'' (cc_warehouse cfg) @ ''/'' @ join_with ''/'' namespaceName @
                                ''/'' @ ct_name req
                           else ct_location req);
                         metadata = new_table_metadata req schema uuid location now
                     in (case first8 uuid of
                           None \<Rightarrow> Done (Crash slice_panic, [])
                         | Some u8 \<Rightarrow>
                             let metadataLocation = metadata_location location 0 now u8 in
                             exec (\<lambda>d. map_sum id (Pair ())
                                     (sql_insert_table namespaceID (ct_name req) metadataLocation
                                        (encode (GObj metadata)) d))
                               (\<lambda>e. reply (if IsDuplicateError e
                                  then alreadyExistsError ''Table'' (dotted namespaceName @ ''.'' @ ct_name req)
                                  else internalError ''failed to create table'' (sqe_text e)))
                               (\<lambda>_. Done (load_response metadataLocation metadata,
                                  [Metric ''table_created'' [dotted namespaceName]]))))))"

definition LoadTable :: "string \<Rightarrow> string \<Rightarrow> outcome prog" where
  "LoadTable param tableName =
     (let namespaceName = parseNamespace param in
      query (sql_table namespaceName tableName)
        (\<lambda>e. reply (internalError ''failed to get table'' (sqe_text e)))
        (\<lambda>r. case r of
           None \<Rightarrow> missing_or namespaceName (tableNotFound namespaceName tableName)
         | Some row \<Rightarrow>
             (case load_meta (it_meta row) of
                None \<Rightarrow> reply (internalError ''failed to get table'' scan_error)
              | Some m \<Rightarrow> reply (load_response (it_loc row) m))))"

definition DropTable :: "string \<Rightarrow> string \<Rightarrow> outcome prog" where
  "DropTable param tableName =
     (let namespaceName = parseNamespace param in
      exec (\<lambda>d. Inr (sql_delete_table namespaceName tableName d))
        (\<lambda>e. reply (internalError ''failed to delete table'' (sqe_text e)))
        (\<lambda>n. if n = 0 then missing_or namespaceName (tableNotFound namespaceName tableName)
             else Done (Resp 204 None, [Metric ''table_dropped'' [dotted namespaceName]])))"

definition TableExists :: "string \<Rightarrow> string \<Rightarrow> outcome prog" where
  "TableExists param tableName =
     query (\<lambda>d. sql_table (parseNamespace param) tableName d \<noteq> None)
       (\<lambda>e. reply (internalError ''failed to check table'' (sqe_text e)))
       (\<lambda>x. reply (Resp (if x then 204 else 404) None))"

definition RegisterTable :: "string \<Rightarrow> int \<Rightarrow> string \<Rightarrow> register_req option \<Rightarrow> outcome prog" where
  "RegisterTable uuid now param body =
     (let namespaceName = parseNamespace param in
      case body of
        None \<Rightarrow> reply (badRequest ''invalid request body'')
      | Some req \<Rightarrow>
          if rg_name req = [] then reply (badRequest ''table name is required'')
          else if rg_location req = [] then reply (badRequest ''metadata-location is required'')
          else
            query (sql_ns_id namespaceName)
              (\<lambda>e. reply (internalError ''failed to get namespace'' (sqe_text e)))
              (\<lambda>r. case r of
                 None \<Rightarrow> reply (namespaceNotFound namespaceName)
               | Some namespaceID \<Rightarrow>
                   let metadata = [(''format-version'', GInt 2), (''table-uuid'', GStr uuid),
                         (''location'', GStr (trim_suffix ''/metadata'' (rg_location req))),
                         (''last-updated-ms'', GInt64 now)]
                   in exec (\<lambda>d. map_sum id (Pair ())
                              (sql_insert_table namespaceID (rg_name req) (rg_location req)
                                 (encode (GObj metadata)) d))
                        (\<lambda>e. reply (if IsDuplicateError e
                           then alreadyExistsError ''Table'' (dotted namespaceName @ ''.'' @ rg_name req)
                           else internalError ''failed to register table'' (sqe_text e)))
                        (\<lambda>_. reply (load_response (rg_location req) metadata))))"

definition RenameTable :: "rename_req option \<Rightarrow> outcome prog" where
  "RenameTable body =
     (case body of
        None \<Rightarrow> reply (badRequest ''invalid request body'')
      | Some req \<Rightarrow>
          let src = rn_source req; dst = rn_destination req in
          query (sql_ns_id (id_namespace src))
            (\<lambda>e. reply (internalError ''failed to get source namespace'' (sqe_text e)))
            (\<lambda>r. case r of
               None \<Rightarrow> reply (namespaceNotFound (id_namespace src))
             | Some sourceNamespaceID \<Rightarrow>
                 query (sql_ns_id (id_namespace dst))
                   (\<lambda>e. reply (internalError ''failed to get destination namespace'' (sqe_text e)))
                   (\<lambda>r'. case r' of
                      None \<Rightarrow> reply (namespaceNotFound (id_namespace dst))
                    | Some destNamespaceID \<Rightarrow>
                        exec (sql_rename_table destNamespaceID (id_name dst) sourceNamespaceID (id_name src))
                          (\<lambda>e. reply (if IsDuplicateError e
                             then alreadyExistsError ''Table'' (dotted (id_namespace dst) @ ''.'' @ id_name dst)
                             else internalError ''failed to rename table'' (sqe_text e)))
                          (\<lambda>n. reply (if n = 0 then tableNotFound (id_namespace src) (id_name src)
                                     else Resp 204 None)))))"

section \<open>Committing to a table\<close>

text \<open>
  What the locked function leaves behind: the response, or the error in \<open>commitErr\<close>, or a panic
  (the deferred \<open>Rollback\<close> undoes the transaction).
\<close>

datatype commit_result = Committed string gobj | CommitErr string | CommitPanic string

definition apply_error_text :: "apply_result \<Rightarrow> string" where
  "apply_error_text r =
     (case r of ParseError e \<Rightarrow> e | UpdateFailed e \<Rightarrow> UpdateError_Error e | _ \<Rightarrow> [])"

text \<open>The updates, applied to a copy of the metadata.\<close>

definition updated_metadata :: "raw_update list \<Rightarrow> gobj \<Rightarrow> commit_result + gobj" where
  "updated_metadata ups m =
     (if ups = [] then Inr m
      else (case NewProcessor m of
        None \<Rightarrow> Inl (CommitPanic ''assignment to entry in nil map'')
      | Some m0 \<Rightarrow>
          (case Apply ups m0 of
             (ApplyOk, m1) \<Rightarrow> Inr m1
           | (Panicked, m1) \<Rightarrow> Inl (CommitPanic ''interface conversion'')
           | (r, m1) \<Rightarrow> Inl (CommitErr (''update_failed:'' @ apply_error_text r)))))"

definition commit_row :: "commit_table_req \<Rightarrow> int \<Rightarrow> item_row \<Rightarrow> db \<Rightarrow> (sql_error + commit_result) \<times> db" where
  "commit_row req now row d =
     (case load_meta (it_meta row) of
        None \<Rightarrow> (Inl \<lparr>sqe_code = [], sqe_text = ''failed to get table: '' @ scan_error\<rparr>, d)
      | Some metadata \<Rightarrow>
     (case List.find (\<lambda>r. \<not> validateRequirement metadata r) (cm_requirements req) of
        Some r \<Rightarrow> (Inr (CommitErr (''requirement_failed:'' @ rq_type r)), d)
      | None \<Rightarrow>
     (case updated_metadata (cm_updates req) metadata of
        Inl err \<Rightarrow> (Inr err, d)
      | Inr m1 \<Rightarrow>
          let m2 = mput m1 ''last-updated-ms'' (GInt64 now) in
     (case getStringFromMap m2 ''table-uuid'' of
        None \<Rightarrow> (Inl \<lparr>sqe_code = [], sqe_text = ''invalid metadata: missing table-uuid''\<rparr>, d)
      | Some tableUUID \<Rightarrow>
     (case getStringFromMap m2 ''location'' of
        None \<Rightarrow> (Inl \<lparr>sqe_code = [], sqe_text = ''invalid metadata: missing location''\<rparr>, d)
      | Some location \<Rightarrow>
     (case first8 tableUUID of
        None \<Rightarrow> (Inr (CommitPanic slice_panic), d)
      | Some u8 \<Rightarrow>
          let newLocation = metadata_location location (getMetadataVersion (it_loc row) + 1) now u8;
              d1 = sql_update_table (it_id row) newLocation (encode (GObj m2)) (it_loc row) d;
              d2 = sql_log_commit (it_id row) newLocation d1
          in (Inr (Committed newLocation m2), d2)))))))"

definition commit_tx ::
    "string list \<Rightarrow> string \<Rightarrow> commit_table_req \<Rightarrow> int \<Rightarrow> db \<Rightarrow> (sql_error + commit_result) \<times> db" where
  "commit_tx namespaceName tableName req now d =
     (case sql_table namespaceName tableName d of
        None \<Rightarrow>
          (Inr (CommitErr (if sql_ns_exists namespaceName d then ''table_not_found'' else ''namespace_not_found'')), d)
      | Some row \<Rightarrow> commit_row req now row d)"

definition commit_failed :: "string \<Rightarrow> response" where
  "commit_failed message = Resp 409 (Some (error_body message ''CommitFailedException'' 409))"

text \<open>The answer to a business error, told apart by the text of the error.\<close>

definition commit_error_response :: "string list \<Rightarrow> string \<Rightarrow> string \<Rightarrow> response option" where
  "commit_error_response namespaceName tableName errStr =
     (if errStr = ''namespace_not_found'' then Some (namespaceNotFound namespaceName)
      else if errStr = ''table_not_found'' then Some (tableNotFound namespaceName tableName)
      else if has_prefix ''requirement_failed:'' errStr
        then Some (commit_failed (''Requirement failed: '' @ trim_prefix ''requirement_failed:'' errStr))
      else if has_prefix ''update_failed:'' errStr
        then Some (badRequest (''Update failed: '' @ trim_prefix ''update_failed:'' errStr))
      else None)"

definition CommitTable :: "catalog_config \<Rightarrow> int \<Rightarrow> string \<Rightarrow> string \<Rightarrow> commit_table_req option \<Rightarrow> outcome prog" where
  "CommitTable cfg now param tableName body =
     (let namespaceName = parseNamespace param;
          done = (\<lambda>resp. Done (resp, [Metric ''table_commit'' [dotted namespaceName, tableName]])) in
      case body of
        None \<Rightarrow> reply (badRequest ''invalid request body'')
      | Some req \<Rightarrow>
          WithLock (\<lambda>e. e) (cc_lock cfg) (commit_tx namespaceName tableName req now)
            (\<lambda>e. case e of
               ErrLockTimeout _ \<Rightarrow>
                 reply (commit_failed ''Failed to acquire lock: concurrent modification in progress'')
             | OtherError x \<Rightarrow> reply (internalError ''failed to commit table'' (sqe_text x)))
            (\<lambda>res. case res of
               Committed loc m \<Rightarrow> done (load_response loc m)
             | CommitErr errStr \<Rightarrow>
                 (case commit_error_response namespaceName tableName errStr of
                    Some resp \<Rightarrow> reply resp
                  | None \<Rightarrow> done (Resp 200 (Some (GObj [(''metadata-location'', GStr []), (''metadata'', GNil)]))))
             | CommitPanic p \<Rightarrow> Done (Crash p, [])))"


section \<open>Lemmas\<close>

lemma safe_missing_or: "answered (r, []) \<Longrightarrow> safe I answered (missing_or ns r)"
  by (auto simp: missing_or_def intro!: safe_query safe_Done)

lemma answered_load [simp]: "answered (load_response loc m, effs)" "answered (commit_failed s, effs)"
  by (simp_all add: load_response_def commit_failed_def)

lemma safe_ListTables: "safe I answered (ListTables coll got p tok n)"
  by (auto simp: ListTables_def Let_def split: prod.splits intro!: safe_query safe_Done)

lemma last_column_range: "in_int64 mx \<Longrightarrow> in_int64 (last_column mx xs)"
proof (induction xs arbitrary: mx)
  case (Cons x xs)
  have "in_int64 i" if "float_int f ''id'' = Some i" for f i
    using that f64_to_int_range by (auto simp: float_int_def split: option.splits gval.splits)
  with Cons show ?case by (auto split: gval.splits option.splits)
qed simp

text \<open>A create request as \<open>BodyParser\<close> makes it: its objects come from JSON.\<close>

definition create_req_ok :: "create_table_req \<Rightarrow> bool" where
  "create_req_ok req \<longleftrightarrow> st_opt (ct_schema req) \<and> st_opt (ct_spec req) \<and> st_opt (ct_order req) \<and>
     (case ct_properties req of None \<Rightarrow> True | Some ps \<Rightarrow> wf_gomap ps)"

lemma storable_null: "st_opt v \<Longrightarrow> storable (map_or_null v)"
  by (cases v) (simp_all add: map_or_null_def del: storable.simps(8))

lemma storable_props: "wf_gomap ps \<Longrightarrow> storable (props_val ps)"
  by (auto simp: props_val_def list_all_iff wf_gomap_def mkeys_def comp_def)

lemma storable_strmap: "(case v of None \<Rightarrow> True | Some ps \<Rightarrow> wf_gomap ps) \<Longrightarrow> storable (strmap_or_null v)"
  by (cases v) (auto simp: strmap_or_null_def intro: storable_props)

lemma st_new_table_metadata:
  assumes "create_req_ok req" "ct_schema req = Some schema" "in_int64 now"
  shows "st (new_table_metadata req schema uuid location now)"
  using assms storable_null [of "ct_spec req"] storable_null [of "ct_order req"]
    storable_strmap [of "ct_properties req"] last_column_range [OF in_int64_0]
  by (auto simp: create_req_ok_def new_table_metadata_def wf_gomap_def mkeys_def in_int64_def min_int64_def
      max_int64_def split: option.splits)

lemma metadata_ok_new_table:
  assumes "create_req_ok req" "ct_schema req = Some schema" "in_int64 now" "8 \<le> length uuid"
  shows "metadata_ok ''table-uuid'' (encode (GObj (new_table_metadata req schema uuid location now)))"
  by (rule metadata_ok_encode [OF st_new_table_metadata [OF assms(1-3)] _ assms(4)])
    (simp_all add: new_table_metadata_def getString_def)

lemma safe_CreateTable:
  assumes "in_int64 now" "8 \<le> length uuid" "case body of None \<Rightarrow> True | Some req \<Rightarrow> create_req_ok req"
  shows "safe catalog_ok answered (CreateTable cfg uuid now p body)"
  using assms(2,3)
  by (auto simp: CreateTable_def Let_def first8_def simp del: encode.simps split: option.splits
      intro!: safe_Done safe_query safe_exec)
    (blast intro: catalog_ok_insert_table metadata_ok_new_table assms(1))+

lemma safe_LoadTable: "safe I answered (LoadTable p t)"
  by (auto simp: LoadTable_def Let_def split: option.splits intro!: safe_Done safe_query safe_missing_or)

lemma safe_DropTable: "safe catalog_ok answered (DropTable p t)"
  by (auto simp: DropTable_def Let_def intro!: safe_Done safe_exec safe_missing_or)
    (blast intro: catalog_ok_delete_table)+

lemma safe_TableExists: "safe I answered (TableExists p t)"
  by (auto simp: TableExists_def intro!: safe_Done safe_query)

lemma metadata_ok_register:
  assumes "in_int64 now" "8 \<le> length uuid"
  shows "metadata_ok ''table-uuid'' (encode (GObj [(''format-version'', GInt 2), (''table-uuid'', GStr uuid),
      (''location'', GStr location), (''last-updated-ms'', GInt64 now)]))"
  by (rule metadata_ok_encode [OF _ _ assms(2)])
    (use assms in \<open>simp_all add: wf_gomap_def mkeys_def getString_def in_int64_def min_int64_def max_int64_def\<close>)

lemma safe_RegisterTable:
  assumes "in_int64 now" "8 \<le> length uuid"
  shows "safe catalog_ok answered (RegisterTable uuid now p body)"
  by (auto simp: RegisterTable_def Let_def simp del: encode.simps split: option.splits
      intro!: safe_Done safe_query safe_exec)
    (blast intro: catalog_ok_insert_table metadata_ok_register [OF assms])+

lemma safe_RenameTable: "safe catalog_ok answered (RenameTable body)"
  by (auto simp: RenameTable_def Let_def split: option.splits intro!: safe_Done safe_query safe_exec)
    (blast intro: catalog_ok_rename_table)+

text \<open>What a commit does to the database: nothing, unless it gets to the end.\<close>

lemma commit_row_cases:
  assumes "commit_row req now row d = (x, d')"
  obtains (unchanged) "d' = d" "\<And>loc m. x \<noteq> Inr (Committed loc m)"
  | (committed) m0 m1 u8 tableUUID location newLoc where
      "load_meta (it_meta row) = Some m0" "List.find (\<lambda>r. \<not> validateRequirement m0 r) (cm_requirements req) = None"
      "updated_metadata (cm_updates req) m0 = Inr m1"
      "getStringFromMap (mput m1 ''last-updated-ms'' (GInt64 now)) ''table-uuid'' = Some tableUUID"
      "getStringFromMap (mput m1 ''last-updated-ms'' (GInt64 now)) ''location'' = Some location"
      "first8 tableUUID = Some u8"
      "newLoc = metadata_location location (getMetadataVersion (it_loc row) + 1) now u8"
      "x = Inr (Committed newLoc (mput m1 ''last-updated-ms'' (GInt64 now)))"
      "d' = sql_log_commit (it_id row) newLoc
              (sql_update_table (it_id row) newLoc (encode (GObj (mput m1 ''last-updated-ms'' (GInt64 now))))
                 (it_loc row) d)"
proof (cases "load_meta (it_meta row)")
  case None
  with assms show ?thesis by (intro unchanged) (auto simp: commit_row_def)
next
  case m0: (Some m0)
  show ?thesis
  proof (cases "List.find (\<lambda>r. \<not> validateRequirement m0 r) (cm_requirements req)")
    case (Some r)
    with assms m0 show ?thesis by (intro unchanged) (auto simp: commit_row_def)
  next
    case reqs: None
    show ?thesis
    proof (cases "updated_metadata (cm_updates req) m0")
      case (Inl err)
      then have "\<nexists>loc m. err = Committed loc m"
        by (auto simp: updated_metadata_def split: if_splits option.splits prod.splits apply_result.splits)
      with Inl assms m0 reqs show ?thesis by (intro unchanged) (auto simp: commit_row_def)
    next
      case m1: (Inr m1)
      let ?m = "mput m1 ''last-updated-ms'' (GInt64 now)"
      consider "getStringFromMap ?m ''table-uuid'' = None"
        | u where "getStringFromMap ?m ''table-uuid'' = Some u" "getStringFromMap ?m ''location'' = None"
        | u l where "getStringFromMap ?m ''table-uuid'' = Some u" "getStringFromMap ?m ''location'' = Some l"
            "first8 u = None"
        | u l e where "getStringFromMap ?m ''table-uuid'' = Some u" "getStringFromMap ?m ''location'' = Some l"
            "first8 u = Some e"
        by (metis option.exhaust)
      then show ?thesis
      proof cases
        case (4 u l e)
        with assms m0 reqs m1 show ?thesis
          by (intro committed [OF m0 reqs m1 4 refl]) (auto simp: commit_row_def Let_def)
      qed (use assms m0 reqs m1 in \<open>auto simp: commit_row_def Let_def intro!: unchanged\<close>)
    qed
  qed
qed

lemma sql_table_row: "sql_table ns name d = Some row \<Longrightarrow> row \<in> set (d_tables d) \<and> it_name row = name"
  by (auto simp: sql_table_def find_item_def dest: find_SomeD)

lemma NewProcessor_loaded: "load_meta j = Some m \<Longrightarrow> NewProcessor m = Some m"
proof -
  assume "load_meta j = Some m"
  then have "decode_any j = Some (GObj m)" by (auto simp: load_meta_def split: option.splits gval.splits)
  then have "decoded (GObj m)" by (rule decode_decoded)
  then show ?thesis by (simp add: NewProcessor_def deepCopyMap_def decode_encode del: encode.simps decode_any.simps)
qed

lemma handle_location:
  assumes h: "handle u m = (e, m')" and l: "getString m ''location'' \<noteq> None"
  shows "getString m' ''location'' \<noteq> None"
proof (cases "''location'' \<in> set (touches u)")
  case True
  then obtain s where "u = SetLocation s" by (cases u) auto
  with h l show ?thesis by (auto simp: applySetLocation_def split: if_splits)
next
  case False
  from handle_frame [OF h False] l show ?thesis by (simp add: getString_def)
qed

interpretation keep_location: update_steps "\<lambda>m m'. getString m ''location'' \<noteq> None \<longrightarrow> getString m' ''location'' \<noteq> None"
  by unfold_locales (use handle_location in blast)+

text \<open>The updates of a commit keep what makes the metadata of a row good.\<close>

lemma updated_metadata_ok:
  assumes m0: "load_meta j = Some m0" and u: "updated_metadata ups m0 = Inr m1"
    and uuid: "getString m0 ''table-uuid'' = Some w" "w \<noteq> []" and loc: "getString m0 ''location'' \<noteq> None"
  shows "st m1 \<and> getString m1 ''table-uuid'' = Some w \<and> getString m1 ''location'' \<noteq> None"
proof (cases "ups = []")
  case True
  with u uuid loc load_meta_st [OF m0] show ?thesis by (simp add: updated_metadata_def del: storable.simps)
next
  case False
  with u NewProcessor_loaded [OF m0] have a: "Apply ups m0 = (ApplyOk, m1)"
    by (auto simp: updated_metadata_def split: prod.splits apply_result.splits)
  from st_Apply [OF a load_meta_st [OF m0]] keep_uuid.Apply_steps [OF a, of w] keep_location.Apply_steps [OF a]
    uuid loc show ?thesis by (simp add: uuid_set_def del: storable.simps)
qed

text \<open>A commit to a good row does not panic, and what it writes is good.\<close>

lemma updated_metadata_no_panic:
  assumes "load_meta j = Some m0"
  shows "updated_metadata ups m0 \<noteq> Inl (CommitPanic x)"
proof (cases "Apply ups m0")
  case (Pair r m1)
  then have "r \<noteq> Panicked" using run_updates_cases by (fastforce simp: Apply_run split: sum.splits)
  with Pair NewProcessor_loaded [OF assms] show ?thesis
    by (auto simp: updated_metadata_def split: apply_result.splits)
qed

lemma metadata_okE:
  assumes "metadata_ok k j"
  obtains m u l where "load_meta j = Some m" "getString m k = Some u" "8 \<le> length u" "getString m ''location'' = Some l"
  using assms by (auto simp: metadata_ok_def split: option.splits)

lemma getStringFromMap_eq: "getStringFromMap = getString"
  by (intro ext) (simp add: getStringFromMap_def getString_def)

lemma commit_row_no_panic:
  assumes "metadata_ok ''table-uuid'' (it_meta row)" "commit_row req now row d = (Inr (CommitPanic x), d')"
  shows False
proof -
  obtain m u l where m: "load_meta (it_meta row) = Some m" "getString m ''table-uuid'' = Some u" "8 \<le> length u"
      "getString m ''location'' = Some l"
    using assms(1) by (rule metadata_okE)
  have "u \<noteq> []" using m(3) by auto
  then have "getString m1 ''table-uuid'' = Some u" "getString m1 ''location'' \<noteq> None"
    if "updated_metadata (cm_updates req) m = Inr m1" for m1
    using updated_metadata_ok [OF m(1) that m(2)] m(4) by auto
  with assms(2) m updated_metadata_no_panic [OF m(1), of "cm_updates req"] show ?thesis
    by (auto simp: commit_row_def getStringFromMap_eq first8_def Let_def split: option.splits sum.splits)
qed

lemma commit_tx_safe:
  assumes "catalog_ok d" "commit_tx ns t req now d = (Inr x, d')" "in_int64 now"
  shows "catalog_ok d' \<and> x \<noteq> CommitPanic p"
proof (cases "sql_table ns t d")
  case None
  with assms show ?thesis by (auto simp: commit_tx_def)
next
  case (Some row)
  with assms(2) have c: "commit_row req now row d = (Inr x, d')" by (simp add: commit_tx_def)
  from sql_table_row [OF Some] have row: "row \<in> set (d_tables d)" by auto
  with assms(1) have ok: "metadata_ok ''table-uuid'' (it_meta row)" by (simp add: catalog_ok_def rows_ok_def list_all_iff)
  then have no: "x \<noteq> CommitPanic p" using commit_row_no_panic c by blast
  from c show ?thesis
  proof (cases rule: commit_row_cases)
    case unchanged
    with assms(1) no show ?thesis by simp
  next
    case (committed m0 m1 u8 tableUUID location newLoc)
    from ok obtain u where u: "getString m0 ''table-uuid'' = Some u" "8 \<le> length u" "getString m0 ''location'' \<noteq> None"
      using committed(1) by (auto elim: metadata_okE)
    then have "u \<noteq> []" by auto
    from updated_metadata_ok [OF committed(1,3) u(1) this u(3)] have m1: "st m1" "getString m1 ''table-uuid'' = Some u"
        "getString m1 ''location'' \<noteq> None" by auto
    have "st (mput m1 ''last-updated-ms'' (GInt64 now))" using m1(1) assms(3) by (intro st_mput) simp_all
    then have "metadata_ok ''table-uuid'' (encode (GObj (mput m1 ''last-updated-ms'' (GInt64 now))))"
      by (rule metadata_ok_encode [OF _ _ u(2)]) (use m1 committed(5) in \<open>auto simp: getStringFromMap_eq\<close>)
    from catalog_ok_commit [OF assms(1) this] row no committed(9) show ?thesis by (simp del: encode.simps)
  qed
qed

lemma commit_error_answered: "commit_error_response ns t e = Some r \<Longrightarrow> answered (r, effs)"
  by (auto simp: commit_error_response_def split: if_splits)

lemma safe_CommitTable: "in_int64 now \<Longrightarrow> safe catalog_ok answered (CommitTable cfg now p t body)"
  by (auto simp: CommitTable_def Let_def commit_error_answered
      split: option.splits lock_error.splits commit_result.splits
      intro!: safe_Done safe_WithLock dest: commit_tx_safe)

lemmas table_handlers_safe =
  safe_ListTables safe_CreateTable safe_LoadTable safe_DropTable safe_TableExists
  safe_RegisterTable safe_RenameTable safe_CommitTable

end
