(* ===== verification/Views.thy ===== *)
theory Views
  imports Tables
begin

text \<open>
  \<open>internal/api/handlers/view.go\<close>: the view handlers.  \<open>ReplaceView\<close> locks the row of the view and
  writes a new metadata location; it does not look at the requirements and updates of the request.
\<close>

record create_view_req =
  cv_name :: string
  cv_location :: string
  cv_schema :: "gobj option"
  cv_version :: "gobj option"
  cv_properties :: "(string, string) gomap option"

record replace_view_req =
  rv_requirements :: "requirement list"
  rv_updates :: "raw_update list"

definition new_view_metadata :: "create_view_req \<Rightarrow> gobj \<Rightarrow> string \<Rightarrow> string \<Rightarrow> int \<Rightarrow> gobj" where
  "new_view_metadata req schema uuid location now =
     [(''format-version'', GInt 1),
      (''view-uuid'', GStr uuid),
      (''location'', GStr location),
      (''properties'', strmap_or_null (cv_properties req)),
      (''schemas'', GArr [GObj schema]),
      (''current-version-id'', GInt 1),
      (''versions'', GArr [map_or_null (cv_version req)]),
      (''version-log'', GArr [GObj [(''version-id'', GInt 1), (''timestamp-ms'', GInt64 now)]])]"

definition ListViews :: "(string \<Rightarrow> string \<Rightarrow> bool) \<Rightarrow> nat option \<Rightarrow> string \<Rightarrow> string \<Rightarrow> int \<Rightarrow> outcome prog" where
  "ListViews coll got param pageToken pageSizeParam =
     (let namespaceName = parseNamespace param; pageSize = nat (validatePageSize pageSizeParam) in
      query (\<lambda>d. sql_list_items coll namespaceName pageToken (pageSize + 1) (d_views d) d)
        (\<lambda>e. reply (internalError ''failed to list views'' (sqe_text e)))
        (\<lambda>rows.
          let (names, left) = scan_page pageSize 0 (arriving got rows);
              lastName = (if names = [] then [] else last names);
              answer = reply (Resp 200 (Some (GObj ((''identifiers'', GArr (map (ident_val namespaceName) names)) #
                         token_member (if left \<noteq> [] then lastName else [])))))
          in if names = []
             then query (sql_ns_exists namespaceName)
                    (\<lambda>e. reply (internalError ''failed to check namespace'' (sqe_text e)))
                    (\<lambda>x. if x then answer else reply (namespaceNotFound namespaceName))
             else answer))"

definition CreateView :: "catalog_config \<Rightarrow> string \<Rightarrow> int \<Rightarrow> string \<Rightarrow> create_view_req option \<Rightarrow> outcome prog" where
  "CreateView cfg uuid now param body =
     (let namespaceName = parseNamespace param in
      case body of
        None \<Rightarrow> reply (badRequest ''invalid request body'')
      | Some req \<Rightarrow>
          if cv_name req = [] then reply (badRequest ''view name is required'')
          else (case cv_schema req of
            None \<Rightarrow> reply (badRequest ''schema is required'')
          | Some schema \<Rightarrow>
              query (sql_ns_id namespaceName)
                (\<lambda>e. reply (internalError ''failed to get namespace'' (sqe_text e)))
                (\<lambda>r. case r of
                   None \<Rightarrow> reply (namespaceNotFound namespaceName)
                 | Some namespaceID \<Rightarrow>
                     let location = (if cv_location req = []
                           then cc_warehouse cfg @ ''/'' @ join_with ''/'' namespaceName @ ''/'' @ cv_name req
                           else cv_location req);
                         metadata = new_view_metadata req schema uuid location now
                     in (case first8 uuid of
                           None \<Rightarrow> Done (Crash slice_panic, [])
                         | Some u8 \<Rightarrow>
                             let metadataLocation = metadata_location location 0 now u8 in
                             exec (\<lambda>d. map_sum id (Pair ())
                                     (sql_insert_view namespaceID (cv_name req) metadataLocation
                                        (encode (GObj metadata)) d))
                               (\<lambda>e. reply (if IsDuplicateError e
                                  then alreadyExistsError ''View'' (dotted namespaceName @ ''.'' @ cv_name req)
                                  else internalError ''failed to create view'' (sqe_text e)))
                               (\<lambda>_. reply (load_response metadataLocation metadata))))))"

definition LoadView :: "string \<Rightarrow> string \<Rightarrow> outcome prog" where
  "LoadView param viewName =
     (let namespaceName = parseNamespace param in
      query (sql_view namespaceName viewName)
        (\<lambda>e. reply (internalError ''failed to get view'' (sqe_text e)))
        (\<lambda>r. case r of
           None \<Rightarrow> missing_or namespaceName (viewNotFound namespaceName viewName)
         | Some row \<Rightarrow>
             (case load_meta (it_meta row) of
                None \<Rightarrow> reply (internalError ''failed to get view'' scan_error)
              | Some m \<Rightarrow> reply (load_response (it_loc row) m))))"

text \<open>The locked function of \<open>ReplaceView\<close>.\<close>

definition replace_tx :: "string list \<Rightarrow> string \<Rightarrow> int \<Rightarrow> db \<Rightarrow> (sql_error + commit_result) \<times> db" where
  "replace_tx namespaceName viewName now d =
     (case sql_view namespaceName viewName d of
        None \<Rightarrow>
          (Inr (CommitErr (if sql_ns_exists namespaceName d then ''view_not_found'' else ''namespace_not_found'')), d)
      | Some row \<Rightarrow>
     (case load_meta (it_meta row) of
        None \<Rightarrow> (Inl \<lparr>sqe_code = [], sqe_text = ''failed to get view: '' @ scan_error\<rparr>, d)
      | Some metadata \<Rightarrow>
     (case getStringFromMap metadata ''view-uuid'' of
        None \<Rightarrow> (Inl \<lparr>sqe_code = [], sqe_text = ''invalid metadata: missing view-uuid''\<rparr>, d)
      | Some viewUUID \<Rightarrow>
     (case getStringFromMap metadata ''location'' of
        None \<Rightarrow> (Inl \<lparr>sqe_code = [], sqe_text = ''invalid metadata: missing location''\<rparr>, d)
      | Some location \<Rightarrow>
     (case first8 viewUUID of
        None \<Rightarrow> (Inr (CommitPanic slice_panic), d)
      | Some u8 \<Rightarrow>
          let newLocation = metadata_location location (getMetadataVersion (it_loc row) + 1) now u8
          in (Inr (Committed newLocation metadata),
              sql_update_view (it_id row) newLocation (encode (GObj metadata)) d))))))"

definition ReplaceView :: "catalog_config \<Rightarrow> int \<Rightarrow> string \<Rightarrow> string \<Rightarrow> replace_view_req option \<Rightarrow> outcome prog" where
  "ReplaceView cfg now param viewName body =
     (let namespaceName = parseNamespace param in
      case body of
        None \<Rightarrow> reply (badRequest ''invalid request body'')
      | Some req \<Rightarrow>
          WithLock (\<lambda>e. e) (cc_lock cfg) (replace_tx namespaceName viewName now)
            (\<lambda>e. case e of
               ErrLockTimeout _ \<Rightarrow>
                 reply (commit_failed ''Failed to acquire lock: concurrent modification in progress'')
             | OtherError x \<Rightarrow> reply (internalError ''failed to update view'' (sqe_text x)))
            (\<lambda>res. case res of
               Committed loc m \<Rightarrow> reply (load_response loc m)
             | CommitErr errStr \<Rightarrow>
                 reply (if errStr = ''namespace_not_found'' then namespaceNotFound namespaceName
                        else if errStr = ''view_not_found'' then viewNotFound namespaceName viewName
                        else Resp 200 (Some (GObj [(''metadata-location'', GStr []), (''metadata'', GNil)])))
             | CommitPanic p \<Rightarrow> Done (Crash p, [])))"

definition DropView :: "string \<Rightarrow> string \<Rightarrow> outcome prog" where
  "DropView param viewName =
     (let namespaceName = parseNamespace param in
      exec (\<lambda>d. Inr (sql_delete_view namespaceName viewName d))
        (\<lambda>e. reply (internalError ''failed to delete view'' (sqe_text e)))
        (\<lambda>n. if n = 0 then missing_or namespaceName (viewNotFound namespaceName viewName)
             else reply (Resp 204 None)))"

definition ViewExists :: "string \<Rightarrow> string \<Rightarrow> outcome prog" where
  "ViewExists param viewName =
     query (\<lambda>d. sql_view (parseNamespace param) viewName d \<noteq> None)
       (\<lambda>e. reply (internalError ''failed to check view'' (sqe_text e)))
       (\<lambda>x. reply (Resp (if x then 204 else 404) None))"

definition RenameView :: "rename_req option \<Rightarrow> outcome prog" where
  "RenameView body =
     (case body of
        None \<Rightarrow> reply (badRequest ''invalid request body'')
      | Some req \<Rightarrow>
          let src = rn_source req; dst = rn_destination req in
          query (sql_ns_id (id_namespace src))
            (\<lambda>e. reply (internalError ''failed to get source namespace'' (sqe_text e)))
            (\<lambda>r. case r of
               None \<Rightarrow> reply (namespaceNotFound (id_namespace src))
             | Some sourceNamespaceID \<Rightarrow>
                 query (sql_ns_id (id_namespace dst))
                   (\<lambda>e. reply (internalError ''failed to get destination namespace'' (sqe_text e)))
                   (\<lambda>r'. case r' of
                      None \<Rightarrow> reply (namespaceNotFound (id_namespace dst))
                    | Some destNamespaceID \<Rightarrow>
                        exec (sql_rename_view destNamespaceID (id_name dst) sourceNamespaceID (id_name src))
                          (\<lambda>e. reply (if IsDuplicateError e
                             then alreadyExistsError ''View'' (dotted (id_namespace dst) @ ''.'' @ id_name dst)
                             else internalError ''failed to rename view'' (sqe_text e)))
                          (\<lambda>n. reply (if n = 0 then viewNotFound (id_namespace src) (id_name src)
                                     else Resp 204 None)))))"

section \<open>Lemmas\<close>

lemma safe_ListViews: "safe I answered (ListViews coll got p tok n)"
  by (auto simp: ListViews_def Let_def split: prod.splits intro!: safe_query safe_Done)

definition create_view_req_ok :: "create_view_req \<Rightarrow> bool" where
  "create_view_req_ok req \<longleftrightarrow> st_opt (cv_schema req) \<and> st_opt (cv_version req) \<and>
     (case cv_properties req of None \<Rightarrow> True | Some ps \<Rightarrow> wf_gomap ps)"

lemma metadata_ok_new_view:
  assumes "create_view_req_ok req" "cv_schema req = Some schema" "in_int64 now" "8 \<le> length uuid"
  shows "metadata_ok ''view-uuid'' (encode (GObj (new_view_metadata req schema uuid location now)))"
proof (rule metadata_ok_encode [OF _ _ assms(4)])
  show "st (new_view_metadata req schema uuid location now)"
    using assms storable_null [of "cv_version req"] storable_strmap [of "cv_properties req"]
    by (auto simp: create_view_req_ok_def new_view_metadata_def wf_gomap_def mkeys_def in_int64_def
        min_int64_def max_int64_def split: option.splits)
qed (simp_all add: new_view_metadata_def getString_def)

lemma safe_CreateView:
  assumes "in_int64 now" "8 \<le> length uuid" "case body of None \<Rightarrow> True | Some req \<Rightarrow> create_view_req_ok req"
  shows "safe catalog_ok answered (CreateView cfg uuid now p body)"
  using assms(2,3)
  by (auto simp: CreateView_def Let_def first8_def simp del: encode.simps split: option.splits
      intro!: safe_Done safe_query safe_exec)
    (blast intro: catalog_ok_insert_view metadata_ok_new_view assms(1))+

lemma safe_LoadView: "safe I answered (LoadView p t)"
  by (auto simp: LoadView_def Let_def split: option.splits intro!: safe_Done safe_query safe_missing_or)

lemma replace_tx_safe:
  assumes "catalog_ok d" "replace_tx ns t now d = (Inr x, d')"
  shows "catalog_ok d' \<and> x \<noteq> CommitPanic p"
proof (cases "sql_view ns t d")
  case None
  with assms show ?thesis by (auto simp: replace_tx_def)
next
  case (Some row)
  then have "row \<in> set (d_views d)" by (auto simp: sql_view_def find_item_def dest: find_SomeD)
  with assms(1) have ok: "metadata_ok ''view-uuid'' (it_meta row)" by (simp add: catalog_ok_def rows_ok_def list_all_iff)
  then obtain m u l where m: "load_meta (it_meta row) = Some m" "getString m ''view-uuid'' = Some u" "8 \<le> length u"
      "getString m ''location'' = Some l"
    by (rule metadata_okE)
  have "metadata_ok ''view-uuid'' (encode (GObj m))"
    by (rule metadata_ok_encode [OF load_meta_st [OF m(1)] m(2-4)])
  with m Some assms show ?thesis
    by (auto simp: replace_tx_def getStringFromMap_eq first8_def Let_def simp del: encode.simps
        intro: catalog_ok_update_view)
qed

lemma safe_ReplaceView: "safe catalog_ok answered (ReplaceView cfg now p t body)"
  by (auto simp: ReplaceView_def Let_def split: option.splits lock_error.splits commit_result.splits
      intro!: safe_Done safe_WithLock dest: replace_tx_safe)

lemma safe_DropView: "safe catalog_ok answered (DropView p t)"
  by (auto simp: DropView_def Let_def intro!: safe_Done safe_exec safe_missing_or)
    (blast intro: catalog_ok_delete_view)+

lemma safe_ViewExists: "safe I answered (ViewExists p t)"
  by (auto simp: ViewExists_def intro!: safe_Done safe_query)

lemma safe_RenameView: "safe catalog_ok answered (RenameView body)"
  by (auto simp: RenameView_def Let_def split: option.splits intro!: safe_Done safe_query safe_exec)
    (blast intro: catalog_ok_rename_view)+

lemmas view_handlers_safe =
  safe_ListViews safe_CreateView safe_LoadView safe_ReplaceView safe_DropView safe_ViewExists
  safe_RenameView

end
