(* ===== verification/Transactions.thy ===== *)
theory Transactions
  imports Tables
begin

text \<open>
  \<open>internal/api/handlers/transaction.go\<close>: the commit of changes to several tables, in one
  transaction.  \<open>commitTableInTx\<close> checks the requirements of one change; the updates are not applied
  (the code has a TODO).  Every error of \<open>commitTableInTx\<close> is a \<open>fiber.Error\<close>, those of the database
  included, so a business error ends the transaction and nothing is retried.
\<close>

record table_change =
  tc_identifier :: item_ident
  tc_requirements :: "requirement list"
  tc_updates :: "raw_update list"

record commit_result_row =
  cr_identifier :: item_ident
  cr_location :: string
  cr_metadata :: gobj

text \<open>A \<open>*fiber.Error\<close>: the status and the message.\<close>

type_synonym fiber_error = "int \<times> string"

definition commitTableInTx :: "table_change \<Rightarrow> db \<Rightarrow> (fiber_error + commit_result_row) \<times> db" where
  "commitTableInTx change d =
     (let ns = id_namespace (tc_identifier change); name = id_name (tc_identifier change) in
      case sql_ns_id ns d of
        None \<Rightarrow> (Inl (404, ''Namespace does not exist: '' @ dotted ns), d)
      | Some namespaceID \<Rightarrow>
     (case find_key namespaceID name (d_tables d) of
        None \<Rightarrow> (Inl (404, ''Table does not exist: '' @ dotted ns @ ''.'' @ name), d)
      | Some row \<Rightarrow>
     (case load_meta (it_meta row) of
        None \<Rightarrow> (Inl (500, ''failed to get table: '' @ scan_error), d)
      | Some metadata \<Rightarrow>
     (case List.find (\<lambda>r. \<not> validateRequirement metadata r) (tc_requirements change) of
        Some r \<Rightarrow> (Inl (409, ''Requirement failed for table '' @ dotted ns @ ''.'' @ name @ '': '' @ rq_type r), d)
      | None \<Rightarrow> (Inr \<lparr>cr_identifier = tc_identifier change, cr_location = it_loc row, cr_metadata = metadata\<rparr>, d)))))"

text \<open>The loop over the changes: the first error, or all results, and the database the transaction then commits.\<close>

fun commit_changes :: "table_change list \<Rightarrow> db \<Rightarrow> (fiber_error + commit_result_row list) \<times> db" where
  "commit_changes [] d = (Inr [], d)"
| "commit_changes (c # cs) d =
     (case commitTableInTx c d of
        (Inl e, d1) \<Rightarrow> (Inl e, d1)
      | (Inr r, d1) \<Rightarrow>
          (case commit_changes cs d1 of (Inl e, d2) \<Rightarrow> (Inl e, d2) | (Inr rs, d2) \<Rightarrow> (Inr (r # rs), d2)))"

definition result_val :: "commit_result_row \<Rightarrow> gval" where
  "result_val r =
     GObj [(''identifier'', ident_val (id_namespace (cr_identifier r)) (id_name (cr_identifier r))),
           (''metadata-location'', GStr (cr_location r)), (''metadata'', GObj (cr_metadata r))]"

text \<open>
  A statement of the transaction that fails is reported as a \<open>fiber.Error\<close>, which ends the function
  without an error; the \<open>COMMIT\<close> of the transaction, which the server has aborted, then fails with
  pgx's \<open>ErrTxCommitRollback\<close>, and that is all \<open>WithLock\<close> gets to see of the failure.  So it never sees a lock timeout,
  which only a statement of the function can run into; an error of \<open>BEGIN\<close> or \<open>COMMIT\<close> it sees as it is.
\<close>

definition commit_rollback :: "sql_error \<Rightarrow> sql_error" where
  "commit_rollback e =
     (if isLockTimeoutError e
      then \<lparr>sqe_code = [], sqe_text = ''committing transaction: commit unexpectedly resulted in rollback''\<rparr>
      else e)"

definition CommitTransaction :: "catalog_config \<Rightarrow> table_change list option \<Rightarrow> outcome prog" where
  "CommitTransaction cfg body =
     (case body of
        None \<Rightarrow> reply (badRequest ''invalid request body'')
      | Some changes \<Rightarrow>
          if changes = [] then reply (badRequest ''at least one table change is required'')
          else WithLock commit_rollback (cc_lock cfg) (\<lambda>d. case commit_changes changes d of (res, d') \<Rightarrow> (Inr res, d'))
            (\<lambda>e. Done (case e of
               ErrLockTimeout _ \<Rightarrow> errorHandler 409 ''Failed to acquire lock: concurrent modification in progress''
             | OtherError x \<Rightarrow> errorHandler 500 (''failed to commit transaction: '' @ sqe_text x),
               [Metric ''transaction_commit'' [''failed'']]))
            (\<lambda>res. case res of
               Inl (code, message) \<Rightarrow> Done (errorHandler code message, [Metric ''transaction_commit'' [''failed'']])
             | Inr results \<Rightarrow>
                 Done (Resp 200 (Some (GObj [(''commit-results'', GArr (map result_val results))])),
                       [Metric ''transaction_commit'' [''success'']])))"

lemma commitTableInTx_db: "snd (commitTableInTx c d) = d"
  by (simp add: commitTableInTx_def Let_def split: option.split)

lemma commit_changes_db: "snd (commit_changes cs d) = d"
proof (induction cs)
  case (Cons c cs)
  then show ?case using commitTableInTx_db [of c d] by (cases "commitTableInTx c d") (auto split: sum.split prod.split)
qed simp

lemma commit_changes_eq: "commit_changes cs d = (x, d') \<Longrightarrow> d' = d"
  using commit_changes_db [of cs d] by simp

lemma commit_changes_code: "commit_changes cs d = (Inl (code, msg), d') \<Longrightarrow> code \<in> {404, 409, 500}"
proof (induction cs)
  case (Cons c cs)
  then show ?case using commitTableInTx_db [of c d]
    by (auto simp: commitTableInTx_def Let_def split: sum.splits option.splits prod.splits)
qed simp

lemma safe_CommitTransaction: "safe I answered (CommitTransaction cfg body)"
  by (auto simp: CommitTransaction_def errorHandler_def split: option.splits lock_error.splits sum.splits prod.splits
      intro!: safe_Done safe_WithLock dest!: commit_changes_code dest: commit_changes_eq)

text \<open>A lock timeout in \<open>CommitTransaction\<close> is never retried, although the comment in the code says
  so: however many retries are configured, the first attempt whose statement fails with a lock timeout
  ends the request with a 500, not with the 409 meant for concurrent modifications.\<close>

theorem CommitTransaction_never_retries:
  assumes "changes \<noteq> []" "0 \<le> lc_max_retries (cc_lock cfg)" "isLockTimeoutError e"
  shows "play [Some e] (CommitTransaction cfg (Some changes)) d =
    (Done (errorHandler 500
       ''failed to commit transaction: committing transaction: commit unexpectedly resulted in rollback'',
       [Metric ''transaction_commit'' [''failed'']]), d)"
proof -
  obtain n where "nat (lc_max_retries (cc_lock cfg) + 1) = Suc n"
    using assms(2) by (metis Suc_nat_eq_nat_zadd1 add.commute)
  moreover have "commit_rollback e =
      \<lparr>sqe_code = [], sqe_text = ''committing transaction: commit unexpectedly resulted in rollback''\<rparr>"
    using assms(3) by (simp add: commit_rollback_def)
  ultimately show ?thesis
    using assms(1) by (simp add: CommitTransaction_def WithLock_def executeWithLock_def isLockTimeoutError_def)
qed

theorem CommitTransaction_never_retries_witness:
  "play [Some \<lparr>sqe_code = ''55P03'', sqe_text = ''canceling statement due to lock timeout''\<rparr>]
     (CommitTransaction \<lparr>cc_warehouse = ''w'', cc_lock = \<lparr>lc_timeout = 1, lc_interval = 1, lc_max_retries = 100\<rparr>\<rparr>
       (Some [\<lparr>tc_identifier = \<lparr>id_namespace = [''a''], id_name = ''t''\<rparr>, tc_requirements = [], tc_updates = []\<rparr>]))
     empty_db =
   (Done (errorHandler 500
       ''failed to commit transaction: committing transaction: commit unexpectedly resulted in rollback'',
       [Metric ''transaction_commit'' [''failed'']]), empty_db)"
  by (rule CommitTransaction_never_retries) (simp_all add: isLockTimeoutError_def)

end
