(* ===== verification/TableProps.thy ===== *)
theory TableProps
  imports Views Transactions
begin

text \<open>
  What the table and view handlers do to the catalog, seen as a map from namespace and name to the
  metadata location and the stored metadata (\<open>tables.catalog\<close>, \<open>views.catalog\<close>).
\<close>

section \<open>Commits\<close>

text \<open>How a locked function ends, whatever the environment lets fail: without effect, or once.\<close>

lemma play_Done [simp]: "play fs (Done r) d = (Done r, d)"
  by (cases fs) auto

lemma play_attempts:
  assumes "play fs (attempts seen first n l fn failed k) d = (Done r, d')"
  shows "(\<exists>e fs'. play fs' (failed e) d = (Done r, d')) \<or>
    (\<exists>x d1 fs'. fn d = (Inr x, d1) \<and> play fs' (k x) d1 = (Done r, d'))"
  using assms
proof (induction n arbitrary: fs first l)
  case 0
  then show ?case by auto
next
  case (Suc n)
  have attempt: ?thesis if p: "play as (executeWithLock seen fn (\<lambda>e. if isLockTimeoutError e
        then attempts seen False n (Some e) fn failed k else failed (OtherError e)) k) d = (Done r, d')" for as
  proof (cases as)
    case Nil
    with p show ?thesis by (simp add: executeWithLock_def)
  next
    case (Cons a bs)
    show ?thesis
    proof (cases "\<exists>x d1. a = None \<and> fn d = (Inr x, d1)")
      case True
      with p Cons show ?thesis by (auto simp: executeWithLock_def)
    next
      case False
      then obtain e where "play bs (if isLockTimeoutError e
          then attempts seen False n (Some e) fn failed k else failed (OtherError e)) d = (Done r, d')"
        using p Cons by (auto simp: executeWithLock_def split: option.splits prod.splits sum.splits)
      with Suc.IH show ?thesis by (auto split: if_splits)
    qed
  qed
  show ?case
  proof (cases first)
    case True
    with Suc.prems attempt show ?thesis by simp
  next
    case False
    with Suc.prems attempt show ?thesis
      by (cases fs) (auto simp: pause_def Let_def split: option.splits)
  qed
qed

lemma play_WithLock:
  assumes "play fs (WithLock seen cfg fn failed k) d = (Done r, d')"
  obtains (gave_up) e fs' where "play fs' (failed e) d = (Done r, d')"
    | (committed) x d1 fs' where "fn d = (Inr x, d1)" "play fs' (k x) d1 = (Done r, d')"
  using play_attempts [OF assms [unfolded WithLock_def]] by blast

text \<open>The successful commit: what it requires, what it writes, what it answers.\<close>

definition committed_as ::
    "commit_table_req \<Rightarrow> int \<Rightarrow> string \<times> json \<Rightarrow> gobj \<Rightarrow> string \<Rightarrow> bool" where
  "committed_as req now old m2 loc \<longleftrightarrow>
     (case load_meta (snd old) of None \<Rightarrow> False | Some m0 \<Rightarrow>
        list_all (validateRequirement m0) (cm_requirements req) \<and>
        (\<exists>m1. Apply (cm_updates req) m0 = (ApplyOk, m1) \<and> m2 = mput m1 ''last-updated-ms'' (GInt64 now)) \<and>
        (\<exists>u l. getString m2 ''table-uuid'' = Some u \<and> getString m2 ''location'' = Some l \<and>
           loc = metadata_location l 1 now (take 8 u)))"

lemma find_map_same: "(\<And>r. P (h r) = P' r) \<Longrightarrow> List.find P (map h xs) = map_option h (List.find P' xs)"
  by (induction xs) auto

lemma sql_table_same_row:
  assumes "db_ok d" "sql_table ns t d = Some row" "sql_table ns' t' d = Some r" "it_id r = it_id row"
  shows "(ns', t') = (ns, t)"
proof -
  have "row \<in> set (d_tables d)" "r \<in> set (d_tables d)" "it_name row = t" "it_name r = t'"
      "in_ns ns d row" "in_ns ns' d r"
    using assms(2,3) by (auto simp: sql_table_def find_item_def dest: find_SomeD)
  moreover from this assms(1,4) have "r = row" by (auto simp: db_ok_def items_ok_def distinct_map dest: inj_onD)
  ultimately show ?thesis using sql_ns_id_inj [OF assms(1)] by (auto simp: in_ns_iff [OF assms(1)])
qed

lemma sql_table_update:
  assumes "db_ok d" "sql_table ns t d = Some row"
    "d' = sql_log_commit (it_id row) loc (sql_update_table (it_id row) loc meta prev d)"
  shows "sql_table ns' t' d' = (if (ns', t') = (ns, t) then Some (row\<lparr>it_loc := loc, it_meta := meta, it_prev := Some prev\<rparr>)
      else sql_table ns' t' d)"
proof -
  define h :: "item_row \<Rightarrow> item_row" where "h = (\<lambda>r. if it_id r = it_id row then r\<lparr>it_loc := loc, it_meta := meta, it_prev := Some prev\<rparr> else r)"
  have a: "in_ns n d' (h r) = in_ns n d r" for n r
    by (simp add: in_ns_def assms(3) sql_log_commit_def sql_update_table_def h_def)
  have b: "it_name (h r) = it_name r" for r by (simp add: h_def)
  have c: "d_tables d' = map h (d_tables d)"
    by (simp add: assms(3) sql_log_commit_def sql_update_table_def h_def)
  have s: "sql_table n m d' = map_option h (sql_table n m d)" for n m
    unfolding sql_table_def find_item_def c by (rule find_map_same) (simp add: a b)
  show ?thesis
  proof (cases "(ns', t') = (ns, t)")
    case True
    with s assms(2) show ?thesis by (simp add: h_def)
  next
    case False
    then have "h r = r" if "sql_table ns' t' d = Some r" for r
      using sql_table_same_row [OF assms(1,2) that] by (auto simp: h_def)
    with s False show ?thesis by (cases "sql_table ns' t' d") auto
  qed
qed

lemma Apply_Nil: "Apply [] m = (ApplyOk, m)"
  by (simp add: Apply_def)

lemma updated_metadata_Apply: "updated_metadata ups m0 = Inr m1 \<Longrightarrow> load_meta j = Some m0 \<Longrightarrow> Apply ups m0 = (ApplyOk, m1)"
  by (auto simp: updated_metadata_def NewProcessor_loaded Apply_Nil split: if_splits prod.splits apply_result.splits)

lemma commit_tx_committed:
  assumes "db_ok d" "commit_tx ns t req now d = (Inr (Committed loc m), d')"
  shows "\<exists>row. sql_table ns t d = Some row \<and> committed_as req now (it_loc row, it_meta row) m loc \<and>
    tables.catalog d' = (tables.catalog d)((ns, t) \<mapsto> (loc, encode (GObj m))) \<and>
    ns_map d' = ns_map d \<and> d_views d' = d_views d \<and>
    map_option it_prev (sql_table ns t d') = Some (Some (it_loc row)) \<and>
    d_log d' = d_log d @ [(it_id row, loc)]"
proof (cases "sql_table ns t d")
  case None
  with assms(2) show ?thesis by (auto simp: commit_tx_def)
next
  case (Some row)
  with assms(2) have c: "commit_row req now row d = (Inr (Committed loc m), d')" by (simp add: commit_tx_def)
  then show ?thesis
  proof (cases rule: commit_row_cases)
    case (committed m0 m1 u8 tableUUID location newLoc)
    note h = committed [folded getStringFromMap_eq]
    from committed(8) have loc: "loc = newLoc" "m = mput m1 ''last-updated-ms'' (GInt64 now)" by auto
    note s = sql_table_update [OF assms(1) Some committed(9)]
    have "d_namespaces d' = d_namespaces d"
      by (simp add: committed(9) sql_log_commit_def sql_update_table_def)
    from ns_reads_cong(1) [OF this] have n: "ns_map d' = ns_map d" .
    have "list_all (validateRequirement m0) (cm_requirements req)"
      using committed(2) by (auto simp: find_None_iff list_all_iff)
    moreover have "take 8 tableUUID = u8" using committed(6) by (auto simp: first8_def split: if_splits)
    ultimately have "committed_as req now (it_loc row, it_meta row) m loc"
      using committed(1,4,5,7) updated_metadata_Apply [OF committed(3,1)] loc
      by (simp add: committed_as_def getStringFromMap_eq getMetadataVersion_def)
    moreover have "tables.catalog d' = (tables.catalog d)((ns, t) \<mapsto> (loc, encode (GObj m)))"
      using s by (auto simp: tables.catalog_def fun_eq_iff loc simp del: encode.simps)
    moreover have "d_log d' = d_log d @ [(it_id row, loc)]" "d_views d' = d_views d"
      by (simp_all add: committed(9) loc sql_log_commit_def sql_update_table_def)
    ultimately show ?thesis using Some n s [of ns t] by simp
  qed auto
qed

lemma prefix_simps [simp]: "has_prefix p (p @ s)" "trim_prefix p (p @ s) = s"
  by (simp_all add: has_prefix_def trim_prefix_def)

text \<open>The errors of the locked function and their answers.\<close>

lemma commit_error_requirement:
  "commit_error_response ns t (''requirement_failed:'' @ s) = Some (commit_failed (''Requirement failed: '' @ s))"
  unfolding commit_error_response_def using prefix_simps [of "''requirement_failed:''" s] by simp

lemma commit_error_update:
  "commit_error_response ns t (''update_failed:'' @ s) = Some (badRequest (''Update failed: '' @ s))"
  unfolding commit_error_response_def using prefix_simps [of "''update_failed:''" s]
  by (simp add: has_prefix_def)

lemmas commit_errors = commit_error_requirement [simplified append_Cons append_Nil]
  commit_error_update [simplified append_Cons append_Nil]

lemma commit_error_missing:
  "commit_error_response ns t ''namespace_not_found'' = Some (namespaceNotFound ns)"
  "commit_error_response ns t ''table_not_found'' = Some (tableNotFound ns t)"
  by (simp_all add: commit_error_response_def)

lemma updated_metadata_err:
  assumes "updated_metadata ups m = Inl (CommitErr s)" "load_meta j = Some m"
  shows "\<exists>e m'. Apply ups m = (e, m') \<and> e \<noteq> ApplyOk \<and> s = ''update_failed:'' @ apply_error_text e"
  using assms by (auto simp: updated_metadata_def NewProcessor_loaded split: if_splits prod.splits apply_result.splits)

lemma updated_metadata_not_committed: "updated_metadata ups m \<noteq> Inl (Committed loc m')"
  by (auto simp: updated_metadata_def split: option.splits prod.splits apply_result.splits)

lemma commit_row_err:
  assumes "commit_row req now row d = (Inr (CommitErr s), d')"
  shows "d' = d \<and> (\<exists>r. (s = ''requirement_failed:'' @ r) \<or> (s = ''update_failed:'' @ r))"
  using assms updated_metadata_err
  by (fastforce simp: commit_row_def Let_def split: option.splits sum.splits dest: updated_metadata_err)

lemma commit_tx_err:
  assumes "commit_tx ns t req now d = (Inr (CommitErr s), d')"
  obtains r where "d' = d" "commit_error_response ns t s = Some r" "status_of r \<noteq> Some 200"
proof (cases "sql_table ns t d")
  case None
  with assms that show ?thesis
    by (auto simp: commit_tx_def commit_error_missing namespaceNotFound_def tableNotFound_def status_of_def split: if_splits)
next
  case (Some row)
  with assms have c: "commit_row req now row d = (Inr (CommitErr s), d')" by (simp add: commit_tx_def)
  from commit_row_err [OF c] obtain r where r: "d' = d" "s = ''requirement_failed:'' @ r \<or> s = ''update_failed:'' @ r"
    by blast
  from r(2) show ?thesis
  proof
    assume "s = ''requirement_failed:'' @ r"
    then show ?thesis
      by (intro that [OF r(1), of "commit_failed (''Requirement failed: '' @ r)"])
        (simp_all only: commit_error_requirement, simp add: commit_failed_def status_of_def)
  next
    assume "s = ''update_failed:'' @ r"
    then show ?thesis
      by (intro that [OF r(1), of "badRequest (''Update failed: '' @ r)"])
        (simp_all only: commit_error_update, simp add: badRequest_def status_of_def)
  qed
qed

lemma commit_tx_panic: "commit_tx ns t req now d = (Inr (CommitPanic s), d') \<Longrightarrow> d' = d"
  by (auto simp: commit_tx_def commit_row_def Let_def split: option.splits sum.splits)

text \<open>C2: a commit is all or nothing, whichever of its statements the database lets fail: either the answer
  is not a 200 and the database is unchanged, or the answer is a 200 with the new metadata, all the
  requirements held in the metadata the table had, the new metadata is what \<open>Apply\<close> made of it, and
  the table has the new location and metadata, keeps the old location as the previous one, and has one
  more entry in the commit log; every other table, the views and the namespaces are untouched.\<close>

theorem CommitTable_atomic:
  assumes "db_ok d" "play fs (CommitTable cfg now param t (Some req)) d = (Done (resp, effs), d')"
  shows "(d' = d \<and> status_of resp \<noteq> Some 200) \<or>
    (\<exists>row loc m. sql_table (parseNamespace param) t d = Some row \<and> resp = load_response loc m \<and>
       committed_as req now (it_loc row, it_meta row) m loc \<and>
       tables.catalog d' = (tables.catalog d)((parseNamespace param, t) \<mapsto> (loc, encode (GObj m))) \<and>
       map_option it_prev (sql_table (parseNamespace param) t d') = Some (Some (it_loc row)) \<and>
       d_log d' = d_log d @ [(it_id row, loc)] \<and> ns_map d' = ns_map d \<and> d_views d' = d_views d)"
proof -
  let ?ns = "parseNamespace param"
  have p: "play fs (WithLock (\<lambda>e. e) (cc_lock cfg) (commit_tx ?ns t req now)
      (\<lambda>e. case e of ErrLockTimeout _ \<Rightarrow>
          reply (commit_failed ''Failed to acquire lock: concurrent modification in progress'')
        | OtherError x \<Rightarrow> reply (internalError ''failed to commit table'' (sqe_text x)))
      (\<lambda>x. case x of
          Committed loc m \<Rightarrow> Done (load_response loc m, [Metric ''table_commit'' [dotted ?ns, t]])
        | CommitErr errStr \<Rightarrow>
            (case commit_error_response ?ns t errStr of
               Some resp \<Rightarrow> reply resp
             | None \<Rightarrow> Done (Resp 200 (Some (GObj [(''metadata-location'', GStr []), (''metadata'', GNil)])),
                          [Metric ''table_commit'' [dotted ?ns, t]]))
        | CommitPanic p \<Rightarrow> Done (Crash p, []))) d = (Done (resp, effs), d')"
    using assms(2) by (simp only: CommitTable_def Let_def option.case)
  show ?thesis
  proof (cases rule: play_WithLock [OF p])
    case 1
    then show ?thesis
      by (auto simp: commit_failed_def internalError_def status_of_def split: lock_error.splits)
  next
    case (2 x d1 fs')
    show ?thesis
    proof (cases x)
      case (Committed loc m)
      with 2(2) have "resp = load_response loc m" "d' = d1" by auto
      with commit_tx_committed [OF assms(1) 2(1) [unfolded Committed]] show ?thesis by blast
    next
      case (CommitErr s)
      from commit_tx_err [OF 2(1) [unfolded this]] obtain r where
        "d1 = d" "commit_error_response ?ns t s = Some r" "status_of r \<noteq> Some 200" by blast
      with 2(2) CommitErr show ?thesis by simp
    next
      case (CommitPanic s)
      with 2 commit_tx_panic show ?thesis by (fastforce simp: status_of_def)
    qed
  qed
qed

text \<open>A namespace \<open>a\<close> with a table \<open>t\<close>.\<close>

definition sample_row :: item_row where
  "sample_row = \<lparr>it_id = 1, it_ns = 0, it_name = ''t'', it_loc = ''s3://b/t/metadata/0.json'',
     it_meta = JObj [(''table-uuid'', JStr ''0a1b2c3d-4e5f''), (''location'', JStr ''s3://b/t''),
       (''refs'', JObj [(''main'', JObj [(''type'', JStr ''branch''), (''snapshot-id'', JNum (JInt 5))])])],
     it_prev = None\<rparr>"

definition sample_db :: db where
  "sample_db = empty_db\<lparr>d_next := 2, d_namespaces := [\<lparr>ns_id = 0, ns_name = [''a''], ns_props = []\<rparr>],
     d_tables := [sample_row]\<rparr>"

definition sample_cfg :: catalog_config where
  "sample_cfg = \<lparr>cc_warehouse = ''s3://b'', cc_lock = \<lparr>lc_timeout = 30000, lc_interval = 100, lc_max_retries = 3\<rparr>\<rparr>"

lemma f64_of_int_5: "f64_of_int 5 = Some (F64 5629499534213120 (- 50))"
  by code_simp

lemma sample_db_ok: "catalog_ok sample_db"
  by (simp add: catalog_ok_def db_ok_def sample_db_def sample_row_def empty_db_def items_ok_def metadata_ok_def
      load_meta_def getString_def mput_all_def mput_def item_key_of_def f64_of_int_5)

lemma sample_names: "parseNamespace ''a'' = [''a'']"
  by code_simp

lemma sample_table: "sql_table [''a''] ''t'' sample_db = Some sample_row"
  by (simp add: sql_table_def find_item_def sample_db_def empty_db_def in_ns_def sample_row_def)

lemma sample_meta_row: "load_meta (it_meta sample_row) =
    Some [(''table-uuid'', GStr ''0a1b2c3d-4e5f''), (''location'', GStr ''s3://b/t''),
      (''refs'', GObj [(''main'', GObj [(''type'', GStr ''branch''),
         (''snapshot-id'', GFloat (F64 5629499534213120 (- 50)))])])]"
  by (simp add: sample_row_def load_meta_def mput_all_def mput_def f64_of_int_5)

lemma sample_commit:
  "\<exists>loc m d'. commit_tx [''a''] ''t'' \<lparr>cm_requirements = [], cm_updates = []\<rparr> 1700 sample_db = (Inr (Committed loc m), d')"
  by (simp add: commit_tx_def sample_table commit_row_def sample_meta_row updated_metadata_def Let_def
      getStringFromMap_def first8_def)

theorem CommitTable_atomic_witness:
  "\<exists>resp effs d'. play [Some \<lparr>sqe_code = ''55P03'', sqe_text = ''lock''\<rparr>, None, None]
      (CommitTable sample_cfg 1700 ''a'' ''t'' (Some \<lparr>cm_requirements = [], cm_updates = []\<rparr>)) sample_db =
        (Done (resp, effs), d') \<and> length (d_log d') = 1 \<and> d_log sample_db = []"
proof -
  obtain loc m d' where c: "commit_tx [''a''] ''t'' \<lparr>cm_requirements = [], cm_updates = []\<rparr> 1700 sample_db =
      (Inr (Committed loc m), d')" using sample_commit by blast
  have p: "play [Some \<lparr>sqe_code = ''55P03'', sqe_text = ''lock''\<rparr>, None, None]
      (CommitTable sample_cfg 1700 ''a'' ''t'' (Some \<lparr>cm_requirements = [], cm_updates = []\<rparr>)) sample_db =
        (Done (load_response loc m, [Metric ''table_commit'' [''a'', ''t'']]), d')"
    by (simp add: CommitTable_def Let_def sample_names WithLock_def sample_cfg_def executeWithLock_def
        isLockTimeoutError_def pause_def c dotted_def numeral_eq_Suc)
  have "db_ok sample_db" using sample_db_ok by (rule catalog_ok_db)
  from CommitTable_atomic [OF this p] have "length (d_log d') = Suc (length (d_log sample_db))"
    by (auto simp: load_response_def status_of_def)
  with p show ?thesis by (auto simp: sample_db_def empty_db_def)
qed

lemma commit_tx_no_timeout: "commit_tx ns t req now d = (Inl e, d') \<Longrightarrow> \<not> isLockTimeoutError e"
  by (auto simp: commit_tx_def commit_row_def isLockTimeoutError_def Let_def split: option.splits sum.splits)

lemma run_CommitTable:
  assumes "0 \<le> lc_max_retries (cc_lock cfg)" "commit_tx (parseNamespace param) t req now d = (Inr x, d1)"
  shows "run (CommitTable cfg now param t (Some req)) d =
    (case x of
       Committed loc m \<Rightarrow> ((load_response loc m, [Metric ''table_commit'' [dotted (parseNamespace param), t]]), d1)
     | CommitErr s \<Rightarrow>
         (case commit_error_response (parseNamespace param) t s of
            Some r \<Rightarrow> ((r, []), d1)
          | None \<Rightarrow> ((Resp 200 (Some (GObj [(''metadata-location'', GStr []), (''metadata'', GNil)])),
                      [Metric ''table_commit'' [dotted (parseNamespace param), t]]), d1))
     | CommitPanic p \<Rightarrow> ((Crash p, []), d1))"
proof -
  have "run (WithLock seen (cc_lock cfg) (commit_tx (parseNamespace param) t req now) failed k) d = run (k x) d1"
    for seen failed and k :: "commit_result \<Rightarrow> outcome prog"
    using run_WithLock [where fn = "commit_tx (parseNamespace param) t req now", OF assms, of seen failed k] by simp
  then show ?thesis by (simp add: CommitTable_def Let_def split: commit_result.splits option.splits)
qed

text \<open>The locked function on a good row.\<close>

lemma commit_row_good:
  assumes "metadata_ok ''table-uuid'' (it_meta row)" "load_meta (it_meta row) = Some m0"
  shows "(case List.find (\<lambda>r. \<not> validateRequirement m0 r) (cm_requirements req) of
      Some r \<Rightarrow> commit_row req now row d = (Inr (CommitErr (''requirement_failed:'' @ rq_type r)), d)
    | None \<Rightarrow>
        (case Apply (cm_updates req) m0 of
           (ApplyOk, m1) \<Rightarrow>
             (\<exists>loc d'. commit_row req now row d = (Inr (Committed loc (mput m1 ''last-updated-ms'' (GInt64 now))), d'))
         | (e, _) \<Rightarrow> commit_row req now row d = (Inr (CommitErr (''update_failed:'' @ apply_error_text e)), d)))"
proof (cases "List.find (\<lambda>r. \<not> validateRequirement m0 r) (cm_requirements req)")
  case (Some r)
  with assms(2) show ?thesis by (simp add: commit_row_def)
next
  case reqs: None
  obtain e m1 where a: "Apply (cm_updates req) m0 = (e, m1)" by (metis surj_pair)
  have no: "e \<noteq> Panicked" using a run_updates_cases by (fastforce simp: Apply_run split: sum.splits)
  show ?thesis
  proof (cases "e = ApplyOk")
    case True
    with a NewProcessor_loaded [OF assms(2)] have u: "updated_metadata (cm_updates req) m0 = Inr m1"
      by (auto simp: updated_metadata_def Apply_Nil)
    from assms obtain w l where w: "getString m0 ''table-uuid'' = Some w" "8 \<le> length w" "getString m0 ''location'' = Some l"
      by (auto elim: metadata_okE)
    then have "w \<noteq> []" by auto
    from updated_metadata_ok [OF assms(2) u w(1) this] w obtain l' where
      "getString m1 ''table-uuid'' = Some w" "getString m1 ''location'' = Some l'" by auto
    with assms(2) reqs u w(2) a True show ?thesis
      by (simp add: commit_row_def Let_def getStringFromMap_eq first8_def)
  next
    case False
    then have "cm_updates req \<noteq> []" using a by (auto simp: Apply_Nil)
    with a False no NewProcessor_loaded [OF assms(2)]
    have "updated_metadata (cm_updates req) m0 = Inl (CommitErr (''update_failed:'' @ apply_error_text e))"
      by (auto simp: updated_metadata_def split: apply_result.splits)
    with assms(2) reqs a False no show ?thesis by (auto simp: commit_row_def split: apply_result.splits)
  qed
qed



section \<open>Optimistic concurrency\<close>

text \<open>The snapshot a reference of the metadata points to.\<close>

definition ref_snapshot :: "gobj \<Rightarrow> string \<Rightarrow> int option" where
  "ref_snapshot m r =
     (case getMap m ''refs'' of None \<Rightarrow> None
      | Some refs \<Rightarrow> (case getMap refs r of None \<Rightarrow> None | Some ref \<Rightarrow> getInt ref ''snapshot-id''))"

lemma getMap_reload: "getMap (map (map_prod id reload) m) k = map_option (map (map_prod id reload)) (getMap m k)"
proof (cases "mget m k")
  case (Some v)
  then show ?thesis by (cases v) (simp_all add: getMap_def mget_reload)
qed (simp add: getMap_def mget_reload)

lemma float_int_reload:
  assumes "getInt m k = Some i" "\<bar>i\<bar> \<le> 2 ^ 53"
  shows "float_int (map (map_prod id reload) m) k = Some i"
proof -
  obtain f where "f64_of_int i = Some f" "f64_to_int f = i" using assms(2) by (rule f64_of_int_exact)
  moreover obtain v where "mget m k = Some v" "num_of_val v = Some i"
    using assms(1) by (auto simp: getInt_def split: option.splits)
  ultimately show ?thesis by (cases v) (auto simp: float_int_def mget_reload)
qed

lemma stale_requirement:
  assumes "ref_snapshot m r = Some i" "\<bar>i\<bar> \<le> 2 ^ 53" "rq_type rq = ''assert-ref-snapshot-id''" "rq_ref rq = r"
    "rq_snapshot rq \<noteq> Some i"
  shows "\<not> validateRequirement (map (map_prod id reload) m) rq"
proof -
  obtain refs ref where h: "getMap m ''refs'' = Some refs" "getMap refs r = Some ref" "getInt ref ''snapshot-id'' = Some i"
    using assms(1) by (auto simp: ref_snapshot_def split: option.splits)
  then have "mget (map (map_prod id reload) m) ''refs'' = Some (GObj (map (map_prod id reload) refs))"
      "mget (map (map_prod id reload) refs) r = Some (GObj (map (map_prod id reload) ref))"
    by (auto simp: getMap_def mget_reload split: option.splits gval.splits)
  with float_int_reload [OF h(3) assms(2)] assms(3-5) show ?thesis
    by (simp add: validateRequirement_def int_matches_def)
qed

lemma commit_tx_good:
  assumes "catalog_ok d"
  shows "\<exists>y d'. commit_tx ns t req now d = (Inr y, d')"
proof (cases "sql_table ns t d")
  case None
  then show ?thesis by (simp add: commit_tx_def)
next
  case (Some row)
  from sql_table_row [OF Some] assms have ok: "metadata_ok ''table-uuid'' (it_meta row)"
    by (simp add: catalog_ok_def rows_ok_def list_all_iff)
  then obtain m0 where m0: "load_meta (it_meta row) = Some m0" by (auto elim: metadata_okE)
  from commit_row_good [OF ok m0, of req now d] Some show ?thesis
    by (auto simp: commit_tx_def split: option.splits prod.splits apply_result.splits)
qed

lemma run_CommitTable_200:
  assumes "catalog_ok d" "0 \<le> lc_max_retries (cc_lock cfg)"
    "run (CommitTable cfg now param t (Some req)) d = ((Resp 200 b, effs), d1)"
  obtains loc m where "commit_tx (parseNamespace param) t req now d = (Inr (Committed loc m), d1)"
    "Resp 200 b = load_response loc m"
proof -
  obtain x d2 where x: "commit_tx (parseNamespace param) t req now d = (Inr x, d2)"
    using commit_tx_good [OF assms(1)] by blast
  note r = run_CommitTable [OF assms(2) x, unfolded assms(3)]
  show ?thesis
  proof (cases x)
    case (Committed loc m)
    with r x that show ?thesis by simp
  next
    case (CommitErr s)
    from commit_tx_err [OF x [unfolded this]] obtain e where
      "commit_error_response (parseNamespace param) t s = Some e" "status_of e \<noteq> Some 200" by blast
    with r CommitErr show ?thesis by (auto simp: status_of_def)
  next
    case (CommitPanic s)
    with r show ?thesis by simp
  qed
qed

lemma committed_st: "committed_as req now old m loc \<Longrightarrow> in_int64 now \<Longrightarrow> st m"
  by (auto simp: committed_as_def simp del: storable.simps(8) split: option.splits
      intro!: st_mput dest!: load_meta_st elim: st_Apply)

text \<open>The table after a commit.\<close>

lemma committed_row:
  assumes "catalog_ok d" "in_int64 now" "commit_tx ns t req now d = (Inr (Committed loc m), d1)"
  shows "\<exists>row. sql_table ns t d1 = Some row \<and> it_loc row = loc \<and> load_meta (it_meta row) = Some (map (map_prod id reload) m)"
proof -
  from commit_tx_committed [OF catalog_ok_db [OF assms(1)] assms(3)] obtain old where
    c: "committed_as req now old m loc" "tables.catalog d1 = (tables.catalog d)((ns, t) \<mapsto> (loc, encode (GObj m)))"
    by blast
  from fun_cong [OF c(2), of "(ns, t)"] load_meta_encode [OF committed_st [OF c(1) assms(2)]]
  show ?thesis by (auto simp: tables.catalog_def simp del: encode.simps)
qed

lemma commit_rejected:
  assumes "catalog_ok d" "0 \<le> lc_max_retries (cc_lock cfg)" "sql_table (parseNamespace param) t d = Some row"
    "load_meta (it_meta row) = Some m0" "rq \<in> set (cm_requirements req)" "\<not> validateRequirement m0 rq"
  shows "\<exists>s. run (CommitTable cfg now param t (Some req)) d = ((commit_failed s, []), d)"
proof -
  from assms(5,6) obtain r where r: "List.find (\<lambda>r. \<not> validateRequirement m0 r) (cm_requirements req) = Some r"
    by (cases "List.find (\<lambda>r. \<not> validateRequirement m0 r) (cm_requirements req)") (auto simp: find_None_iff)
  from sql_table_row [OF assms(3)] assms(1) have ok: "metadata_ok ''table-uuid'' (it_meta row)"
    by (simp add: catalog_ok_def rows_ok_def list_all_iff)
  from commit_row_good [OF ok assms(4), of req now d] r assms(3)
  have "commit_tx (parseNamespace param) t req now d = (Inr (CommitErr (''requirement_failed:'' @ rq_type r)), d)"
    by (simp add: commit_tx_def)
  from run_CommitTable [OF assms(2) this]
  show ?thesis by (intro exI [of _ "''Requirement failed: '' @ rq_type r"]) (simp add: commit_errors)
qed

text \<open>A commit that requires a reference to be elsewhere than the last commit left it.\<close>

lemma after_commit_rejected:
  assumes "catalog_ok d" "in_int64 now" "0 \<le> lc_max_retries (cc_lock cfg)"
    "run (CommitTable cfg now param t (Some req1)) d = ((load_response loc m, effs), d1)"
    "ref_snapshot m r = Some i" "\<bar>i\<bar> \<le> 2 ^ 53"
    "rq \<in> set (cm_requirements req2)" "rq_type rq = ''assert-ref-snapshot-id''" "rq_ref rq = r" "rq_snapshot rq \<noteq> Some i"
  shows "\<exists>s. run (CommitTable cfg now' param t (Some req2)) d1 = ((commit_failed s, []), d1)"
proof -
  let ?ns = "parseNamespace param"
  have ok1: "catalog_ok d1"
    using safe_run [OF safe_CommitTable [OF assms(2)] assms(1), of cfg param t "Some req1"] assms(4) by simp
  obtain loc' m' where c: "commit_tx ?ns t req1 now d = (Inr (Committed loc' m'), d1)" "load_response loc m = load_response loc' m'"
    using run_CommitTable_200 [OF assms(1,3)] assms(4) by (metis load_response_def)
  then have "m' = m" by (simp add: load_response_def)
  with committed_row [OF assms(1,2) c(1)] obtain row where
    row: "sql_table ?ns t d1 = Some row" "load_meta (it_meta row) = Some (map (map_prod id reload) m)" by auto
  from commit_rejected [OF ok1 assms(3) row assms(7) stale_requirement [OF assms(5,6,8-10)]] show ?thesis .
qed

text \<open>C18: a commit based on a stale snapshot is rejected: once a commit has been answered 200 with metadata in
  which a reference is at snapshot \<open>i\<close> (an id of at most 53 bits), a commit that requires the reference to
  be at another snapshot, or not to exist, is answered 409 and changes nothing.\<close>

theorem stale_commit_rejected:
  assumes "catalog_ok d" "in_int64 now" "0 \<le> lc_max_retries (cc_lock cfg)"
    "run (CommitTable cfg now param t (Some req1)) d = ((load_response loc m, effs), d1)"
    "ref_snapshot m r = Some i" "\<bar>i\<bar> \<le> 2 ^ 53"
    "rq \<in> set (cm_requirements req2)" "rq_type rq = ''assert-ref-snapshot-id''" "rq_ref rq = r" "rq_snapshot rq \<noteq> Some i"
  shows "\<exists>s. run (CommitTable cfg now' param t (Some req2)) d1 = ((commit_failed s, []), d1)"
  using assms by (rule after_commit_rejected)

theorem stale_commit_rejected_witness:
  "\<exists>d1 s. run (CommitTable sample_cfg 1800 ''a'' ''t'' (Some \<lparr>cm_requirements =
      [\<lparr>rq_type = ''assert-ref-snapshot-id'', rq_ref = ''main'', rq_uuid = [], rq_snapshot = Some 4, rq_field = None,
        rq_schema = None, rq_partition = None, rq_spec = None, rq_order = None\<rparr>], cm_updates = []\<rparr>)) d1 =
    ((commit_failed s, []), d1)"
proof -
  obtain loc m d1 where c: "commit_tx [''a''] ''t'' \<lparr>cm_requirements = [], cm_updates = []\<rparr> 1700 sample_db =
      (Inr (Committed loc m), d1)" using sample_commit by blast
  then have m: "m = mput (the (load_meta (it_meta sample_row))) ''last-updated-ms'' (GInt64 1700)"
    by (auto simp: commit_tx_def sample_table commit_row_def sample_meta_row updated_metadata_def Let_def
      getStringFromMap_def first8_def)
  have lc: "0 \<le> lc_max_retries (cc_lock sample_cfg)" by (simp add: sample_cfg_def)
  have r: "run (CommitTable sample_cfg 1700 ''a'' ''t'' (Some \<lparr>cm_requirements = [], cm_updates = []\<rparr>)) sample_db =
      ((load_response loc m, [Metric ''table_commit'' [dotted [''a''], ''t'']]), d1)"
    using run_CommitTable [OF lc, of "''a''" "''t''" _ _ _ _ d1] c by (simp add: sample_names)
  have i: "ref_snapshot m ''main'' = Some 5"
    unfolding m by (simp add: sample_meta_row ref_snapshot_def getMap_def getInt_def f64_to_int_def in_int64_def
        min_int64_def max_int64_def)
  show ?thesis
    by (rule exI [of _ d1], rule stale_commit_rejected [OF sample_db_ok _ lc r i])
      (simp add: in_int64_def min_int64_def max_int64_def, simp, simp, simp_all)
qed

section \<open>Creating, loading, dropping and renaming\<close>

lemma sql_table_catalog: "tables.catalog d (ns, t) = Some (loc, j) \<longleftrightarrow>
    (\<exists>row. sql_table ns t d = Some row \<and> it_loc row = loc \<and> it_meta row = j)"
  by (auto simp: tables.catalog_def)

text \<open>The location of a new table.\<close>

definition table_location :: "catalog_config \<Rightarrow> string list \<Rightarrow> create_table_req \<Rightarrow> string" where
  "table_location cfg ns req =
     (if ct_location req = [] then trim_suffix ''/'' (cc_warehouse cfg) @ ''/'' @ join_with ''/'' ns @ ''/'' @ ct_name req
      else ct_location req)"

text \<open>\<open>CreateTable\<close> up to the insertion.\<close>

lemma run_CreateTable:
  assumes "ct_name req \<noteq> []" "ct_schema req = Some schema" "sql_ns_id (parseNamespace param) d = Some i" "8 \<le> length uuid"
    "m = new_table_metadata req schema uuid (table_location cfg (parseNamespace param) req) now"
    "loc = metadata_location (table_location cfg (parseNamespace param) req) 0 now (take 8 uuid)"
  shows "run (CreateTable cfg uuid now param (Some req)) d =
    (case sql_insert_table i (ct_name req) loc (encode (GObj m)) d of
       Inl e \<Rightarrow> ((if IsDuplicateError e
                  then alreadyExistsError ''Table'' (dotted (parseNamespace param) @ ''.'' @ ct_name req)
                  else internalError ''failed to create table'' (sqe_text e), []), d)
     | Inr d1 \<Rightarrow> ((load_response loc m, [Metric ''table_created'' [dotted (parseNamespace param)]]), d1))"
  using assms by (simp add: CreateTable_def Let_def first8_def table_location_def map_sum_def del: encode.simps
    split: sum.splits)


definition sample_create :: create_table_req where
  "sample_create = \<lparr>ct_name = ''u'', ct_location = [], ct_schema = Some [], ct_spec = None, ct_order = None,
     ct_stage = False, ct_properties = None\<rparr>"

lemma sample_ns: "[''a''] \<in> dom (ns_map sample_db)" "([''a''], ''u'') \<notin> dom (tables.catalog sample_db)"
  by (auto simp: ns_map_def sql_namespace_def sample_db_def empty_db_def tables.catalog_def sql_table_def
      find_item_def sample_row_def)


text \<open>What a load answers depends on the entry of the catalog and the names of the namespaces.\<close>

lemma run_LoadTable:
  "run (LoadTable param t) d =
     (let ns = parseNamespace param in
      ((case tables.catalog d (ns, t) of
          None \<Rightarrow> if ns \<in> dom (ns_map d) then tableNotFound ns t else namespaceNotFound ns
        | Some (loc, j) \<Rightarrow> (case load_meta j of None \<Rightarrow> internalError ''failed to get table'' scan_error | Some m \<Rightarrow> load_response loc m),
        []), d))"
  by (cases "sql_table (parseNamespace param) t d")
    (auto simp: LoadTable_def missing_or_def Let_def tables.catalog_def sql_ns_exists_iff split: option.split)

lemma create_catalog:
  assumes "db_ok d" "create_req_ok req" "in_int64 now"
    "run (CreateTable cfg uuid now param (Some req)) d = ((load_response loc m, effs), d')"
  shows "st m \<and> ns_map d' = ns_map d \<and>
    tables.catalog d' = (tables.catalog d)((parseNamespace param, ct_name req) \<mapsto> (loc, encode (GObj m)))"
proof -
  let ?ns = "parseNamespace param"
  from assms(4) obtain schema i where h: "ct_schema req = Some schema" "sql_ns_id ?ns d = Some i"
      "m = new_table_metadata req schema uuid (table_location cfg ?ns req) now"
      "sql_insert_table i (ct_name req) loc (encode (GObj m)) d = Inr d'"
    by (auto simp: CreateTable_def Let_def load_response_def badRequest_def namespaceNotFound_def first8_def
        alreadyExistsError_def internalError_def table_location_def map_sum_def
        simp del: encode.simps split: if_splits option.splits sum.splits)
  have "st m" unfolding h(3) by (rule st_new_table_metadata [OF assms(2) h(1) assms(3)])
  moreover have "ns_map d' = ns_map d"
    using h(4) by (auto simp: sql_insert_table_def ns_map_def sql_namespace_def split: if_splits)
  ultimately show ?thesis using tables.catalog_insert [OF assms(1) h(2,4)] by (simp del: encode.simps)
qed

lemma commit_catalog:
  assumes "catalog_ok d" "in_int64 now" "0 \<le> lc_max_retries (cc_lock cfg)"
    "run (CommitTable cfg now param t (Some req)) d = ((load_response loc m, effs), d')"
  shows "st m \<and> ns_map d' = ns_map d \<and>
    tables.catalog d' = (tables.catalog d)((parseNamespace param, t) \<mapsto> (loc, encode (GObj m)))"
proof -
  obtain loc' m' where c: "commit_tx (parseNamespace param) t req now d = (Inr (Committed loc' m'), d')"
      "load_response loc m = load_response loc' m'"
    using run_CommitTable_200 [OF assms(1,3)] assms(4) by (metis load_response_def)
  then have "loc' = loc" "m' = m" by (simp_all add: load_response_def)
  with c(1) show ?thesis using commit_tx_committed [OF catalog_ok_db [OF assms(1)]] committed_st [OF _ assms(2)] by blast
qed

text \<open>C14: what a writer is told is what readers get.  After \<open>CreateTable\<close> or \<open>CommitTable\<close> has answered 200 with a
  location and metadata, \<open>LoadTable\<close> answers 200 with this location and this metadata, each integer as the
  nearest \<open>float64\<close>; loading any other table is answered as before.\<close>

theorem written_then_loaded:
  assumes "catalog_ok d" "in_int64 now"
    "create_req_ok creq \<and> ct_name creq = t \<and>
       run (CreateTable cfg uuid now param (Some creq)) d = ((load_response loc m, effs), d') \<or>
     0 \<le> lc_max_retries (cc_lock cfg) \<and>
       run (CommitTable cfg now param t (Some req)) d = ((load_response loc m, effs), d')"
  shows "run (LoadTable param t) d' = ((load_response loc (map (map_prod id reload) m), []), d') \<and>
    ((parseNamespace p', t') \<noteq> (parseNamespace param, t) \<longrightarrow>
       fst (run (LoadTable p' t') d') = fst (run (LoadTable p' t') d))"
proof -
  have c: "st m" "ns_map d' = ns_map d"
      "tables.catalog d' = (tables.catalog d)((parseNamespace param, t) \<mapsto> (loc, encode (GObj m)))"
    using create_catalog [OF catalog_ok_db [OF assms(1)] _ assms(2), of creq cfg uuid param loc m effs d']
      commit_catalog [OF assms(1,2), of cfg param t req loc m effs d'] assms(3) by (blast, blast, blast)
  then show ?thesis by (simp add: run_LoadTable Let_def load_meta_encode del: encode.simps)
qed

theorem written_then_loaded_witness:
  "\<exists>loc m d'. run (LoadTable ''a'' ''u'') d' = ((load_response loc (map (map_prod id reload) m), []), d') \<and>
     d' = snd (run (CreateTable sample_cfg ''01234567-89ab'' 1700 ''a'' (Some sample_create)) sample_db) \<and>
     fst (run (LoadTable ''a'' ''t'') d') = fst (run (LoadTable ''a'' ''t'') sample_db)"
proof -
  obtain loc m effs d' where r: "run (CreateTable sample_cfg ''01234567-89ab'' 1700 ''a'' (Some sample_create)) sample_db =
      ((load_response loc m, effs), d')"
    by (simp add: CreateTable_def Let_def sample_create_def sample_names first8_def sql_insert_table_def
        sql_ns_id_def sql_namespace_def sample_db_def empty_db_def key_taken_def has_ns_id_def sample_row_def del: encode.simps)
  have "create_req_ok sample_create" "ct_name sample_create = ''u''" by (simp_all add: create_req_ok_def sample_create_def)
  with r have "create_req_ok sample_create \<and> ct_name sample_create = ''u'' \<and>
      run (CreateTable sample_cfg ''01234567-89ab'' 1700 ''a'' (Some sample_create)) sample_db = ((load_response loc m, effs), d') \<or>
    0 \<le> lc_max_retries (cc_lock sample_cfg) \<and>
      run (CommitTable sample_cfg 1700 ''a'' ''u'' (Some \<lparr>cm_requirements = [], cm_updates = []\<rparr>)) sample_db = ((load_response loc m, effs), d')" by blast
  from written_then_loaded [OF sample_db_ok _ this, of "''a''" "''t''"] r
  show ?thesis by (auto simp: in_int64_def min_int64_def max_int64_def)
qed

text \<open>A new table can start out inconsistent: whatever is asked for, its default spec id and its default
  sort order id are 0, but without a partition spec or a write order in the request the lists of specs
  and of sort orders hold only a null, so neither default exists, and the first schema is not given the
  id 0 that the current schema has.\<close>

theorem new_table_dangling_defaults:
  assumes "ct_spec req = None" "ct_order req = None" "getInt schema ''schema-id'' = None"
    "m = new_table_metadata req schema uuid location now"
  shows "\<not> specs_ok m \<and> \<not> orders_ok m \<and> \<not> schemas_ok m \<and>
    slice_of m ''partition-specs'' = [GNil] \<and> slice_of m ''sort-orders'' = [GNil]"
  using assms(1-3) unfolding assms(4)
  by (simp add: new_table_metadata_def versioned_ok_def slice_of_def getSlice_def getInt_def [of "_ # _"]
      item_id_def map_or_null_def)

theorem new_table_dangling_defaults_witness:
  "\<not> specs_ok (new_table_metadata sample_create [(''type'', GStr ''struct'')] ''u'' ''l'' 0)"
  using new_table_dangling_defaults [of sample_create "[(''type'', GStr ''struct'')]"
      "new_table_metadata sample_create [(''type'', GStr ''struct'')] ''u'' ''l'' 0" "''u''" "''l''" 0]
  by (simp add: sample_create_def getInt_def)

lemma rename_same:
  assumes "db_ok d" "sql_ns_id ns d = Some i" "sql_table ns name d = Some row"
  shows "sql_rename_table i name i name d = Inr (1, d)"
proof -
  have "moved i name i name xs = xs" for xs unfolding moved_def by (rule map_idI) auto
  moreover have "key_taken i name (d_tables d)"
    using assms by (simp add: sql_table_def find_item_key key_taken_find)
  ultimately show ?thesis by (simp add: sql_rename_table_def sql_rename_def)
qed

lemma sql_ns_id_dom: "sql_ns_id ns d = None \<longleftrightarrow> ns \<notin> dom (ns_map d)"
  by (simp add: sql_ns_id_def ns_map_def domIff)

lemma catalog_dom: "(ns, t) \<in> dom (tables.catalog d) \<longleftrightarrow> sql_table ns t d \<noteq> None"
  by (simp add: tables.catalog_def domIff)

text \<open>\<open>RenameTable\<close> up to the update.\<close>

lemma run_RenameTable:
  assumes "sql_ns_id ns d = Some i" "sql_ns_id ns' d = Some i'"
  shows "run (RenameTable (Some \<lparr>rn_source = \<lparr>id_namespace = ns, id_name = t\<rparr>,
      rn_destination = \<lparr>id_namespace = ns', id_name = t'\<rparr>\<rparr>)) d =
    (case sql_rename_table i' t' i t d of
       Inl e \<Rightarrow> ((if IsDuplicateError e then alreadyExistsError ''Table'' (dotted ns' @ ''.'' @ t')
          else internalError ''failed to rename table'' (sqe_text e), []), d)
     | Inr (n, d1) \<Rightarrow> ((if n = 0 then tableNotFound ns t else Resp 204 None, []), d1))"
  using assms by (simp add: RenameTable_def Let_def split: sum.splits)



text \<open>C17: \<open>DropTable\<close> answers 204 exactly when the table exists, and then only that table is gone; \<open>LoadTable\<close>
  and \<open>TableExists\<close> then answer 404.  Otherwise it answers 404 and changes nothing.\<close>

theorem DropTable_spec:
  assumes "db_ok d" "ns = parseNamespace param" "run (DropTable param t) d = ((resp, effs), d')"
  shows "tables.catalog d' = (tables.catalog d)((ns, t) := None) \<and> ns_map d' = ns_map d \<and>
    (if (ns, t) \<in> dom (tables.catalog d) then resp = Resp 204 None
     else resp = (if ns \<in> dom (ns_map d) then tableNotFound ns t else namespaceNotFound ns)) \<and>
    fst (fst (run (LoadTable param t) d')) = (if ns \<in> dom (ns_map d) then tableNotFound ns t else namespaceNotFound ns) \<and>
    run (TableExists param t) d' = ((Resp 404 None, []), d')"
proof -
  obtain n d1 where del: "sql_delete_table ns t d = (n, d1)" by (metis surj_pair)
  from tables.delete_ok [OF assms(1) del]
  have k: "(0 < n) = (sql_table ns t d \<noteq> None)" "ns_map d1 = ns_map d" "sql_table ns t d1 = None" by auto
  have d': "d' = d1" and resp: "resp = (if n = 0 then if ns \<in> dom (ns_map d) then tableNotFound ns t
      else namespaceNotFound ns else Resp 204 None)"
    using assms(2,3) del k(2) by (auto simp: DropTable_def Let_def missing_or_def sql_ns_exists_iff split: if_splits)
  from k resp tables.catalog_delete [OF assms(1) del] assms(2) show ?thesis
    unfolding d' by (auto simp: catalog_dom LoadTable_def Let_def TableExists_def missing_or_def sql_ns_exists_iff)
qed

theorem DropTable_spec_witness:
  "\<exists>d'. run (DropTable ''a'' ''t'') sample_db = ((Resp 204 None, [Metric ''table_dropped'' [''a'']]), d') \<and>
    tables.catalog d' ([''a''], ''t'') = None"
proof -
  obtain resp effs d' where r: "run (DropTable ''a'' ''t'') sample_db = ((resp, effs), d')" by (metis surj_pair)
  moreover have "([''a''], ''t'') \<in> dom (tables.catalog sample_db)" by (simp add: catalog_dom sample_table)
  moreover from this r have "effs = [Metric ''table_dropped'' [''a'']]"
    using tables.delete_ok [OF catalog_ok_db [OF sample_db_ok], of "[''a'']" "''t''"]
    by (cases "sql_delete_table [''a''] ''t'' sample_db")
      (auto simp: DropTable_def Let_def sample_names catalog_dom dotted_def split: if_splits)
  ultimately show ?thesis
    using DropTable_spec [OF catalog_ok_db [OF sample_db_ok] sample_names [symmetric] r] by auto
qed

section \<open>Commits to several tables\<close>

text \<open>What is wrong with one change, seen from the catalog, and what is answered for it if nothing is.\<close>

definition change_error :: "db \<Rightarrow> table_change \<Rightarrow> fiber_error option" where
  "change_error d c =
     (let ns = id_namespace (tc_identifier c); name = id_name (tc_identifier c) in
      if ns \<notin> dom (ns_map d) then Some (404, ''Namespace does not exist: '' @ dotted ns)
      else (case tables.catalog d (ns, name) of
        None \<Rightarrow> Some (404, ''Table does not exist: '' @ dotted ns @ ''.'' @ name)
      | Some (loc, j) \<Rightarrow>
          map_option (\<lambda>r. (409, ''Requirement failed for table '' @ dotted ns @ ''.'' @ name @ '': '' @ rq_type r))
            (List.find (\<lambda>r. \<not> validateRequirement (the (load_meta j)) r) (tc_requirements c))))"

definition change_row :: "db \<Rightarrow> table_change \<Rightarrow> commit_result_row" where
  "change_row d c =
     (case the (tables.catalog d (id_namespace (tc_identifier c), id_name (tc_identifier c))) of
        (loc, j) \<Rightarrow> \<lparr>cr_identifier = tc_identifier c, cr_location = loc, cr_metadata = the (load_meta j)\<rparr>)"

lemma commitTableInTx_spec:
  assumes "catalog_ok d"
  shows "commitTableInTx c d = ((case change_error d c of Some e \<Rightarrow> Inl e | None \<Rightarrow> Inr (change_row d c)), d)"
proof -
  let ?ns = "id_namespace (tc_identifier c)" and ?t = "id_name (tc_identifier c)"
  note f = find_item_key [OF catalog_ok_db [OF assms], of ?ns ?t "d_tables d"]
  show ?thesis
  proof (cases "sql_table ?ns ?t d")
    case None
    with f show ?thesis
      by (auto simp: commitTableInTx_def change_error_def tables.catalog_def sql_table_def sql_ns_id_dom [symmetric] Let_def
          split: option.splits)
  next
    case (Some row)
    from sql_table_row [OF Some] assms have "metadata_ok ''table-uuid'' (it_meta row)"
      by (simp add: catalog_ok_def rows_ok_def list_all_iff)
    then obtain m0 where "load_meta (it_meta row) = Some m0" by (auto elim: metadata_okE)
    with f Some show ?thesis
      by (auto simp: commitTableInTx_def change_error_def change_row_def tables.catalog_def sql_table_def
          sql_ns_id_dom [symmetric] Let_def split: option.splits)
  qed
qed

lemma commit_changes_spec:
  assumes "catalog_ok d"
  shows "commit_changes cs d =
    ((case List.map_filter (change_error d) cs of e # _ \<Rightarrow> Inl e | [] \<Rightarrow> Inr (map (change_row d) cs)), d)"
  by (induction cs) (auto simp: commitTableInTx_spec [OF assms] map_filter_simps split: option.splits list.splits)



section \<open>Listing\<close>

definition listed_tables :: "(string \<Rightarrow> string \<Rightarrow> bool) \<Rightarrow> string list \<Rightarrow> string \<Rightarrow> db \<Rightarrow> string set" where
  "listed_tables coll ns after d =
     {t. (ns, t) \<in> dom (tables.catalog d) \<and> (after = [] \<or> \<not> coll t after)}"

lemma names_in_ns:
  assumes "db_ok d"
  shows "distinct (map it_name (filter (in_ns ns d) (d_tables d)))"
    "set (map it_name (filter (in_ns ns d) (d_tables d))) = {t. (ns, t) \<in> dom (tables.catalog d)}"
proof -
  have "distinct (map item_key_of (d_tables d))" using assms by (simp add: db_ok_def items_ok_def)
  then have "inj_on item_key_of (set (filter (in_ns ns d) (d_tables d)))" "distinct (filter (in_ns ns d) (d_tables d))"
    by (auto simp: distinct_map intro: inj_on_subset)
  moreover have "it_ns r = it_ns r'" if "in_ns ns d r" "in_ns ns d r'" for r r'
    using that by (simp add: in_ns_iff [OF assms])
  ultimately show "distinct (map it_name (filter (in_ns ns d) (d_tables d)))"
    by (auto simp: distinct_map inj_on_def item_key_of_def)
  show "set (map it_name (filter (in_ns ns d) (d_tables d))) = {t. (ns, t) \<in> dom (tables.catalog d)}"
    by (auto simp: catalog_dom sql_table_def find_item_def find_None_iff)
qed

text \<open>\<open>ListTables\<close> answers 404 for a missing namespace, and otherwise 200 with the first \<open>pageSize\<close> (clamped to
  1..1000) names after the token in the order of the collation, each once, and never with a next page
  token, however many tables are left; where the connection breaks, with the names that had arrived.\<close>

theorem ListTables_spec:
  assumes "collation coll" "db_ok d" "ns = parseNamespace param"
    "run (ListTables coll got param pageToken n) d = ((resp, effs), d')"
  shows "d' = d \<and>
    (if ns \<notin> dom (ns_map d) then resp = namespaceNotFound ns
     else \<exists>page. resp = Resp 200 (Some (GObj [(''identifiers'', GArr (map (ident_val ns) page))])) \<and>
       distinct page \<and> sorted_wrt coll page \<and> set page \<subseteq> listed_tables coll ns pageToken d \<and>
       length page = min (case got of None \<Rightarrow> nat (validatePageSize n) | Some k \<Rightarrow> min k (nat (validatePageSize n)))
         (card (listed_tables coll ns pageToken d)) \<and>
       (\<forall>x \<in> set page. \<forall>y \<in> listed_tables coll ns pageToken d - set page. coll x y))"
proof -
  define xs where "xs = filter (\<lambda>t. pageToken = [] \<or> \<not> coll t pageToken) (map it_name (filter (in_ns ns d) (d_tables d)))"
  define page where "page = take (case got of None \<Rightarrow> nat (validatePageSize n) | Some k \<Rightarrow> min k (nat (validatePageSize n)))
      (order_by coll xs)"
  have xs: "distinct xs" "set xs = listed_tables coll ns pageToken d"
    unfolding xs_def using names_in_ns [OF assms(2), of ns] by (auto simp: listed_tables_def)
  have q: "sql_list_items coll ns pageToken k (d_tables d) d = take k (order_by coll xs)" for k
    by (simp add: sql_list_items_def xs_def)
  have t: "total_order coll" using assms(1) by (simp add: collation_def)
  note spec = total_order.page_spec [OF t xs(1) page_def, unfolded xs(2)]
  have "0 < nat (validatePageSize n)" by (simp add: validatePageSize_def)
  then have empty: "page = []" if "ns \<notin> dom (ns_map d)"
  proof -
    have "listed_tables coll ns pageToken d = {}"
      using that tables.find_ns [OF assms(2), of ns] by (auto simp: listed_tables_def catalog_dom sql_ns_id_dom [symmetric])
    then show ?thesis using spec by simp
  qed
  have r: "run (ListTables coll got param pageToken n) d =
      ((if ns \<notin> dom (ns_map d) then namespaceNotFound ns
        else Resp 200 (Some (GObj [(''identifiers'', GArr (map (ident_val ns) page))])), []), d)"
    using empty
    by (auto simp: ListTables_def Let_def assms(3) [symmetric] q page_def [symmetric] scan_page_arriving token_member_def sql_ns_exists_iff)
  from assms(4) [unfolded r prod.inject] have "d' = d" and resp: "resp = (if ns \<notin> dom (ns_map d) then namespaceNotFound ns
      else Resp 200 (Some (GObj [(''identifiers'', GArr (map (ident_val ns) page))])))" by blast+
  with spec show ?thesis by (cases "ns \<in> dom (ns_map d)") (simp_all, blast)
qed

theorem ListTables_spec_witness:
  "\<exists>page. run (ListTables bytes_le None ''a'' [] 1) sample_db =
     ((Resp 200 (Some (GObj [(''identifiers'', GArr (map (ident_val [''a'']) page))])), []), sample_db) \<and> length page \<le> 1"
proof -
  obtain resp effs d' where r: "run (ListTables bytes_le None ''a'' [] 1) sample_db = ((resp, effs), d')" by (metis surj_pair)
  then have "effs = []" by (auto simp: ListTables_def Let_def split: if_splits prod.splits)
  with ListTables_spec [OF c_collation.collation_axioms catalog_ok_db [OF sample_db_ok] sample_names [symmetric] r]
    sample_ns r show ?thesis by (auto simp: validatePageSize_def)
qed

section \<open>Metadata files and views\<close>

text \<open>The number in the name of a metadata file does not tell commits apart: it is 1 for every commit, so
  two successful commits to one table within one millisecond give the same metadata location (the location
  and the UUID of the table unchanged), although the metadata may differ.\<close>

theorem metadata_location_repeats:
  assumes "catalog_ok d" "catalog_ok d1" "0 \<le> lc_max_retries (cc_lock cfg)"
    "run (CommitTable cfg now param t (Some req)) d = ((load_response loc m, effs), d2)"
    "run (CommitTable cfg now param t (Some req')) d1 = ((load_response loc' m', effs'), d3)"
    "getString m' ''location'' = getString m ''location''" "getString m' ''table-uuid'' = getString m ''table-uuid''"
  shows "loc' = loc"
proof -
  let ?ns = "parseNamespace param"
  obtain l n where "commit_tx ?ns t req now d = (Inr (Committed l n), d2)" "load_response loc m = load_response l n"
    using run_CommitTable_200 [OF assms(1,3)] assms(4) by (metis load_response_def)
  with commit_tx_committed [OF catalog_ok_db [OF assms(1)]] obtain old where a: "committed_as req now old m loc"
    by (fastforce simp: load_response_def)
  obtain l n where "commit_tx ?ns t req' now d1 = (Inr (Committed l n), d3)" "load_response loc' m' = load_response l n"
    using run_CommitTable_200 [OF assms(2,3)] assms(5) by (metis load_response_def)
  with commit_tx_committed [OF catalog_ok_db [OF assms(2)]] obtain old' where b: "committed_as req' now old' m' loc'"
    by (fastforce simp: load_response_def)
  from a b assms(6,7) show ?thesis by (auto simp: committed_as_def split: option.splits)
qed

theorem metadata_location_repeats_witness:
  "\<exists>loc m effs d1 d2 loc' m' effs'. run (CommitTable sample_cfg 1700 ''a'' ''t'' (Some \<lparr>cm_requirements = [], cm_updates = []\<rparr>))
      sample_db = ((load_response loc m, effs), d1) \<and>
    run (CommitTable sample_cfg 1700 ''a'' ''t'' (Some \<lparr>cm_requirements = [], cm_updates = []\<rparr>)) d1 =
      ((load_response loc' m', effs'), d2) \<and> loc' = loc"
proof -
  let ?req = "\<lparr>cm_requirements = [], cm_updates = []\<rparr> :: commit_table_req"
  have lc: "0 \<le> lc_max_retries (cc_lock sample_cfg)" by (simp add: sample_cfg_def)
  have now: "in_int64 1700" by (simp add: in_int64_def min_int64_def max_int64_def)
  obtain loc m d1 where c: "commit_tx [''a''] ''t'' ?req 1700 sample_db = (Inr (Committed loc m), d1)"
    using sample_commit by blast
  have ok: "catalog_ok d1" using commit_tx_safe [OF sample_db_ok c now] by blast
  from committed_row [OF sample_db_ok now c] obtain row where
    row: "sql_table [''a''] ''t'' d1 = Some row" "load_meta (it_meta row) = Some (map (map_prod id reload) m)" by blast
  have "metadata_ok ''table-uuid'' (it_meta row)"
    using sql_table_row [OF row(1)] ok by (simp add: catalog_ok_def rows_ok_def list_all_iff)
  define m' where "m' = mput (map (map_prod id reload) m) ''last-updated-ms'' (GInt64 1700)"
  from commit_row_good [OF \<open>metadata_ok ''table-uuid'' (it_meta row)\<close> row(2), of ?req 1700 d1]
  obtain loc' d2 where c': "commit_tx [''a''] ''t'' ?req 1700 d1 = (Inr (Committed loc' m'), d2)"
    by (auto simp: Apply_Nil commit_tx_def row(1) m'_def)
  have same: "getString m' ''location'' = getString m ''location''" "getString m' ''table-uuid'' = getString m ''table-uuid''"
    by (simp_all add: m'_def getString_reload)
  have r: "run (CommitTable sample_cfg 1700 ''a'' ''t'' (Some ?req)) sample_db =
      ((load_response loc m, [Metric ''table_commit'' [dotted [''a''], ''t'']]), d1)"
    "run (CommitTable sample_cfg 1700 ''a'' ''t'' (Some ?req)) d1 =
      ((load_response loc' m', [Metric ''table_commit'' [dotted [''a''], ''t'']]), d2)"
    using run_CommitTable [OF lc, of "''a''" "''t''" ?req 1700 sample_db _ d1] c
      run_CommitTable [OF lc, of "''a''" "''t''" ?req 1700 d1 _ d2] c' by (simp_all add: sample_names)
  with metadata_location_repeats [OF sample_db_ok ok lc r same] show ?thesis by blast
qed

end
