(* ===== verification/Scans.thy ===== *)
theory Scans
  imports TableProps
begin

text \<open>
  \<open>internal/api/handlers/scan.go\<close>: plans for scans of a table.  The id of a new plan (\<open>uuid.New\<close>) and
  the time in microseconds are arguments.  \<open>uuid_of\<close> reads the text of a UUID as the server does,
  \<open>None\<close> for a text that is none: a statement with such a text fails.
\<close>

record plan_req =
  pr_snapshot :: "int option"
  pr_select :: "string list option"
  pr_filter :: "gobj option"
  pr_case :: bool

definition invalid_uuid :: sql_error where
  "invalid_uuid = \<lparr>sqe_code = ''22P02'', sqe_text = ''invalid input syntax for type uuid''\<rparr>"

text \<open>A statement with a parameter of type \<open>UUID\<close>.\<close>

definition with_uuid ::
    "(string \<Rightarrow> nat option) \<Rightarrow> string \<Rightarrow> (nat \<Rightarrow> db \<Rightarrow> sql_error + 'a) \<Rightarrow> db \<Rightarrow> sql_error + 'a" where
  "with_uuid uuid_of s q d = (case uuid_of s of None \<Rightarrow> Inl invalid_uuid | Some i \<Rightarrow> q i d)"

definition hour_us :: int where
  "hour_us = 3600000000"

definition plan_data :: "plan_req \<Rightarrow> gobj" where
  "plan_data req =
     [(''snapshot-id'', case pr_snapshot req of Some n \<Rightarrow> GInt64 n | None \<Rightarrow> GNil),
      (''select'', case pr_select req of Some xs \<Rightarrow> GArr (map GStr xs) | None \<Rightarrow> GNil),
      (''filter'', case pr_filter req of Some m \<Rightarrow> GObj m | None \<Rightarrow> GNil),
      (''case-sensitive'', GBool (pr_case req))]"

section \<open>Statements\<close>

definition sql_insert_plan :: "nat \<Rightarrow> nat \<Rightarrow> json \<Rightarrow> int \<Rightarrow> db \<Rightarrow> sql_error + db" where
  "sql_insert_plan i tab dat expires d =
     (if i \<in> set (map pl_id (d_plans d)) then Inl unique_violation
      else if tab \<notin> set (map it_id (d_tables d)) then Inl foreign_key_violation
      else Inr (d\<lparr>d_plans := d_plans d @
        [\<lparr>pl_id = i, pl_table = tab, pl_data = dat, pl_status = ''pending'', pl_expires = expires\<rparr>]\<rparr>))"

definition set_plan_status :: "(plan_row \<Rightarrow> bool) \<Rightarrow> string \<Rightarrow> db \<Rightarrow> db" where
  "set_plan_status p status d =
     d\<lparr>d_plans := map (\<lambda>r. if p r then r\<lparr>pl_status := status\<rparr> else r) (d_plans d)\<rparr>"

text \<open>A plan of the table with a name, and the plan with an id among them.\<close>

definition plan_of :: "string list \<Rightarrow> string \<Rightarrow> db \<Rightarrow> plan_row \<Rightarrow> bool" where
  "plan_of ns name d p = list_ex (\<lambda>r. it_id r = pl_table p \<and> in_ns ns d r \<and> it_name r = name) (d_tables d)"

definition sql_plan :: "string list \<Rightarrow> string \<Rightarrow> nat \<Rightarrow> db \<Rightarrow> plan_row option" where
  "sql_plan ns name i d = List.find (\<lambda>p. plan_of ns name d p \<and> pl_id p = i) (d_plans d)"

text \<open>The \<open>UPDATE\<close> of a cancellation, and the number of its rows.\<close>

definition sql_cancel_plan :: "string list \<Rightarrow> string \<Rightarrow> nat \<Rightarrow> db \<Rightarrow> nat \<times> db" where
  "sql_cancel_plan ns name i d =
     (let p = (\<lambda>r. plan_of ns name d r \<and> pl_id r = i \<and> pl_status r \<in> {''pending'', ''running''})
      in (length (filter p (d_plans d)), set_plan_status p ''cancelled'' d))"

section \<open>Handlers\<close>

text \<open>The structs \<open>ScanPlanResponse\<close> and \<open>ScanPlanResult\<close>: an empty list of tasks is left out.\<close>

definition plan_val :: "string \<Rightarrow> string \<Rightarrow> gval" where
  "plan_val planID status = GObj [(''plan-id'', GStr planID), (''status'', GStr status)]"

definition plan_result :: "string \<Rightarrow> string \<Rightarrow> gval list \<Rightarrow> gval" where
  "plan_result planID status tasks =
     GObj ([(''plan-id'', GStr planID), (''status'', GStr status)] @
           (if tasks = [] then [] else [(''scan-tasks'', GArr tasks)]))"

definition planNotFound :: "string \<Rightarrow> response" where
  "planNotFound message = Resp 404 (Some (error_body message ''NoSuchPlanException'' 404))"

definition SubmitScanPlan ::
    "(string \<Rightarrow> nat option) \<Rightarrow> string \<Rightarrow> int \<Rightarrow> string \<Rightarrow> string \<Rightarrow> plan_req option \<Rightarrow> outcome prog" where
  "SubmitScanPlan uuid_of planID now param tableName body =
     (let namespaceName = parseNamespace param in
      case body of
        None \<Rightarrow> reply (badRequest ''invalid request body'')
      | Some req \<Rightarrow>
          query (sql_table namespaceName tableName)
            (\<lambda>e. reply (internalError ''failed to get table'' (sqe_text e)))
            (\<lambda>r. case r of
               None \<Rightarrow> reply (tableNotFound namespaceName tableName)
             | Some row \<Rightarrow>
                 let tableID = it_id row; expiresAt = now + hour_us in
                 exec (with_uuid uuid_of planID (\<lambda>i d. map_sum id (Pair ())
                         (sql_insert_plan i tableID (encode (GObj (plan_data req))) expiresAt d)))
                   (\<lambda>e. reply (internalError ''failed to create scan plan'' (sqe_text e)))
                   (\<lambda>_. let answer = reply (Resp 202 (Some (plan_val planID ''pending''))) in
                        exec (with_uuid uuid_of planID
                               (\<lambda>i d. Inr ((), set_plan_status (\<lambda>p. pl_id p = i) ''completed'' d)))
                          (\<lambda>e. answer) (\<lambda>_. answer))))"

definition GetScanPlan :: "(string \<Rightarrow> nat option) \<Rightarrow> string \<Rightarrow> string \<Rightarrow> string \<Rightarrow> outcome prog" where
  "GetScanPlan uuid_of param tableName planID =
     exec (with_uuid uuid_of planID (\<lambda>i d. Inr (sql_plan (parseNamespace param) tableName i d, d)))
       (\<lambda>e. reply (internalError ''failed to get scan plan'' (sqe_text e)))
       (\<lambda>r. case r of
          None \<Rightarrow> reply (planNotFound (''Scan plan not found: '' @ planID))
        | Some p \<Rightarrow>
            (case load_meta (pl_data p) of
               None \<Rightarrow> reply (internalError ''failed to get scan plan'' scan_error)
             | Some planData \<Rightarrow> reply (Resp 200 (Some (plan_result planID (pl_status p) [])))))"

definition CancelScanPlan :: "(string \<Rightarrow> nat option) \<Rightarrow> string \<Rightarrow> string \<Rightarrow> string \<Rightarrow> outcome prog" where
  "CancelScanPlan uuid_of param tableName planID =
     exec (with_uuid uuid_of planID (\<lambda>i d. Inr (sql_cancel_plan (parseNamespace param) tableName i d)))
       (\<lambda>e. reply (internalError ''failed to cancel scan plan'' (sqe_text e)))
       (\<lambda>n. reply (if n = 0 then planNotFound (''Scan plan not found or already completed: '' @ planID)
                  else Resp 204 None))"

text \<open>The body of \<open>FetchPlanTasks\<close> is its \<open>plan-id\<close>.\<close>

definition FetchPlanTasks :: "(string \<Rightarrow> nat option) \<Rightarrow> string \<Rightarrow> string \<Rightarrow> string option \<Rightarrow> outcome prog" where
  "FetchPlanTasks uuid_of param tableName body =
     (case body of
        None \<Rightarrow> reply (badRequest ''invalid request body'')
      | Some planID \<Rightarrow>
          if planID = [] then reply (badRequest ''plan-id is required'')
          else exec (with_uuid uuid_of planID (\<lambda>i d. Inr (sql_plan (parseNamespace param) tableName i d, d)))
            (\<lambda>e. reply (internalError ''failed to get scan plan'' (sqe_text e)))
            (\<lambda>r. case r of
               None \<Rightarrow> reply (planNotFound (''Scan plan not found: '' @ planID))
             | Some p \<Rightarrow>
                 reply (if pl_status p \<noteq> ''completed''
                   then Resp 400 (Some (error_body
                     (''Scan plan not ready: '' @ planID @ '' (status: '' @ pl_status p @ '')'')
                     ''PlanNotReadyException'' 400))
                   else Resp 200 (Some (plan_result planID (pl_status p) [])))))"

section \<open>Lemmas\<close>

lemma map_plan_set_status [simp]: "map pl_id (d_plans (set_plan_status p s d)) = map pl_id (d_plans d)"
  "map pl_table (d_plans (set_plan_status p s d)) = map pl_table (d_plans d)"
  by (auto simp: set_plan_status_def)

lemma catalog_ok_set_status: "catalog_ok d \<Longrightarrow> catalog_ok (set_plan_status p s d)"
proof -
  assume ok: "catalog_ok d"
  then have "list_all (\<lambda>r. pl_table r \<in> set (map it_id (d_tables d))) (d_plans (set_plan_status p s d))"
    by (auto simp: set_plan_status_def catalog_ok_def db_ok_def list_all_iff)
  moreover have "distinct (map pl_id (d_plans (set_plan_status p s d)))"
    using ok by (simp add: catalog_ok_def db_ok_def)
  ultimately show ?thesis using ok by (simp add: catalog_ok_def db_ok_def set_plan_status_def)
qed

lemma catalog_ok_insert_plan: "catalog_ok d \<Longrightarrow> sql_insert_plan i t j e d = Inr d' \<Longrightarrow> catalog_ok d'"
  by (auto simp: catalog_ok_def db_ok_def sql_insert_plan_def split: if_splits)

lemma catalog_ok_cancel: "catalog_ok d \<Longrightarrow> sql_cancel_plan ns t i d = (k, d') \<Longrightarrow> catalog_ok d'"
  by (auto simp: sql_cancel_plan_def Let_def catalog_ok_set_status)

lemma with_uuid_Inr: "with_uuid u s q d = Inr x \<longleftrightarrow> (\<exists>i. u s = Some i \<and> q i d = Inr x)"
  by (auto simp: with_uuid_def split: option.splits)

lemma answered_plan [simp]: "answered (planNotFound s, effs)"
  by (simp add: planNotFound_def)

lemma safe_SubmitScanPlan: "safe catalog_ok answered (SubmitScanPlan u planID now p t body)"
  by (auto simp: SubmitScanPlan_def Let_def with_uuid_Inr catalog_ok_set_status simp del: encode.simps
      split: option.splits intro!: safe_Done safe_query safe_exec)
    (blast intro: catalog_ok_insert_plan)+

lemma safe_GetScanPlan: "safe I answered (GetScanPlan u p t i)"
  by (auto simp: GetScanPlan_def with_uuid_Inr split: option.splits intro!: safe_Done safe_exec)

lemma safe_CancelScanPlan: "safe catalog_ok answered (CancelScanPlan u p t i)"
  by (auto simp: CancelScanPlan_def with_uuid_Inr intro!: safe_Done safe_exec intro: catalog_ok_cancel)

lemma safe_FetchPlanTasks: "safe I answered (FetchPlanTasks u p t body)"
  by (auto simp: FetchPlanTasks_def with_uuid_Inr split: option.splits intro!: safe_Done safe_exec)

lemmas scan_handlers_safe =
  safe_SubmitScanPlan safe_GetScanPlan safe_CancelScanPlan safe_FetchPlanTasks

section \<open>The life of a plan\<close>

definition plan_req_ok :: "plan_req \<Rightarrow> bool" where
  "plan_req_ok req \<longleftrightarrow> int_opt (pr_snapshot req) \<and> st_opt (pr_filter req)"

lemma load_plan_data:
  assumes "plan_req_ok req"
  shows "load_meta (encode (GObj (plan_data req))) \<noteq> None"
proof -
  have "st (plan_data req)"
    using assms by (auto simp: plan_req_ok_def plan_data_def in_int64_def min_int64_def max_int64_def
        wf_gomap_def mkeys_def list.pred_map comp_def list.pred_True split: option.splits)
  then show ?thesis by (simp add: load_meta_encode del: encode.simps)
qed

text \<open>The database with a new plan of a status.\<close>

definition with_plan :: "nat \<Rightarrow> nat \<Rightarrow> json \<Rightarrow> int \<Rightarrow> string \<Rightarrow> db \<Rightarrow> db" where
  "with_plan i tab dat expires status d = d\<lparr>d_plans := d_plans d @
     [\<lparr>pl_id = i, pl_table = tab, pl_data = dat, pl_status = status, pl_expires = expires\<rparr>]\<rparr>"

lemma in_ns_plans [simp]: "in_ns ns (d\<lparr>d_plans := xs\<rparr>) r = in_ns ns d r"
  by (simp add: in_ns_def)

lemma plan_of_plans [simp]: "plan_of ns t (d\<lparr>d_plans := xs\<rparr>) q = plan_of ns t d q"
  by (simp add: plan_of_def)

lemma plan_of_table: "sql_table ns t d = Some row \<Longrightarrow> pl_table q = it_id row \<Longrightarrow> plan_of ns t d q"
  by (auto simp: plan_of_def sql_table_def find_item_def list_ex_iff dest!: find_SomeD)

lemma map_unless: "i \<notin> f ` set xs \<Longrightarrow> map (\<lambda>r. if f r = i \<and> P r then g r else r) xs = xs"
  "i \<notin> f ` set xs \<Longrightarrow> map (\<lambda>r. if Q r \<and> f r = i \<and> P r then g r else r) xs = xs"
  "i \<notin> f ` set xs \<Longrightarrow> map (\<lambda>r. if f r = i then g r else r) xs = xs"
  by (induction xs) auto

lemma set_status_with_plan:
  "i \<notin> set (map pl_id (d_plans d)) \<Longrightarrow>
   set_plan_status (\<lambda>q. pl_id q = i) s (with_plan i t j e s0 d) = with_plan i t j e s d"
  by (simp add: set_plan_status_def with_plan_def map_unless)

lemma sql_plan_with_plan:
  assumes "sql_table ns t d = Some row" "i \<notin> set (map pl_id (d_plans d))"
  shows "sql_plan ns t i (with_plan i (it_id row) j e s d) =
    Some \<lparr>pl_id = i, pl_table = it_id row, pl_data = j, pl_status = s, pl_expires = e\<rparr>"
proof -
  have "List.find (\<lambda>q. plan_of ns t d q \<and> pl_id q = i) (d_plans d) = None"
    using assms(2) by (auto simp: find_None_iff)
  then show ?thesis
    by (simp add: sql_plan_def with_plan_def find_append plan_of_table [OF assms(1)])
qed

lemma sql_cancel_with_plan:
  assumes "sql_table ns t d = Some row" "i \<notin> set (map pl_id (d_plans d))"
  shows "sql_cancel_plan ns t i (with_plan i (it_id row) j e s d) =
    (if s \<in> {''pending'', ''running''} then (1, with_plan i (it_id row) j e ''cancelled'' d)
     else (0, with_plan i (it_id row) j e s d))"
proof -
  have "filter (\<lambda>r. plan_of ns t d r \<and> pl_id r = i \<and> P r) (d_plans d) = []" for P
    using assms(2) by (auto simp: filter_empty_conv)
  then show ?thesis using assms(2)
    by (simp add: sql_cancel_plan_def Let_def with_plan_def set_plan_status_def map_unless
        plan_of_table [OF assms(1)])
qed

lemma sql_insert_with_plan:
  assumes "sql_table ns t d = Some row" "i \<notin> set (map pl_id (d_plans d))"
  shows "sql_insert_plan i (it_id row) j e d = Inr (with_plan i (it_id row) j e ''pending'' d)"
  using assms by (auto simp: sql_insert_plan_def with_plan_def sql_table_def find_item_def dest!: find_SomeD)

text \<open>A scan plan is never pending for anybody to see: \<open>SubmitScanPlan\<close> on an existing table answers 202
  with status \<open>pending\<close>, and has already marked the plan completed.  From then on \<open>GetScanPlan\<close> and
  \<open>FetchPlanTasks\<close> answer 200 with status \<open>completed\<close> and without a member \<open>scan-tasks\<close>, however late,
  and \<open>CancelScanPlan\<close> answers 404 and changes nothing.  Only when the second statement, whose error is
  ignored, fails does the plan stay pending; it can then be cancelled once and its tasks are refused.\<close>

theorem scan_plan_lifecycle:
  assumes "sql_table (parseNamespace p) t d = Some row" "u planID = Some i" "i \<notin> set (map pl_id (d_plans d))"
    "planID \<noteq> []" "plan_req_ok req"
  shows "\<exists>d' d2 d3.
    run (SubmitScanPlan u planID now p t (Some req)) d = ((Resp 202 (Some (plan_val planID ''pending'')), []), d') \<and>
    run (GetScanPlan u p t planID) d' = ((Resp 200 (Some (plan_val planID ''completed'')), []), d') \<and>
    run (FetchPlanTasks u p t (Some planID)) d' = ((Resp 200 (Some (plan_val planID ''completed'')), []), d') \<and>
    run (CancelScanPlan u p t planID) d' =
      ((planNotFound (''Scan plan not found or already completed: '' @ planID), []), d') \<and>
    play [None, None, Some e] (SubmitScanPlan u planID now p t (Some req)) d =
      (Done (Resp 202 (Some (plan_val planID ''pending'')), []), d2) \<and>
    status_of (fst (fst (run (FetchPlanTasks u p t (Some planID)) d2))) = Some 400 \<and>
    run (CancelScanPlan u p t planID) d2 = ((Resp 204 None, []), d3) \<and>
    status_of (fst (fst (run (CancelScanPlan u p t planID) d3))) = Some 404"
proof -
  let ?j = "encode (GObj (plan_data req))"
  let ?w = "\<lambda>s. with_plan i (it_id row) ?j (now + hour_us) s d"
  obtain m where m: "load_meta ?j = Some m" using load_plan_data [OF assms(5)] by blast
  note facts = sql_insert_with_plan [OF assms(1,3)] sql_plan_with_plan [OF assms(1,3)]
    sql_cancel_with_plan [OF assms(1,3)] set_status_with_plan [OF assms(3)]
  show ?thesis
    by (rule exI [of _ "?w ''completed''"], rule exI [of _ "?w ''pending''"], rule exI [of _ "?w ''cancelled''"])
      (use assms(1,2,4) m in \<open>simp add: SubmitScanPlan_def GetScanPlan_def FetchPlanTasks_def CancelScanPlan_def
        with_uuid_def facts exec_def query_def Let_def plan_result_def plan_val_def status_of_def planNotFound_def
        del: encode.simps\<close>)
qed

theorem scan_plan_lifecycle_witness:
  "\<exists>d'. run (SubmitScanPlan (\<lambda>s. Some (length s)) ''p1'' 5 ''a'' ''t''
       (Some \<lparr>pr_snapshot = Some 7, pr_select = None, pr_filter = None, pr_case = True\<rparr>)) sample_db =
       ((Resp 202 (Some (plan_val ''p1'' ''pending'')), []), d') \<and>
     run (CancelScanPlan (\<lambda>s. Some (length s)) ''a'' ''t'' ''p1'') d' =
       ((planNotFound ''Scan plan not found or already completed: p1'', []), d')"
  using scan_plan_lifecycle [of "''a''" "''t''" sample_db sample_row "\<lambda>s. Some (length s)" "''p1''" 2
      "\<lparr>pr_snapshot = Some 7, pr_select = None, pr_filter = None, pr_case = True\<rparr>" 5]
  by (simp add: sample_names sample_table plan_req_ok_def in_int64_def min_int64_def max_int64_def)
    (auto simp: sample_db_def empty_db_def)

end
