(* ===== verification/Keys.thy ===== *)
theory Keys
  imports Scans
begin

text \<open>
  API keys and OAuth tokens: \<open>internal/api/handlers/apikeys.go\<close>, \<open>internal/api/handlers/oauth.go\<close>, the
  type \<open>Principal\<close> and the two validations of \<open>internal/api/middleware/auth.go\<close>.

  Parameters: \<open>H\<close> is \<open>hashToken\<close>/\<open>hashAPIKey\<close>, the hexadecimal SHA-256; \<open>uuid_of\<close> and \<open>uuid_text\<close> are the
  server's reading and printing of UUIDs; \<open>fmt\<close> prints a time in JSON.  A time is a number of nanoseconds,
  as in Go; the database keeps microseconds.  All calls of \<open>time.Now\<close> in one request give one instant.
  The random bytes of a request are an argument, \<open>None\<close> where \<open>rand.Read\<close> fails.
\<close>

record principal =
  pc_id :: string
  pc_type :: string
  pc_scopes :: "string list"
  pc_client :: string

record auth_config =
  au_enabled :: bool
  au_oauth2 :: bool
  au_client_id :: string
  au_client_secret :: string
  au_api_key :: bool
  au_acl :: bool
  au_default :: string
  au_token_expiry :: int
  au_polaris :: bool

definition to_us :: "int \<Rightarrow> int" where
  "to_us t = t div 1000"

definition from_us :: "int \<Rightarrow> int" where
  "from_us t = t * 1000"

definition hour_ns :: int where
  "hour_ns = 3600000000000"

text \<open>\<open>int(d.Seconds())\<close>: the seconds and the nanoseconds over 1e9 are added as \<open>float64\<close>s.\<close>

definition quot :: "int \<Rightarrow> int \<Rightarrow> int" where
  "quot a b = sgn a * (\<bar>a\<bar> div b)"

definition duration_seconds :: "int \<Rightarrow> int" where
  "duration_seconds d =
     (let sec = quot d 1000000000; nsec = d - sec * 1000000000 in
      case f64_of_ratio nsec 1000000000 of
        None \<Rightarrow> sec
      | Some (F64 m e) \<Rightarrow>
          (case f64_of_ratio (sec * 2 ^ nat (- e) + m) (2 ^ nat (- e)) of
             None \<Rightarrow> sec | Some f \<Rightarrow> f64_trunc f))"

section \<open>Generated secrets\<close>

text \<open>\<open>base64.RawURLEncoding\<close> and \<open>hex.EncodeToString\<close>, on bytes.\<close>

definition b64_chars :: string where
  "b64_chars = ''ABCDEFGHIJKLMNOPQRSTUVWXYZabcdefghijklmnopqrstuvwxyz0123456789-_''"

fun base64url :: "nat list \<Rightarrow> string" where
  "base64url [] = []"
| "base64url [a] = [b64_chars ! (a div 4), b64_chars ! (a mod 4 * 16)]"
| "base64url [a, b] = [b64_chars ! (a div 4), b64_chars ! (a mod 4 * 16 + b div 16), b64_chars ! (b mod 16 * 4)]"
| "base64url (a # b # c # rest) =
     b64_chars ! (a div 4) # b64_chars ! (a mod 4 * 16 + b div 16) #
     b64_chars ! (b mod 16 * 4 + c div 64) # b64_chars ! (c mod 64) # base64url rest"

definition hex_chars :: string where
  "hex_chars = ''0123456789abcdef''"

definition hex_encode :: "nat list \<Rightarrow> string" where
  "hex_encode bs = concat (map (\<lambda>b. [hex_chars ! (b div 16), hex_chars ! (b mod 16)]) bs)"

definition generateAPIKey :: "nat list option \<Rightarrow> string option" where
  "generateAPIKey random = map_option (\<lambda>bs. ''bingsan_'' @ base64url bs) random"

definition generateToken :: "nat list option \<Rightarrow> string option" where
  "generateToken random = map_option hex_encode random"

section \<open>Durations\<close>

definition unit_ns :: "char \<Rightarrow> int option" where
  "unit_ns c =
     (if c = CHR ''d'' then Some (24 * hour_ns)
      else if c = CHR ''w'' then Some (7 * 24 * hour_ns)
      else if c = CHR ''m'' then Some (30 * 24 * hour_ns)
      else if c = CHR ''y'' then Some (365 * 24 * hour_ns)
      else if c = CHR ''h'' then Some hour_ns
      else None)"

text \<open>The loop over the digits; \<open>int\<close> has 64 bits.\<close>

fun parse_digits :: "int \<Rightarrow> string \<Rightarrow> int option" where
  "parse_digits n [] = Some n"
| "parse_digits n (c # cs) =
     (let v = of_char c :: int in
      if v < 48 \<or> 57 < v then None else parse_digits (wrap64 (n * 10 + (v - 48))) cs)"

definition parseDuration :: "string \<Rightarrow> int option" where
  "parseDuration s =
     (if length s < 2 then None
      else case unit_ns (last s) of
        None \<Rightarrow> None
      | Some multiplier \<Rightarrow> map_option (\<lambda>n. wrap64 (n * multiplier)) (parse_digits 0 (butlast s)))"

section \<open>Statements\<close>

definition sql_insert_key :: "key_row \<Rightarrow> db \<Rightarrow> sql_error + db" where
  "sql_insert_key r d =
     (if kr_id r \<in> set (map kr_id (d_keys d)) \<or> kr_hash r \<in> set (map kr_hash (d_keys d)) then Inl unique_violation
      else Inr (d\<lparr>d_keys := d_keys d @ [r]\<rparr>))"

definition sql_key :: "nat \<Rightarrow> db \<Rightarrow> key_row option" where
  "sql_key i d = List.find (\<lambda>r. kr_id r = i) (d_keys d)"

definition update_key :: "nat \<Rightarrow> (key_row \<Rightarrow> key_row) \<Rightarrow> db \<Rightarrow> db" where
  "update_key i h d = d\<lparr>d_keys := map (\<lambda>r. if kr_id r = i then h r else r) (d_keys d)\<rparr>"

text \<open>\<open>UPDATE api_keys SET key_hash = $1, previous_key_hash = $2, rotated_at = $3 WHERE id = $4\<close>\<close>

definition sql_rotate_key :: "string \<Rightarrow> string \<Rightarrow> int \<Rightarrow> nat \<Rightarrow> db \<Rightarrow> sql_error + db" where
  "sql_rotate_key new old at i d =
     (if list_ex (\<lambda>r. kr_hash r = new \<and> kr_id r \<noteq> i) (d_keys d) \<and> list_ex (\<lambda>r. kr_id r = i) (d_keys d)
      then Inl unique_violation
      else Inr (update_key i (\<lambda>r. r\<lparr>kr_hash := new, kr_prev := Some old, kr_rotated := Some at\<rparr>) d))"

definition sql_delete_key :: "nat \<Rightarrow> db \<Rightarrow> nat \<times> db" where
  "sql_delete_key i d =
     (length (filter (\<lambda>r. kr_id r = i) (d_keys d)), d\<lparr>d_keys := filter (\<lambda>r. kr_id r \<noteq> i) (d_keys d)\<rparr>)"

text \<open>The keys that have not expired, the newest first.\<close>

definition sql_list_keys :: "int \<Rightarrow> db \<Rightarrow> key_row list" where
  "sql_list_keys now d =
     order_by (\<lambda>a b. kr_created b \<le> kr_created a)
       (filter (\<lambda>r. case kr_expires r of None \<Rightarrow> True | Some e \<Rightarrow> now < e) (d_keys d))"

definition sql_current_key :: "string \<Rightarrow> db \<Rightarrow> key_row option" where
  "sql_current_key h d = List.find (\<lambda>r. kr_hash r = h) (d_keys d)"

definition sql_previous_key :: "string \<Rightarrow> int \<Rightarrow> db \<Rightarrow> key_row option" where
  "sql_previous_key h since d =
     List.find (\<lambda>r. kr_prev r = Some h \<and> (case kr_rotated r of None \<Rightarrow> False | Some t \<Rightarrow> since < t)) (d_keys d)"

definition sql_touch_key :: "int \<Rightarrow> nat \<Rightarrow> db \<Rightarrow> db" where
  "sql_touch_key at i d = update_key i (\<lambda>r. r\<lparr>kr_used := Some at\<rparr>) d"

definition sql_token :: "string \<Rightarrow> int \<Rightarrow> db \<Rightarrow> token_row option" where
  "sql_token h now d = List.find (\<lambda>r. tk_hash r = h \<and> now < tk_expires r) (d_tokens d)"

definition sql_insert_token :: "token_row \<Rightarrow> db \<Rightarrow> sql_error + db" where
  "sql_insert_token r d =
     (if tk_hash r \<in> set (map tk_hash (d_tokens d)) then Inl unique_violation
      else Inr (d\<lparr>d_tokens := d_tokens d @ [r]\<rparr>))"

section \<open>The handlers of API keys\<close>

definition apiError :: "int \<Rightarrow> string \<Rightarrow> string \<Rightarrow> outcome prog" where
  "apiError code message ty = reply (Resp code (Some (error_body message ty code)))"

definition unauthorized :: "outcome prog" where
  "unauthorized = apiError 401 ''unauthorized'' ''NotAuthorizedException''"

text \<open>The struct \<open>APIKeyResponse\<close>.\<close>

definition time_member :: "(int \<Rightarrow> string) \<Rightarrow> string \<Rightarrow> int option \<Rightarrow> gobj" where
  "time_member fmt name t = (case t of None \<Rightarrow> [] | Some x \<Rightarrow> [(name, GStr (fmt x))])"

definition key_val ::
    "(int \<Rightarrow> string) \<Rightarrow> string \<Rightarrow> string \<Rightarrow> string \<Rightarrow> string list \<Rightarrow> int option \<Rightarrow> int \<Rightarrow> int option \<Rightarrow> int option \<Rightarrow> gval" where
  "key_val fmt i name key scopes expires created used rotated =
     GObj ([(''id'', GStr i), (''name'', GStr name)] @ (if key = [] then [] else [(''key'', GStr key)]) @
       [(''scopes'', GArr (map GStr scopes))] @ time_member fmt ''expires_at'' expires @
       [(''created_at'', GStr (fmt created))] @ time_member fmt ''last_used_at'' used @
       time_member fmt ''rotated_at'' rotated)"

definition ListAPIKeys ::
    "nat option \<Rightarrow> (nat \<Rightarrow> string) \<Rightarrow> (int \<Rightarrow> string) \<Rightarrow> int \<Rightarrow> principal option \<Rightarrow> outcome prog" where
  "ListAPIKeys got uuid_text fmt now who =
     (case who of
        None \<Rightarrow> unauthorized
      | Some _ \<Rightarrow>
          query (sql_list_keys (to_us now))
            (\<lambda>e. apiError 500 ''failed to list API keys'' ''ServerError'')
            (\<lambda>rows. reply (Resp 200 (Some (GObj [(''keys'', GArr (map (\<lambda>r.
               key_val fmt (uuid_text (kr_id r)) (kr_name r) [] (kr_scopes r) (map_option from_us (kr_expires r))
                 (from_us (kr_created r)) (map_option from_us (kr_used r)) (map_option from_us (kr_rotated r)))
               (arriving got rows)))])))))"

record create_key_req =
  ck_name :: string
  ck_scopes :: "string list"
  ck_expires_in :: "string option"

definition CreateAPIKey ::
    "(string \<Rightarrow> string) \<Rightarrow> (string \<Rightarrow> nat option) \<Rightarrow> (int \<Rightarrow> string) \<Rightarrow> nat list option \<Rightarrow> string \<Rightarrow> int \<Rightarrow>
     principal option \<Rightarrow> create_key_req option \<Rightarrow> outcome prog" where
  "CreateAPIKey H uuid_of fmt random uuid now who body =
     (case who of
        None \<Rightarrow> unauthorized
      | Some _ \<Rightarrow>
     (case body of
        None \<Rightarrow> apiError 400 ''invalid request body'' ''BadRequestException''
      | Some req \<Rightarrow>
          if ck_name req = [] then apiError 400 ''name is required'' ''BadRequestException''
          else (case generateAPIKey random of
            None \<Rightarrow> apiError 500 ''failed to generate API key'' ''ServerError''
          | Some rawKey \<Rightarrow>
              let expiry = (case ck_expires_in req of
                    None \<Rightarrow> Some None
                  | Some s \<Rightarrow> map_option (\<lambda>dur. Some (now + dur)) (parseDuration s))
              in (case expiry of
                None \<Rightarrow> apiError 400 ''invalid expires_in format'' ''BadRequestException''
              | Some expiresAt \<Rightarrow>
                  let scopes = (if ck_scopes req = [] then [''catalog''] else ck_scopes req) in
                  exec (with_uuid uuid_of uuid (\<lambda>i d. map_sum id (Pair ()) (sql_insert_key
                         \<lparr>kr_id = i, kr_hash = H rawKey, kr_name = ck_name req, kr_scopes = scopes,
                          kr_created = to_us now, kr_expires = map_option to_us expiresAt, kr_used = None,
                          kr_prev = None, kr_rotated = None\<rparr> d)))
                    (\<lambda>e. apiError 500 ''failed to create API key'' ''ServerError'')
                    (\<lambda>_. reply (Resp 201 (Some (key_val fmt uuid (ck_name req) rawKey scopes expiresAt now None None))))))))"

definition RotateAPIKey ::
    "(string \<Rightarrow> string) \<Rightarrow> (string \<Rightarrow> nat option) \<Rightarrow> (int \<Rightarrow> string) \<Rightarrow> nat list option \<Rightarrow> int \<Rightarrow>
     principal option \<Rightarrow> string \<Rightarrow> outcome prog" where
  "RotateAPIKey H uuid_of fmt random now who keyID =
     (case who of
        None \<Rightarrow> unauthorized
      | Some _ \<Rightarrow>
          if keyID = [] then apiError 400 ''key ID is required'' ''BadRequestException''
          else
            let not_found = apiError 404 ''API key not found'' ''NotFoundException'' in
            exec (with_uuid uuid_of keyID (\<lambda>i d. Inr (sql_key i d, d)))
              (\<lambda>e. not_found)
              (\<lambda>r. case r of
                 None \<Rightarrow> not_found
               | Some row \<Rightarrow>
                   (case generateAPIKey random of
                      None \<Rightarrow> apiError 500 ''failed to generate new API key'' ''ServerError''
                    | Some newRawKey \<Rightarrow>
                        exec (with_uuid uuid_of keyID (\<lambda>i d. map_sum id (Pair ())
                               (sql_rotate_key (H newRawKey) (kr_hash row) (to_us now) i d)))
                          (\<lambda>e. apiError 500 ''failed to rotate API key'' ''ServerError'')
                          (\<lambda>_. reply (Resp 200 (Some (key_val fmt keyID (kr_name row) newRawKey (kr_scopes row)
                             (map_option from_us (kr_expires row)) (from_us (kr_created row)) None (Some now))))))))"

definition DeleteAPIKey :: "(string \<Rightarrow> nat option) \<Rightarrow> principal option \<Rightarrow> string \<Rightarrow> outcome prog" where
  "DeleteAPIKey uuid_of who keyID =
     (case who of
        None \<Rightarrow> unauthorized
      | Some _ \<Rightarrow>
          if keyID = [] then apiError 400 ''key ID is required'' ''BadRequestException''
          else exec (with_uuid uuid_of keyID (\<lambda>i d. Inr (sql_delete_key i d)))
            (\<lambda>e. apiError 500 ''failed to delete API key'' ''ServerError'')
            (\<lambda>n. if n = 0 then apiError 404 ''API key not found'' ''NotFoundException''
                 else reply (Resp 204 None)))"

section \<open>OAuth tokens\<close>

record token_req =
  tr_grant :: string
  tr_scope :: string
  tr_client :: string
  tr_secret :: string

definition ExchangeToken ::
    "auth_config \<Rightarrow> (string \<Rightarrow> string) \<Rightarrow> nat list option \<Rightarrow> int \<Rightarrow> token_req option \<Rightarrow> outcome prog" where
  "ExchangeToken cfg H random now body =
     (case body of
        None \<Rightarrow> apiError 400 ''invalid request body'' ''BadRequestException''
      | Some req \<Rightarrow>
          if tr_grant req \<noteq> ''client_credentials''
          then apiError 400 ''unsupported grant_type, only client_credentials is supported'' ''BadRequestException''
          else if tr_client req = [] \<or> tr_secret req = []
          then apiError 401 ''client_id and client_secret are required'' ''NotAuthorizedException''
          else if \<not> au_oauth2 cfg
          then apiError 401 ''OAuth2 authentication is not enabled'' ''NotAuthorizedException''
          else if tr_client req \<noteq> au_client_id cfg \<or> tr_secret req \<noteq> au_client_secret cfg
          then apiError 401 ''invalid client credentials'' ''NotAuthorizedException''
          else (case generateToken random of
            None \<Rightarrow> apiError 500 ''failed to generate token'' ''ServerError''
          | Some accessToken \<Rightarrow>
              exec (\<lambda>d. map_sum id (Pair ()) (sql_insert_token
                     \<lparr>tk_hash = H accessToken, tk_client = tr_client req, tk_scopes = [tr_scope req],
                      tk_expires = to_us (now + au_token_expiry cfg)\<rparr> d))
                (\<lambda>e. apiError 500 ''failed to store token'' ''ServerError'')
                (\<lambda>_. reply (Resp 200 (Some (GObj ([(''access_token'', GStr accessToken), (''token_type'', GStr ''bearer''),
                   (''expires_in'', GInt (duration_seconds (au_token_expiry cfg)))] @
                   (if tr_scope req = [] then [] else [(''scope'', GStr (tr_scope req))]))))))))"

section \<open>Validation\<close>

text \<open>\<open>k\<close> is the rest of the request: it gets the principal, or the text of the error.\<close>

definition validateBearerToken ::
    "(string \<Rightarrow> string) \<Rightarrow> int \<Rightarrow> string \<Rightarrow> (string + principal \<Rightarrow> 'r prog) \<Rightarrow> 'r prog" where
  "validateBearerToken H now token k =
     query (sql_token (H token) (to_us now))
       (\<lambda>e. k (Inl ''invalid or expired token''))
       (\<lambda>r. case r of
          None \<Rightarrow> k (Inl ''invalid or expired token'')
        | Some t \<Rightarrow> k (Inr \<lparr>pc_id = tk_client t, pc_type = ''oauth2'', pc_scopes = tk_scopes t,
                            pc_client = tk_client t\<rparr>))"

definition RotationGracePeriod :: int where
  "RotationGracePeriod = 24 * hour_ns"

definition accept_key ::
    "(nat \<Rightarrow> string) \<Rightarrow> int \<Rightarrow> bool \<Rightarrow> key_row \<Rightarrow> (string + principal \<Rightarrow> 'r prog) \<Rightarrow> 'r prog" where
  "accept_key uuid_text now usedPreviousKey row k =
     (if (case kr_expires row of None \<Rightarrow> False | Some e \<Rightarrow> from_us e < now) then k (Inl ''API key expired'')
      else
        let who = \<lparr>pc_id = uuid_text (kr_id row),
              pc_type = (if usedPreviousKey then ''api_key_rotated'' else ''api_key''),
              pc_scopes = kr_scopes row, pc_client = kr_name row\<rparr>
        in exec (\<lambda>d. Inr ((), sql_touch_key (to_us now) (kr_id row) d)) (\<lambda>e. k (Inr who)) (\<lambda>_. k (Inr who)))"

definition validateAPIKey ::
    "(string \<Rightarrow> string) \<Rightarrow> (nat \<Rightarrow> string) \<Rightarrow> int \<Rightarrow> string \<Rightarrow> (string + principal \<Rightarrow> 'r prog) \<Rightarrow> 'r prog" where
  "validateAPIKey H uuid_text now key k =
     (let previous = query (sql_previous_key (H key) (to_us (now - RotationGracePeriod)))
            (\<lambda>e. k (Inl ''invalid API key''))
            (\<lambda>r. case r of None \<Rightarrow> k (Inl ''invalid API key'') | Some row \<Rightarrow> accept_key uuid_text now True row k)
      in query (sql_current_key (H key)) (\<lambda>e. previous)
           (\<lambda>r. case r of None \<Rightarrow> previous | Some row \<Rightarrow> accept_key uuid_text now False row k))"

section \<open>The handlers keep the invariant\<close>

lemma catalog_ok_keys:
  "catalog_ok d \<Longrightarrow> distinct (map kr_id ks) \<Longrightarrow> distinct (map kr_hash ks) \<Longrightarrow> catalog_ok (d\<lparr>d_keys := ks\<rparr>)"
  by (simp add: catalog_ok_def db_ok_def)

lemma catalog_ok_keysD: "catalog_ok d \<Longrightarrow> distinct (map kr_id (d_keys d)) \<and> distinct (map kr_hash (d_keys d))"
  by (simp add: catalog_ok_def db_ok_def)

lemma catalog_ok_insert_key: "catalog_ok d \<Longrightarrow> sql_insert_key r d = Inr d' \<Longrightarrow> catalog_ok d'"
  by (auto simp: sql_insert_key_def dest: catalog_ok_keysD split: if_splits intro!: catalog_ok_keys)

lemma update_key_ids: "(\<And>r. kr_id (h r) = kr_id r) \<Longrightarrow> map kr_id (d_keys (update_key i h d)) = map kr_id (d_keys d)"
  by (auto simp: update_key_def)

lemma catalog_ok_delete_key: "catalog_ok d \<Longrightarrow> sql_delete_key i d = (n, d') \<Longrightarrow> catalog_ok d'"
  by (auto simp: sql_delete_key_def distinct_map_filter dest: catalog_ok_keysD intro!: catalog_ok_keys)

lemma catalog_ok_touch_key: "catalog_ok d \<Longrightarrow> catalog_ok (sql_touch_key t i d)"
proof -
  assume ok: "catalog_ok d"
  let ?h = "\<lambda>r. if kr_id r = i then r\<lparr>kr_used := Some t\<rparr> else r"
  have "map kr_id (map ?h (d_keys d)) = map kr_id (d_keys d)"
    "map kr_hash (map ?h (d_keys d)) = map kr_hash (d_keys d)" by auto
  then show ?thesis unfolding sql_touch_key_def update_key_def
    using catalog_ok_keysD [OF ok] by (intro catalog_ok_keys ok) (simp_all del: map_map)
qed

lemma distinct_map_change_one:
  assumes "distinct (map f xs)" "distinct (map g xs)" "\<And>r. r \<in> set xs \<Longrightarrow> f r = y \<Longrightarrow> g r = i"
  shows "distinct (map (\<lambda>r. if g r = i then y else f r) xs)"
  using assms by (induction xs) (auto simp: image_iff)

lemma catalog_ok_rotate_key: "catalog_ok d \<Longrightarrow> sql_rotate_key new old t i d = Inr d' \<Longrightarrow> catalog_ok d'"
proof -
  assume ok: "catalog_ok d" and r: "sql_rotate_key new old t i d = Inr d'"
  show ?thesis
  proof (cases "list_ex (\<lambda>r. kr_id r = i) (d_keys d)")
    case False
    then have "map (\<lambda>r. if kr_id r = i then h r else r) (d_keys d) = d_keys d" for h
      by (auto simp: list_ex_iff intro!: map_idI)
    with r False ok show ?thesis by (simp add: sql_rotate_key_def update_key_def)
  next
    case True
    let ?h = "\<lambda>r. if kr_id r = i then r\<lparr>kr_hash := new, kr_prev := Some old, kr_rotated := Some t\<rparr> else r"
    from True r have d': "d' = d\<lparr>d_keys := map ?h (d_keys d)\<rparr>"
        and free: "\<And>r. r \<in> set (d_keys d) \<Longrightarrow> kr_hash r = new \<Longrightarrow> kr_id r = i"
      by (auto simp: sql_rotate_key_def update_key_def list_ex_iff split: if_splits)
    have "map kr_id (map ?h (d_keys d)) = map kr_id (d_keys d)"
      "map kr_hash (map ?h (d_keys d)) = map (\<lambda>r. if kr_id r = i then new else kr_hash r) (d_keys d)" by auto
    moreover have "distinct (map (\<lambda>r. if kr_id r = i then new else kr_hash r) (d_keys d))"
      using catalog_ok_keysD [OF ok] free by (intro distinct_map_change_one) auto
    ultimately show ?thesis unfolding d'
      using catalog_ok_keysD [OF ok] by (intro catalog_ok_keys ok) (simp_all del: map_map)
  qed
qed

lemma catalog_ok_insert_token: "catalog_ok d \<Longrightarrow> sql_insert_token r d = Inr d' \<Longrightarrow> catalog_ok d'"
  by (auto simp: sql_insert_token_def catalog_ok_def db_ok_def split: if_splits)

lemma safe_apiError: "code \<in> {200, 201, 202, 204, 400, 401, 403, 404, 409, 500, 503} \<Longrightarrow> safe I answered (apiError code m t)"
  by (simp add: apiError_def safe_Done_iff)

lemma safe_unauthorized: "safe I answered unauthorized"
  by (simp add: unauthorized_def safe_apiError)

lemma safe_ListAPIKeys: "safe I answered (ListAPIKeys got ut fmt now who)"
  by (auto simp: ListAPIKeys_def split: option.splits intro!: safe_unauthorized safe_query safe_apiError safe_Done)

lemma safe_CreateAPIKey: "safe catalog_ok answered (CreateAPIKey H u fmt random uuid now who body)"
  by (auto simp: CreateAPIKey_def Let_def with_uuid_Inr split: option.splits
      intro!: safe_unauthorized safe_apiError safe_exec safe_Done intro: catalog_ok_insert_key)

lemma safe_RotateAPIKey: "safe catalog_ok answered (RotateAPIKey H u fmt random now who keyID)"
  by (auto simp: RotateAPIKey_def Let_def with_uuid_Inr split: option.splits
      intro!: safe_unauthorized safe_apiError safe_exec safe_Done)
    (blast intro: catalog_ok_rotate_key)

lemma safe_DeleteAPIKey: "safe catalog_ok answered (DeleteAPIKey u who keyID)"
  by (auto simp: DeleteAPIKey_def with_uuid_Inr split: option.splits
      intro!: safe_unauthorized safe_apiError safe_exec safe_Done intro: catalog_ok_delete_key)

lemma safe_ExchangeToken: "safe catalog_ok answered (ExchangeToken cfg H random now body)"
  by (auto simp: ExchangeToken_def split: option.splits
      intro!: safe_apiError safe_exec safe_Done intro: catalog_ok_insert_token)

lemmas key_handlers_safe =
  safe_ListAPIKeys safe_CreateAPIKey safe_RotateAPIKey safe_DeleteAPIKey safe_ExchangeToken

lemma safe_validateBearerToken:
  "(\<And>x. safe I Q (k x)) \<Longrightarrow> safe I Q (validateBearerToken H now token k)"
  by (auto simp: validateBearerToken_def split: option.splits intro!: safe_query)

lemma safe_accept_key: "(\<And>x. safe catalog_ok Q (k x)) \<Longrightarrow> safe catalog_ok Q (accept_key ut now b row k)"
  by (auto simp: accept_key_def Let_def catalog_ok_touch_key split: option.splits intro!: safe_exec)

lemma safe_validateAPIKey:
  assumes "\<And>x. safe catalog_ok Q (k x)"
  shows "safe catalog_ok Q (validateAPIKey H ut now key k)"
  using assms by (auto simp: validateAPIKey_def Let_def split: option.splits intro!: safe_query safe_accept_key)

section \<open>Secrets are not mixed up\<close>

lemma nth_eq_chars: "distinct cs \<Longrightarrow> i < length cs \<Longrightarrow> j < length cs \<Longrightarrow> cs ! i = cs ! j \<longleftrightarrow> i = j"
  by (rule nth_eq_iff_index_eq)

lemma b64_nth: "i < 64 \<Longrightarrow> j < 64 \<Longrightarrow> b64_chars ! i = b64_chars ! j \<longleftrightarrow> i = j"
  by (rule nth_eq_chars) (simp_all add: b64_chars_def)

lemma sextets:
  fixes a b c a' b' c' :: nat
  assumes "a < 256" "b < 256" "c < 256" "a' < 256" "b' < 256" "c' < 256"
  shows "b64_chars ! (a div 4) = b64_chars ! (a' div 4) \<longleftrightarrow> a div 4 = a' div 4"
    and "b64_chars ! (a mod 4 * 16) = b64_chars ! (a' mod 4 * 16) \<longleftrightarrow> a mod 4 = a' mod 4"
    and "b64_chars ! (a mod 4 * 16 + b div 16) = b64_chars ! (a' mod 4 * 16 + b' div 16) \<longleftrightarrow>
      a mod 4 = a' mod 4 \<and> b div 16 = b' div 16"
    and "b64_chars ! (b mod 16 * 4) = b64_chars ! (b' mod 16 * 4) \<longleftrightarrow> b mod 16 = b' mod 16"
    and "b64_chars ! (b mod 16 * 4 + c div 64) = b64_chars ! (b' mod 16 * 4 + c' div 64) \<longleftrightarrow>
      b mod 16 = b' mod 16 \<and> c div 64 = c' div 64"
    and "b64_chars ! (c mod 64) = b64_chars ! (c' mod 64) \<longleftrightarrow> c mod 64 = c' mod 64"
proof -
  have lt: "x div 4 < 64" "x div 16 < 16" "x div 64 < 4" if "x < 256" for x :: nat
    using that by (simp_all add: less_mult_imp_div_less)
  have m: "x mod 4 < 4" "x mod 16 < 16" "x mod 64 < 64" for x :: nat by simp_all
  have s16: "u * 16 + v < 64" if "u < 4" "v < 16" for u v :: nat using that by linarith
  have s4: "u * 4 + v < 64" if "u < 16" "v < 4" for u v :: nat using that by linarith
  have z: "u * 16 < 64" if "u < 4" for u :: nat using that by linarith
  have z4: "u * 4 < 64" if "u < 16" for u :: nat using that by linarith
  have pair: "m * k + i = m' * k + j \<longleftrightarrow> m = m' \<and> i = j" if "i < k" "j < k" for m m' k i j :: nat
  proof
    assume eq: "m * k + i = m' * k + j"
    from that have "(m * k + i) div k = m" "(m' * k + j) div k = m'" by simp_all
    with eq have "m = m'" by simp
    with eq show "m = m' \<and> i = j" by simp
  qed simp
  show "b64_chars ! (a div 4) = b64_chars ! (a' div 4) \<longleftrightarrow> a div 4 = a' div 4"
    by (rule b64_nth [OF lt(1) [OF assms(1)] lt(1) [OF assms(4)]])
  show "b64_chars ! (a mod 4 * 16) = b64_chars ! (a' mod 4 * 16) \<longleftrightarrow> a mod 4 = a' mod 4"
    unfolding b64_nth [OF z [OF m(1)] z [OF m(1)]] by simp
  show "b64_chars ! (a mod 4 * 16 + b div 16) = b64_chars ! (a' mod 4 * 16 + b' div 16) \<longleftrightarrow>
      a mod 4 = a' mod 4 \<and> b div 16 = b' div 16"
    unfolding b64_nth [OF s16 [OF m(1) lt(2) [OF assms(2)]] s16 [OF m(1) lt(2) [OF assms(5)]]]
    by (rule pair [OF lt(2) [OF assms(2)] lt(2) [OF assms(5)]])
  show "b64_chars ! (b mod 16 * 4) = b64_chars ! (b' mod 16 * 4) \<longleftrightarrow> b mod 16 = b' mod 16"
    unfolding b64_nth [OF z4 [OF m(2)] z4 [OF m(2)]] by simp
  show "b64_chars ! (b mod 16 * 4 + c div 64) = b64_chars ! (b' mod 16 * 4 + c' div 64) \<longleftrightarrow>
      b mod 16 = b' mod 16 \<and> c div 64 = c' div 64"
    unfolding b64_nth [OF s4 [OF m(2) lt(3) [OF assms(3)]] s4 [OF m(2) lt(3) [OF assms(6)]]]
    by (rule pair [OF lt(3) [OF assms(3)] lt(3) [OF assms(6)]])
  show "b64_chars ! (c mod 64) = b64_chars ! (c' mod 64) \<longleftrightarrow> c mod 64 = c' mod 64"
    by (rule b64_nth [OF m(3) m(3)])
qed

lemma div_mod_eq: "(a :: nat) = b \<longleftrightarrow> a div k = b div k \<and> a mod k = b mod k"
  by (metis mult_div_mod_eq)

lemma base64url_inj:
  "length xs = length ys \<Longrightarrow> \<forall>x \<in> set xs \<union> set ys. x < 256 \<Longrightarrow> base64url xs = base64url ys \<Longrightarrow> xs = ys"
proof (induction xs arbitrary: ys rule: base64url.induct)
  case (2 a)
  from 2(1) obtain a' where ys: "ys = [a']" by (cases ys) auto
  with 2 sextets(1,2) [of a 0 0 a' 0 0] have "a div 4 = a' div 4" "a mod 4 = a' mod 4" by simp_all
  then have "a = a'" by (subst div_mod_eq [of _ _ 4]) simp
  with ys show ?case by simp
next
  case (3 a b)
  from 3(1) obtain a' b' where ys: "ys = [a', b']" by (cases ys; cases "tl ys") auto
  with 3 sextets(1,3,4) [of a b 0 a' b' 0] have "a div 4 = a' div 4" "a mod 4 = a' mod 4" "b div 16 = b' div 16"
      "b mod 16 = b' mod 16" by simp_all
  then have "a = a'" "b = b'" using div_mod_eq [of a a' 4] div_mod_eq [of b b' 16] by blast+
  with ys show ?case by simp
next
  case (4 a b c rest)
  from 4(2) obtain a' b' c' rest' where ys: "ys = a' # b' # c' # rest'"
    by (cases ys; cases "tl ys"; cases "tl (tl ys)") auto
  with 4(2-4) sextets(1,3,5,6) [of a b c a' b' c'] have "a div 4 = a' div 4" "a mod 4 = a' mod 4"
      "b div 16 = b' div 16" "b mod 16 = b' mod 16" "c div 64 = c' div 64" "c mod 64 = c' mod 64" by simp_all
  then have "a = a'" "b = b'" "c = c'"
    using div_mod_eq [of a a' 4] div_mod_eq [of b b' 16] div_mod_eq [of c c' 64] by blast+
  moreover have "rest = rest'" using 4(2-4) ys by (intro 4(1)) simp_all
  ultimately show ?case using ys by simp
qed simp

lemma length_base64url: "length (base64url xs) = (4 * length xs + 2) div 3"
  by (induction xs rule: base64url.induct) (auto simp: algebra_simps)

lemma hex_pair: "x < 256 \<Longrightarrow> y < 256 \<Longrightarrow>
    hex_chars ! (x div 16) = hex_chars ! (y div 16) \<Longrightarrow> hex_chars ! (x mod 16) = hex_chars ! (y mod 16) \<Longrightarrow> x = y"
proof -
  assume "x < 256" "y < 256" "hex_chars ! (x div 16) = hex_chars ! (y div 16)" "hex_chars ! (x mod 16) = hex_chars ! (y mod 16)"
  moreover have "distinct hex_chars" "length hex_chars = 16" by (simp_all add: hex_chars_def)
  ultimately have "x div 16 = y div 16" "x mod 16 = y mod 16" by (auto simp: nth_eq_chars)
  then show "x = y" by (subst div_mod_eq [of _ _ 16]) simp
qed

lemma hex_encode_inj:
  "\<forall>x \<in> set xs \<union> set ys. x < 256 \<Longrightarrow> hex_encode xs = hex_encode ys \<Longrightarrow> xs = ys"
proof (induction xs arbitrary: ys)
  case Nil
  then show ?case by (cases ys) (auto simp: hex_encode_def)
next
  case (Cons x xs)
  then obtain y ys' where ys: "ys = y # ys'" by (cases ys) (auto simp: hex_encode_def)
  with Cons.prems have "x = y" by (intro hex_pair) (auto simp: hex_encode_def)
  moreover have "xs = ys'" using Cons.prems ys by (intro Cons.IH) (auto simp: hex_encode_def)
  ultimately show ?case using ys by simp
qed

lemma length_hex_encode: "length (hex_encode xs) = 2 * length xs"
  by (induction xs) (auto simp: hex_encode_def)

end
