(* ===== verification/Auth.thy ===== *)
theory Auth
  imports Keys
begin

text \<open>
  \<open>internal/api/middleware/auth.go\<close> and \<open>authz.go\<close>: who sends a request, and whether it may touch the
  namespace in its path.  A middleware gets the rest of the request, \<open>next\<close>, as a program.  The path is
  what \<open>c.Path()\<close> returns, not decoded; the method and the header are arguments.
\<close>

section \<open>Authentication\<close>

definition unauthorizedError :: "string \<Rightarrow> outcome prog" where
  "unauthorizedError message = apiError 401 message ''NotAuthorizedException''"

definition buildSkipPaths :: "bool \<Rightarrow> string list" where
  "buildSkipPaths polarisEnabled =
     [''/health'', ''/ready'', ''/v1/config'', ''/v1/oauth/tokens''] @
     (if polarisEnabled then [''/api/catalog/v1/oauth/tokens''] else [])"

definition shouldSkipAuth :: "string \<Rightarrow> string list \<Rightarrow> bool" where
  "shouldSkipAuth path skipPaths = (path \<in> set skipPaths)"

text \<open>\<open>strings.SplitN(s, " ", 2)\<close>, \<open>None\<close> where it gives one part.\<close>

fun split_space :: "string \<Rightarrow> (string \<times> string) option" where
  "split_space [] = None"
| "split_space (c # cs) =
     (if c = CHR '' '' then Some ([], cs) else map_option (map_prod (Cons c) id) (split_space cs))"

text \<open>
  \<open>strings.ToLower\<close>.  Beside the ASCII letters two characters have an ASCII lower case, U+212A and
  U+0130; the others are left as they are, which makes no difference to a comparison with an ASCII text.
\<close>

definition lower :: "char \<Rightarrow> char" where
  "lower c = (let n = of_char c :: nat in if 65 \<le> n \<and> n \<le> 90 then char_of (n + 32) else c)"

fun to_lower :: "string \<Rightarrow> string" where
  "to_lower [] = []"
| "to_lower (c # cs) =
     (case cs of
        d # ds \<Rightarrow>
          (if c = CHR 0xC4 \<and> d = CHR 0xB0 then CHR ''i'' # to_lower ds
           else (case ds of
                   e # es \<Rightarrow> if c = CHR 0xE2 \<and> d = CHR 0x84 \<and> e = CHR 0xAA then CHR ''k'' # to_lower es
                            else lower c # to_lower cs
                 | [] \<Rightarrow> lower c # to_lower cs))
      | [] \<Rightarrow> [lower c])"

text \<open>The rest gets no principal where the path is skipped.\<close>

definition Auth ::
    "auth_config \<Rightarrow> (string \<Rightarrow> string) \<Rightarrow> (nat \<Rightarrow> string) \<Rightarrow> int \<Rightarrow> string \<Rightarrow> string \<Rightarrow>
     (principal option \<Rightarrow> outcome prog) \<Rightarrow> outcome prog" where
  "Auth cfg H uuid_text now path header next =
     (if shouldSkipAuth path (buildSkipPaths (au_polaris cfg)) then next None
      else if header = [] then unauthorizedError ''missing authorization header''
      else (case split_space header of
        None \<Rightarrow> unauthorizedError ''invalid authorization header format''
      | Some (first, token) \<Rightarrow>
          let scheme = to_lower first;
              finish = (\<lambda>r. case r of Inl err \<Rightarrow> unauthorizedError err | Inr who \<Rightarrow> next (Some who))
          in if scheme = ''bearer'' then
               (if au_oauth2 cfg then validateBearerToken H now token finish
                else if au_api_key cfg then validateAPIKey H uuid_text now token finish
                else unauthorizedError ''bearer authentication not enabled'')
             else if scheme = ''x-api-key'' then
               (if au_api_key cfg then validateAPIKey H uuid_text now token finish
                else unauthorizedError ''API key authentication not enabled'')
             else unauthorizedError ''unsupported authentication scheme''))"

section \<open>Authorization\<close>

datatype permission = Read | Write | Manage

definition permission_text :: "permission \<Rightarrow> string" where
  "permission_text p = (case p of Read \<Rightarrow> ''read'' | Write \<Rightarrow> ''write'' | Manage \<Rightarrow> ''manage'')"

definition forbiddenError :: "string \<Rightarrow> outcome prog" where
  "forbiddenError message = apiError 403 message ''ForbiddenException''"

text \<open>The segment after the first \<open>namespaces\<close> that can be a namespace, empty if there is none.\<close>

fun namespace_in :: "string list \<Rightarrow> string" where
  "namespace_in [] = []"
| "namespace_in (part # parts) =
     (if part = ''namespaces'' \<and> parts \<noteq> [] \<and>
         hd parts \<notin> {[], ''tables'', ''views'', ''properties''}
      then hd parts else namespace_in parts)"

definition extractNamespace :: "string \<Rightarrow> string" where
  "extractNamespace path = namespace_in (split_on (CHR ''/'') path)"

text \<open>The rows that grant something to a principal on the namespaces whose name starts with a part.\<close>

definition grants :: "string \<Rightarrow> string \<Rightarrow> string \<Rightarrow> db \<Rightarrow> perm_row list" where
  "grants ns pid ptype d =
     filter (\<lambda>np. pm_principal np = pid \<and> pm_type np = ptype \<and>
                  list_ex (\<lambda>n. ns_id n = pm_ns np \<and> (case ns_name n of [] \<Rightarrow> False | c # _ \<Rightarrow> c = ns))
                    (d_namespaces d)) (d_perms d)"

definition sql_permission :: "string \<Rightarrow> principal \<Rightarrow> string \<Rightarrow> db \<Rightarrow> bool" where
  "sql_permission ns who perm d =
     list_ex (\<lambda>np. perm \<in> set (pm_perms np)) (grants ns (pc_id who) (pc_type who) d)"

text \<open>\<open>k\<close> gets the answer, \<open>failed\<close> is the rest after a statement that fails.\<close>

definition checkPermission ::
    "principal \<Rightarrow> string \<Rightarrow> permission \<Rightarrow> 'r prog \<Rightarrow> (bool \<Rightarrow> 'r prog) \<Rightarrow> 'r prog" where
  "checkPermission who ns required failed k =
     (let check_write = (\<lambda>has.
            if \<not> has \<and> required = Read
            then query (sql_permission ns who ''write'') (\<lambda>e. failed) k else k has);
          check_manage = (\<lambda>has.
            if \<not> has \<and> required \<noteq> Manage
            then query (sql_permission ns who ''manage'') (\<lambda>e. failed) check_write else check_write has)
      in query (sql_permission ns who (permission_text required)) (\<lambda>e. failed) check_manage)"

definition hasDefaultPermission :: "string \<Rightarrow> permission \<Rightarrow> bool" where
  "hasDefaultPermission defaultPerm required =
     (if defaultPerm = ''manage'' then True
      else if defaultPerm = ''write'' then required = Read \<or> required = Write
      else if defaultPerm = ''read'' then required = Read
      else False)"

definition Authz ::
    "auth_config \<Rightarrow> permission \<Rightarrow> string \<Rightarrow> principal option \<Rightarrow> outcome prog \<Rightarrow> outcome prog" where
  "Authz cfg required path principal_opt next =
     (if \<not> au_acl cfg then next
      else (case principal_opt of
        None \<Rightarrow> forbiddenError ''no authenticated principal''
      | Some who \<Rightarrow>
          let namespace = extractNamespace path in
          if namespace = [] then next
          else checkPermission who namespace required (forbiddenError ''permission check failed'')
            (\<lambda>has. if has then next
                   else if hasDefaultPermission (au_default cfg) required then next
                   else forbiddenError ''insufficient permissions for namespace'')))"

section \<open>Levels of permission\<close>

text \<open>Each permission includes those before it.\<close>

definition level :: "permission \<Rightarrow> nat" where
  "level p = (case p of Read \<Rightarrow> 1 | Write \<Rightarrow> 2 | Manage \<Rightarrow> 3)"

instantiation permission :: linorder
begin

definition less_eq_permission :: "permission \<Rightarrow> permission \<Rightarrow> bool" where
  "less_eq_permission p q \<longleftrightarrow> level p \<le> level q"

definition less_permission :: "permission \<Rightarrow> permission \<Rightarrow> bool" where
  "less_permission p q \<longleftrightarrow> level p < level q"

instance
proof
  fix p q r :: permission
  show "p < q \<longleftrightarrow> p \<le> q \<and> \<not> q \<le> p" by (auto simp: less_permission_def less_eq_permission_def)
  show "p \<le> p" by (simp add: less_eq_permission_def)
  show "p \<le> q \<Longrightarrow> q \<le> r \<Longrightarrow> p \<le> r" by (simp add: less_eq_permission_def)
  show "p \<le> q \<Longrightarrow> q \<le> p \<Longrightarrow> p = q"
    by (cases p; cases q) (simp_all add: less_eq_permission_def level_def)
  show "p \<le> q \<or> q \<le> p" by (auto simp: less_eq_permission_def)
qed

end

text \<open>The permissions granted by a list of texts, and what a principal may do on a namespace.\<close>

definition perms_of :: "string list \<Rightarrow> permission set" where
  "perms_of ss = {p. permission_text p \<in> set ss}"

definition granted :: "string \<Rightarrow> string \<Rightarrow> string \<Rightarrow> string \<Rightarrow> db \<Rightarrow> permission set" where
  "granted dflt ns pid ptype d =
     perms_of [dflt] \<union> (\<Union>np \<in> set (grants ns pid ptype d). perms_of (pm_perms np))"

definition allowed :: "permission \<Rightarrow> permission set \<Rightarrow> bool" where
  "allowed required ps \<longleftrightarrow> (\<exists>p \<in> ps. required \<le> p)"

lemma permission_le: "Read \<le> p" "Write \<le> p \<longleftrightarrow> p \<noteq> Read" "Manage \<le> p \<longleftrightarrow> p = Manage"
  by (cases p; simp add: less_eq_permission_def level_def)+

lemma ex_permission: "(\<exists>p. P p) \<longleftrightarrow> P Read \<or> P Write \<or> P Manage"
  by (metis permission.exhaust)

lemma hasDefaultPermission_iff: "hasDefaultPermission s required \<longleftrightarrow> allowed required (perms_of [s])"
  by (cases required) (auto simp: hasDefaultPermission_def allowed_def perms_of_def Bex_def ex_permission
      permission_le permission_text_def)

lemma sql_permission_iff:
  "sql_permission ns who (permission_text p) d \<longleftrightarrow>
   p \<in> (\<Union>np \<in> set (grants ns (pc_id who) (pc_type who) d). perms_of (pm_perms np))"
  by (auto simp: sql_permission_def list_ex_iff perms_of_def)

lemma run_checkPermission:
  "run (checkPermission who ns required failed k) d =
   run (k (allowed required (\<Union>np \<in> set (grants ns (pc_id who) (pc_type who) d). perms_of (pm_perms np)))) d"
proof -
  define G where "G = (\<Union>np \<in> set (grants ns (pc_id who) (pc_type who) d). perms_of (pm_perms np))"
  have perm: "sql_permission ns who ''read'' d = (Read \<in> G)" "sql_permission ns who ''write'' d = (Write \<in> G)"
    "sql_permission ns who ''manage'' d = (Manage \<in> G)"
    using sql_permission_iff [of ns who _ d] unfolding G_def [symmetric] permission_text_def
    by (metis permission.simps(7), metis permission.simps(8), metis permission.simps(9))
  show ?thesis unfolding G_def [symmetric]
    by (cases required; cases "Read \<in> G"; cases "Write \<in> G"; cases "Manage \<in> G")
      (simp_all add: perm checkPermission_def Let_def permission_text_def allowed_def Bex_def ex_permission permission_le)
qed

lemma allowed_Un: "allowed r (A \<union> B) \<longleftrightarrow> allowed r A \<or> allowed r B"
  by (auto simp: allowed_def)

end
