(* ===== verification/Settings.thy ===== *)
theory Settings
  imports Keys
begin

text \<open>
  \<open>internal/config/config.go\<close>, \<open>internal/api/handlers/config.go\<close> and
  \<open>internal/api/handlers/credentials.go\<close>: the defaults of the configuration, what clients are told of it,
  and the credentials vended to them.  The cloud services are parameters: \<open>sts\<close> is the call of AWS STS
  \<open>AssumeRole\<close>, \<open>iam\<close> that of Google's \<open>GenerateAccessToken\<close>, both with the client the code configures;
  \<open>parse_time\<close> is \<open>time.Parse\<close> with RFC 3339.  Times and durations are nanoseconds.
\<close>

section \<open>Defaults\<close>

datatype setting = SStr string | SBool bool | SInt int | SDur int | SRatio int int

definition second :: int where
  "second = 1000000000"

text \<open>\<open>setDefaults\<close>, in its order.\<close>

definition setDefaults :: "(string \<times> setting) list" where
  "setDefaults =
     [(''server.host'', SStr ''0.0.0.0''), (''server.port'', SInt 8181), (''server.debug'', SBool False),
      (''server.version'', SStr ''0.1.0''), (''server.read_timeout'', SDur (30 * second)),
      (''server.write_timeout'', SDur (30 * second)), (''server.idle_timeout'', SDur (120 * second)),
      (''server.tls.enabled'', SBool False),
      (''database.host'', SStr ''localhost''), (''database.port'', SInt 5432), (''database.user'', SStr ''iceberg''),
      (''database.password'', SStr ''iceberg''), (''database.database'', SStr ''iceberg_catalog''),
      (''database.ssl_mode'', SStr ''disable''), (''database.max_open_conns'', SInt 25),
      (''database.max_idle_conns'', SInt 5), (''database.conn_max_lifetime'', SDur (5 * 60 * second)),
      (''database.conn_max_idle_time'', SDur (5 * 60 * second)),
      (''storage.type'', SStr ''local''), (''storage.warehouse'', SStr ''/tmp/iceberg/warehouse''),
      (''storage.local.root_path'', SStr ''/tmp/iceberg/data''), (''storage.s3.region'', SStr ''us-east-1''),
      (''storage.s3.use_path_style'', SBool False), (''storage.s3.session_duration'', SDur (3600 * second)),
      (''storage.gcs.token_lifetime'', SDur (3600 * second)),
      (''auth.enabled'', SBool False), (''auth.oauth2.enabled'', SBool False), (''auth.api_key.enabled'', SBool False),
      (''auth.acl.enabled'', SBool False), (''auth.acl.default_permission'', SStr ''none''),
      (''auth.token_expiry'', SDur (3600 * second)),
      (''audit.enabled'', SBool False), (''audit.retention_days'', SInt 90), (''audit.log_level'', SStr ''all''),
      (''catalog.prefix'', SStr ''''), (''catalog.lock_timeout'', SDur (30 * second)),
      (''catalog.lock_retry_interval'', SDur 100000000), (''catalog.max_lock_retries'', SInt 100),
      (''pool.buffer_initial_size'', SInt 4096), (''pool.buffer_max_size'', SInt 65536),
      (''compat.polaris_enabled'', SBool False),
      (''telemetry.enabled'', SBool False), (''telemetry.endpoint'', SStr ''localhost:4318''),
      (''telemetry.sample_rate'', SRatio 1 10), (''telemetry.insecure'', SBool True)]"

record database_config =
  dc_host :: string
  dc_port :: int
  dc_user :: string
  dc_password :: string
  dc_database :: string
  dc_ssl :: string
  dc_max_open :: int
  dc_max_idle :: int
  dc_lifetime :: int
  dc_idle_time :: int

definition DSN :: "database_config \<Rightarrow> string" where
  "DSN c = ''host='' @ dc_host c @ '' port='' @ show_int (dc_port c) @ '' user='' @ dc_user c @
     '' password='' @ dc_password c @ '' dbname='' @ dc_database c @ '' sslmode='' @ dc_ssl c"

section \<open>What clients are told\<close>

record storage_config =
  sc_type :: string
  sc_warehouse :: string
  s3_endpoint :: string
  s3_region :: string
  s3_access_key :: string
  s3_secret_key :: string
  s3_path_style :: bool
  s3_role :: string
  s3_external :: string
  s3_session :: int
  gcs_project :: string
  gcs_file :: string
  gcs_account :: string
  gcs_lifetime :: int

text \<open>A map literal extended by entries under conditions.\<close>

definition member_if :: "bool \<Rightarrow> string \<Rightarrow> string \<Rightarrow> (string, string) gomap" where
  "member_if c k v = (if c then [(k, v)] else [])"

definition config_defaults :: "string \<Rightarrow> storage_config \<Rightarrow> (string, string) gomap" where
  "config_defaults prefix sto =
     [(''prefix'', prefix)] @
     member_if (sc_warehouse sto \<noteq> []) ''warehouse'' (sc_warehouse sto) @
     (if sc_type sto = ''s3'' then
        member_if (s3_endpoint sto \<noteq> []) ''s3.endpoint'' (s3_endpoint sto) @
        member_if (s3_region sto \<noteq> []) ''s3.region'' (s3_region sto) @
        member_if (s3_path_style sto) ''s3.path-style-access'' ''true''
      else if sc_type sto = ''gcs'' then
        member_if (gcs_project sto \<noteq> []) ''gcs.project-id'' (gcs_project sto)
      else [])"

definition endpoints :: "string list" where
  "endpoints =
     [''GET /v1/config'',
      ''POST /v1/oauth/tokens'',
      ''GET /v1/{prefix}/namespaces'',
      ''POST /v1/{prefix}/namespaces'',
      ''GET /v1/{prefix}/namespaces/{namespace}'',
      ''HEAD /v1/{prefix}/namespaces/{namespace}'',
      ''DELETE /v1/{prefix}/namespaces/{namespace}'',
      ''POST /v1/{prefix}/namespaces/{namespace}/properties'',
      ''GET /v1/{prefix}/namespaces/{namespace}/tables'',
      ''POST /v1/{prefix}/namespaces/{namespace}/tables'',
      ''GET /v1/{prefix}/namespaces/{namespace}/tables/{table}'',
      ''POST /v1/{prefix}/namespaces/{namespace}/tables/{table}'',
      ''DELETE /v1/{prefix}/namespaces/{namespace}/tables/{table}'',
      ''HEAD /v1/{prefix}/namespaces/{namespace}/tables/{table}'',
      ''POST /v1/{prefix}/namespaces/{namespace}/register'',
      ''POST /v1/{prefix}/tables/rename'',
      ''GET /v1/{prefix}/namespaces/{namespace}/tables/{table}/credentials'',
      ''POST /v1/{prefix}/namespaces/{namespace}/tables/{table}/metrics'',
      ''POST /v1/{prefix}/namespaces/{namespace}/tables/{table}/plan'',
      ''GET /v1/{prefix}/namespaces/{namespace}/tables/{table}/plan/{plan-id}'',
      ''DELETE /v1/{prefix}/namespaces/{namespace}/tables/{table}/plan/{plan-id}'',
      ''POST /v1/{prefix}/namespaces/{namespace}/tables/{table}/tasks'',
      ''POST /v1/{prefix}/transactions/commit'',
      ''GET /v1/{prefix}/namespaces/{namespace}/views'',
      ''POST /v1/{prefix}/namespaces/{namespace}/views'',
      ''GET /v1/{prefix}/namespaces/{namespace}/views/{view}'',
      ''POST /v1/{prefix}/namespaces/{namespace}/views/{view}'',
      ''DELETE /v1/{prefix}/namespaces/{namespace}/views/{view}'',
      ''HEAD /v1/{prefix}/namespaces/{namespace}/views/{view}'',
      ''POST /v1/{prefix}/views/rename'']"

definition GetConfig :: "string \<Rightarrow> storage_config \<Rightarrow> outcome prog" where
  "GetConfig prefix sto =
     reply (Resp 200 (Some (GObj [(''defaults'', props_val (config_defaults prefix sto)), (''overrides'', GObj []),
       (''endpoints'', GArr (map GStr endpoints))])))"

section \<open>Vended credentials\<close>

definition formatExpirationFromTime :: "int \<Rightarrow> string" where
  "formatExpirationFromTime t = show_int (t div 1000000)"

definition formatExpirationMs :: "int \<Rightarrow> int \<Rightarrow> string" where
  "formatExpirationMs now d = formatExpirationFromTime (now + d)"

text \<open>\<open>int32(d.Seconds())\<close>: out of range it is the smallest number (on amd64).\<close>

definition seconds_int32 :: "int \<Rightarrow> int" where
  "seconds_int32 d =
     (let s = duration_seconds d in if - 2147483648 \<le> s \<and> s \<le> 2147483647 then s else - 2147483648)"

text \<open>What the code passes to \<open>AssumeRole\<close>, and what it uses of the answer.\<close>

record assume_input =
  ai_region :: string
  ai_static :: "(string \<times> string) option"
  ai_endpoint :: "string option"
  ai_role :: string
  ai_session :: string
  ai_seconds :: int
  ai_external :: "string option"

record assumed =
  as_access_key :: string
  as_secret_key :: string
  as_token :: string
  as_expiration :: int

definition assume_request :: "storage_config \<Rightarrow> assume_input" where
  "assume_request sto =
     (let sessionDuration = (if s3_session sto = 0 then hour_ns else s3_session sto) in
      \<lparr>ai_region = s3_region sto,
       ai_static = (if s3_access_key sto \<noteq> [] then Some (s3_access_key sto, s3_secret_key sto) else None),
       ai_endpoint = (if s3_endpoint sto \<noteq> [] then Some (s3_endpoint sto) else None),
       ai_role = s3_role sto, ai_session = ''iceberg-catalog'', ai_seconds = seconds_int32 sessionDuration,
       ai_external = (if s3_external sto \<noteq> [] then Some (s3_external sto) else None)\<rparr>)"

definition assumeRole ::
    "(assume_input \<Rightarrow> string + assumed) \<Rightarrow> storage_config \<Rightarrow> string + (string, string) gomap" where
  "assumeRole sts sto =
     (case sts (assume_request sto) of
        Inl err \<Rightarrow> Inl err
      | Inr c \<Rightarrow>
          Inr ([(''s3.access-key-id'', as_access_key c), (''s3.secret-access-key'', as_secret_key c),
                (''s3.session-token'', as_token c),
                (''s3.session-token-expiration-ms'', formatExpirationFromTime (as_expiration c))] @
               member_if (s3_region sto \<noteq> []) ''s3.region'' (s3_region sto) @
               member_if (s3_endpoint sto \<noteq> []) ''s3.endpoint'' (s3_endpoint sto) @
               member_if (s3_path_style sto) ''s3.path-style-access'' ''true''))"

definition vendS3Credentials ::
    "(assume_input \<Rightarrow> string + assumed) \<Rightarrow> int \<Rightarrow> storage_config \<Rightarrow> string + (string, string) gomap" where
  "vendS3Credentials sts now sto =
     (if s3_role sto \<noteq> [] then assumeRole sts sto
      else if s3_access_key sto \<noteq> [] then
        Inr ([(''s3.access-key-id'', s3_access_key sto), (''s3.secret-access-key'', s3_secret_key sto)] @
             member_if (s3_endpoint sto \<noteq> []) ''s3.endpoint'' (s3_endpoint sto) @
             member_if (s3_region sto \<noteq> []) ''s3.region'' (s3_region sto) @
             member_if (s3_path_style sto) ''s3.path-style-access'' ''true'' @
             [(''s3.session-token-expiration-ms'', formatExpirationMs now hour_ns)])
      else Inr [])"

text \<open>The request to Google's service: the file of the base credentials, the account and the lifetime.\<close>

definition impersonateServiceAccount ::
    "(string option \<times> string \<times> string \<Rightarrow> string + string \<times> string) \<Rightarrow> (string \<Rightarrow> int option) \<Rightarrow> int \<Rightarrow> storage_config \<Rightarrow>
     string + string \<times> int" where
  "impersonateServiceAccount iam parse_time now sto =
     (let lifetime = (if gcs_lifetime sto = 0 then hour_ns else gcs_lifetime sto) in
      case iam (if gcs_file sto \<noteq> [] then Some (gcs_file sto) else None,
                ''projects/-/serviceAccounts/'' @ gcs_account sto, show_int (duration_seconds lifetime) @ ''s'') of
        Inl err \<Rightarrow> Inl err
      | Inr (token, expireTime) \<Rightarrow>
          Inr (token, case parse_time expireTime of Some t \<Rightarrow> t | None \<Rightarrow> now + lifetime))"

definition vendGCSCredentials ::
    "(string option \<times> string \<times> string \<Rightarrow> string + string \<times> string) \<Rightarrow> (string \<Rightarrow> int option) \<Rightarrow> int \<Rightarrow> storage_config \<Rightarrow>
     string + (string, string) gomap" where
  "vendGCSCredentials iam parse_time now sto =
     (let project = member_if (gcs_project sto \<noteq> []) ''gcs.project-id'' (gcs_project sto) in
      if gcs_account sto \<noteq> [] then
        (case impersonateServiceAccount iam parse_time now sto of
           Inl err \<Rightarrow> Inl err
         | Inr (token, expiration) \<Rightarrow>
             Inr (project @ [(''gcs.oauth2.token'', token),
               (''gcs.oauth2.token-expiration-ms'', formatExpirationFromTime expiration)]))
      else Inr project)"

definition LoadCredentials ::
    "(assume_input \<Rightarrow> string + assumed) \<Rightarrow> (string option \<times> string \<times> string \<Rightarrow> string + string \<times> string) \<Rightarrow>
     (string \<Rightarrow> int option) \<Rightarrow> int \<Rightarrow> storage_config \<Rightarrow> string \<Rightarrow> outcome prog" where
  "LoadCredentials sts iam parse_time now sto delegation =
     (let answer = (\<lambda>creds. reply (Resp 200 (Some (GObj
            (if creds = [] then [] else [(''config'', props_val creds)])))));
          failed = apiError 500 ''failed to vend credentials'' ''ServerError'' in
      if delegation = [] then answer []
      else if sc_type sto = ''s3'' \<and> delegation = ''vended-credentials'' then
        (case vendS3Credentials sts now sto of Inl err \<Rightarrow> failed | Inr creds \<Rightarrow> answer creds)
      else if sc_type sto = ''gcs'' \<and> delegation = ''vended-credentials'' then
        (case vendGCSCredentials iam parse_time now sto of Inl err \<Rightarrow> failed | Inr creds \<Rightarrow> answer creds)
      else answer [])"

section \<open>What leaves the server\<close>

lemma mget_member_if [simp]: "mget (member_if c k v) k' = (if c \<and> k' = k then Some v else None)"
  by (simp add: member_if_def)

lemma mget_append: "mget (xs @ ys) k = (case mget xs k of Some v \<Rightarrow> Some v | None \<Rightarrow> mget ys k)"
  unfolding mget_def by (simp add: map_add_def split: option.split)

text \<open>The storage secret leaves the server only as configured: \<open>GetConfig\<close> never tells it; with a role, an
  answer has the secret, the token and the expiry of the role's session and not the configured secret; without
  a role an answer has the configured key and its secret under an expiry one hour ahead, though they never
  expire; and without a delegation, or with one that is not \<open>vended-credentials\<close>, an answer has nothing.\<close>

theorem credentials_scope:
  "mget (config_defaults prefix sto) ''s3.secret-access-key'' = None \<and>
   (case vendS3Credentials sts now sto of
      Inl err \<Rightarrow> s3_role sto \<noteq> [] \<and> sts (assume_request sto) = Inl err
    | Inr creds \<Rightarrow>
        if s3_role sto \<noteq> [] then
          (\<exists>c. sts (assume_request sto) = Inr c \<and> mget creds ''s3.secret-access-key'' = Some (as_secret_key c) \<and>
             mget creds ''s3.session-token'' = Some (as_token c) \<and>
             mget creds ''s3.session-token-expiration-ms'' = Some (show_int (as_expiration c div 1000000)))
        else if s3_access_key sto \<noteq> [] then
          mget creds ''s3.secret-access-key'' = Some (s3_secret_key sto) \<and> mget creds ''s3.session-token'' = None \<and>
          mget creds ''s3.session-token-expiration-ms'' = Some (show_int ((now + 3600000000000) div 1000000))
        else creds = []) \<and>
   (delegation = ''vended-credentials'' \<or>
    LoadCredentials sts iam parse_time now sto delegation = reply (Resp 200 (Some (GObj []))))"
  by (auto simp: config_defaults_def mget_append vendS3Credentials_def assumeRole_def LoadCredentials_def Let_def
      formatExpirationFromTime_def formatExpirationMs_def hour_ns_def split: sum.splits)

end
