(* ===== verification/Server.thy ===== *)
theory Server
  imports Auth Settings
begin

text \<open>
  \<open>internal/api/server.go\<close>: the routes and the middleware in front of them, and the handlers that do not
  touch the catalog (\<open>health.go\<close>, \<open>metrics.go\<close>, \<open>polaris.go\<close>).  A route is a method, a pattern and the name
  of its handler.  How Fiber matches a path with the patterns is not part of the model: a path of a route
  is its pattern with values for the parameters.
\<close>

section \<open>Routes\<close>

record route =
  ro_method :: string
  ro_pattern :: string
  ro_handler :: string

definition rt :: "string \<Rightarrow> string \<Rightarrow> string \<Rightarrow> route" where
  "rt m p h = \<lparr>ro_method = m, ro_pattern = p, ro_handler = h\<rparr>"

text \<open>The routes of the group \<open>/v1\<close> behind the middleware, and those of \<open>/v1/:prefix\<close>, in the order of the code.\<close>

definition v1_routes :: "route list" where
  "v1_routes =
     [rt ''GET'' ''/namespaces'' ''ListNamespaces'',
      rt ''POST'' ''/namespaces'' ''CreateNamespace'',
      rt ''GET'' ''/namespaces/:namespace'' ''GetNamespace'',
      rt ''HEAD'' ''/namespaces/:namespace'' ''NamespaceExists'',
      rt ''DELETE'' ''/namespaces/:namespace'' ''DeleteNamespace'',
      rt ''POST'' ''/namespaces/:namespace/properties'' ''UpdateNamespaceProperties'',
      rt ''GET'' ''/namespaces/:namespace/tables'' ''ListTables'',
      rt ''POST'' ''/namespaces/:namespace/tables'' ''CreateTable'',
      rt ''GET'' ''/namespaces/:namespace/tables/:table'' ''LoadTable'',
      rt ''POST'' ''/namespaces/:namespace/tables/:table'' ''CommitTable'',
      rt ''DELETE'' ''/namespaces/:namespace/tables/:table'' ''DropTable'',
      rt ''HEAD'' ''/namespaces/:namespace/tables/:table'' ''TableExists'',
      rt ''GET'' ''/namespaces/:namespace/tables/:table/credentials'' ''LoadCredentials'',
      rt ''POST'' ''/namespaces/:namespace/tables/:table/metrics'' ''ReportMetrics'',
      rt ''POST'' ''/namespaces/:namespace/tables/:table/plan'' ''SubmitScanPlan'',
      rt ''GET'' ''/namespaces/:namespace/tables/:table/plan/:planId'' ''GetScanPlan'',
      rt ''DELETE'' ''/namespaces/:namespace/tables/:table/plan/:planId'' ''CancelScanPlan'',
      rt ''POST'' ''/namespaces/:namespace/tables/:table/tasks'' ''FetchPlanTasks'',
      rt ''POST'' ''/namespaces/:namespace/register'' ''RegisterTable'',
      rt ''GET'' ''/namespaces/:namespace/views'' ''ListViews'',
      rt ''POST'' ''/namespaces/:namespace/views'' ''CreateView'',
      rt ''GET'' ''/namespaces/:namespace/views/:view'' ''LoadView'',
      rt ''POST'' ''/namespaces/:namespace/views/:view'' ''ReplaceView'',
      rt ''DELETE'' ''/namespaces/:namespace/views/:view'' ''DropView'',
      rt ''HEAD'' ''/namespaces/:namespace/views/:view'' ''ViewExists'',
      rt ''POST'' ''/tables/rename'' ''RenameTable'',
      rt ''POST'' ''/views/rename'' ''RenameView'',
      rt ''POST'' ''/transactions/commit'' ''CommitTransaction'',
      rt ''GET'' ''/api-keys'' ''ListAPIKeys'',
      rt ''POST'' ''/api-keys'' ''CreateAPIKey'',
      rt ''POST'' ''/api-keys/:id/rotate'' ''RotateAPIKey'',
      rt ''DELETE'' ''/api-keys/:id'' ''DeleteAPIKey'']"

definition prefix_routes :: "route list" where
  "prefix_routes =
     [rt ''GET'' ''/namespaces'' ''ListNamespaces'',
      rt ''POST'' ''/namespaces'' ''CreateNamespace'',
      rt ''GET'' ''/namespaces/:namespace'' ''GetNamespace'',
      rt ''HEAD'' ''/namespaces/:namespace'' ''NamespaceExists'',
      rt ''DELETE'' ''/namespaces/:namespace'' ''DeleteNamespace'',
      rt ''POST'' ''/namespaces/:namespace/properties'' ''UpdateNamespaceProperties'',
      rt ''GET'' ''/namespaces/:namespace/tables'' ''ListTables'',
      rt ''POST'' ''/namespaces/:namespace/tables'' ''CreateTable'',
      rt ''GET'' ''/namespaces/:namespace/tables/:table'' ''LoadTable'',
      rt ''POST'' ''/namespaces/:namespace/tables/:table'' ''CommitTable'',
      rt ''DELETE'' ''/namespaces/:namespace/tables/:table'' ''DropTable'',
      rt ''HEAD'' ''/namespaces/:namespace/tables/:table'' ''TableExists'',
      rt ''GET'' ''/namespaces/:namespace/tables/:table/credentials'' ''LoadCredentials'',
      rt ''POST'' ''/namespaces/:namespace/tables/:table/metrics'' ''ReportMetrics'',
      rt ''POST'' ''/namespaces/:namespace/tables/:table/plan'' ''SubmitScanPlan'',
      rt ''GET'' ''/namespaces/:namespace/tables/:table/plan/:planId'' ''GetScanPlan'',
      rt ''DELETE'' ''/namespaces/:namespace/tables/:table/plan/:planId'' ''CancelScanPlan'',
      rt ''POST'' ''/namespaces/:namespace/tables/:table/tasks'' ''FetchPlanTasks'',
      rt ''POST'' ''/namespaces/:namespace/register'' ''RegisterTable'',
      rt ''GET'' ''/namespaces/:namespace/views'' ''ListViews'',
      rt ''POST'' ''/namespaces/:namespace/views'' ''CreateView'',
      rt ''GET'' ''/namespaces/:namespace/views/:view'' ''LoadView'',
      rt ''POST'' ''/namespaces/:namespace/views/:view'' ''ReplaceView'',
      rt ''DELETE'' ''/namespaces/:namespace/views/:view'' ''DropView'',
      rt ''HEAD'' ''/namespaces/:namespace/views/:view'' ''ViewExists'',
      rt ''POST'' ''/tables/rename'' ''RenameTable'',
      rt ''POST'' ''/views/rename'' ''RenameView'',
      rt ''POST'' ''/transactions/commit'' ''CommitTransaction'']"

text \<open>The routes in front of the middleware, which need no credentials.\<close>

definition open_routes :: "bool \<Rightarrow> route list" where
  "open_routes polaris =
     [rt ''GET'' ''/health'' ''HealthCheck'', rt ''GET'' ''/ready'' ''ReadyCheck'',
      rt ''GET'' ''/v1/events/stream'' ''EventStream'', rt ''GET'' ''/v1/config'' ''GetConfig'',
      rt ''POST'' ''/v1/oauth/tokens'' ''ExchangeToken''] @
     (if polaris then
        [rt ''POST'' ''/api/catalog/v1/oauth/tokens'' ''ExchangeToken'',
         rt ''POST'' ''/api/management/v1/catalogs'' ''PolarisCreateCatalog'',
         rt ''GET'' ''/api/management/v1/catalogs'' ''PolarisListCatalogs'',
         rt ''GET'' ''/api/management/v1/catalogs/:name'' ''PolarisGetCatalog'']
      else [])"

section \<open>Middleware\<close>

text \<open>The permission the ACL middleware asks for.\<close>

definition required_permission :: "string \<Rightarrow> permission" where
  "required_permission m =
     (if m = ''GET'' \<or> m = ''HEAD'' then Read
      else if m = ''POST'' \<or> m = ''PUT'' \<or> m = ''PATCH'' then Write
      else if m = ''DELETE'' then Manage
      else Read)"

text \<open>What the routes of \<open>/v1\<close> are behind: authentication and authorization, where they are enabled.\<close>

definition guarded ::
    "auth_config \<Rightarrow> (string \<Rightarrow> string) \<Rightarrow> (nat \<Rightarrow> string) \<Rightarrow> int \<Rightarrow> string \<Rightarrow> string \<Rightarrow> string \<Rightarrow>
     (principal option \<Rightarrow> outcome prog) \<Rightarrow> outcome prog" where
  "guarded cfg H uuid_text now m path header inner =
     (let authz = (\<lambda>who. if au_acl cfg then Authz cfg (required_permission m) path who (inner who) else inner who) in
      if au_enabled cfg then Auth cfg H uuid_text now path header authz else authz None)"

text \<open>
  The path rewriting for Polaris: \<open>^/api/catalog/v1/([^/]+)/(.*)$\<close>.  The first \<open>/\<close> after the segment ends
  it; the rest has no line feed.
\<close>

fun upto_slash :: "string \<Rightarrow> (string \<times> string) option" where
  "upto_slash [] = None"
| "upto_slash (c # cs) = (if c = CHR ''/'' then Some ([], cs) else map_option (map_prod (Cons c) id) (upto_slash cs))"

definition polaris_match :: "string \<Rightarrow> (string \<times> string) option" where
  "polaris_match path =
     (let p = ''/api/catalog/v1/'' in
      if has_prefix p path then
        (case upto_slash (drop (length p) path) of
           Some (seg, rest) \<Rightarrow> if seg \<noteq> [] \<and> CHR 0x0A \<notin> set rest then Some (seg, rest) else None
         | None \<Rightarrow> None)
      else None)"

definition rewrite_path :: "bool \<Rightarrow> string \<Rightarrow> string" where
  "rewrite_path polaris path =
     (if \<not> polaris then path
      else (case polaris_match path of
        Some (seg, rest) \<Rightarrow> if seg \<noteq> ''oauth'' then ''/v1/'' @ rest else path
      | None \<Rightarrow> path))"

section \<open>Other handlers\<close>

definition HealthCheck :: "outcome prog" where
  "HealthCheck = reply (Resp 200 (Some (GObj [(''status'', GStr ''healthy'')])))"

text \<open>A ping is a statement; \<open>has_pool\<close> is false where there is no database.\<close>

definition ReadyCheck :: "bool \<Rightarrow> outcome prog" where
  "ReadyCheck has_pool =
     (let answer = (\<lambda>code status check. reply (Resp code (Some (GObj [(''status'', GStr status),
            (''checks'', GObj [(''database'', GStr check)])])))) in
      if \<not> has_pool then answer 503 ''not ready'' ''not configured''
      else query (\<lambda>d. ()) (\<lambda>e. answer 503 ''not ready'' ''failed'') (\<lambda>_. answer 200 ''ready'' ''healthy''))"

definition ReportMetrics :: "'b option \<Rightarrow> outcome prog" where
  "ReportMetrics body = reply (Resp 204 None)"

record polaris_catalog =
  po_type :: string
  po_name :: string
  po_properties :: "(string, string) gomap option"
  po_storage :: string

definition polaris_val :: "gval \<Rightarrow> gval \<Rightarrow> gval \<Rightarrow> gval \<Rightarrow> gval \<Rightarrow> gval" where
  "polaris_val ty name props storage locations =
     GObj [(''type'', ty), (''name'', name), (''properties'', props),
       (''storageConfigInfo'', GObj [(''storageType'', storage), (''allowedLocations'', locations)]),
       (''createTimestamp'', GInt 0), (''lastUpdateTimestamp'', GInt 0), (''entityVersion'', GInt 1)]"

definition default_location :: string where
  "default_location = ''file:///tmp/iceberg/warehouse''"

definition PolarisCreateCatalog :: "polaris_catalog option \<Rightarrow> outcome prog" where
  "PolarisCreateCatalog body =
     (case body of
        None \<Rightarrow> reply (Resp 400 (Some (GObj [(''error'', GObj [(''code'', GInt 400),
          (''message'', GStr ''invalid request body''), (''type'', GStr ''BadRequestException'')])])))
      | Some req \<Rightarrow>
          let base = (case po_properties req of None \<Rightarrow> None | Some ps \<Rightarrow> mget ps ''default-base-location'');
              location = (case base of Some l \<Rightarrow> if l = [] then default_location else l | None \<Rightarrow> default_location)
          in reply (Resp 201 (Some (polaris_val (GStr (po_type req)) (GStr (po_name req))
               (case po_properties req of Some ps \<Rightarrow> props_val ps | None \<Rightarrow> GNil) (GStr (po_storage req))
               (GArr [GStr location])))))"

definition mock_catalog :: "string \<Rightarrow> gval" where
  "mock_catalog name =
     polaris_val (GStr ''INTERNAL'') (GStr name) (GObj [(''default-base-location'', GStr default_location)])
       (GStr ''FILE'') (GArr [GStr default_location])"

definition PolarisGetCatalog :: "string \<Rightarrow> outcome prog" where
  "PolarisGetCatalog name = reply (Resp 200 (Some (mock_catalog name)))"

definition PolarisListCatalogs :: "outcome prog" where
  "PolarisListCatalogs = reply (Resp 200 (Some (GObj [(''catalogs'', GArr [mock_catalog ''default''])])))"

section \<open>Which routes the ACLs protect\<close>

text \<open>The segments of a pattern, and of a path: the parameters replaced by values.\<close>

definition pattern_segs :: "route \<Rightarrow> string list" where
  "pattern_segs r = split_on (CHR ''/'') (ro_pattern r)"

definition fill :: "(string \<Rightarrow> string) \<Rightarrow> string \<Rightarrow> string" where
  "fill vals seg = (if seg \<noteq> [] \<and> hd seg = CHR '':'' then vals (tl seg) else seg)"

text \<open>A path of a route in a group with the given segments.\<close>

definition route_path :: "string list \<Rightarrow> (string \<Rightarrow> string) \<Rightarrow> route \<Rightarrow> string" where
  "route_path base vals r = join_with ''/'' ([] # base @ map (fill vals) (tl (pattern_segs r)))"

definition has_namespace :: "route \<Rightarrow> bool" where
  "has_namespace r = ('':namespace'' \<in> set (pattern_segs r))"

text \<open>The two forms of patterns: under a namespace, or without one.\<close>

definition ns_shape :: "string list \<Rightarrow> bool" where
  "ns_shape segs \<longleftrightarrow> take 2 segs = [''namespaces'', '':namespace''] \<and> ''namespaces'' \<notin> set (drop 2 segs) \<and>
     '':namespace'' \<notin> set (drop 2 segs)"

definition plain_shape :: "string list \<Rightarrow> bool" where
  "plain_shape segs \<longleftrightarrow> segs = [''namespaces''] \<or> ''namespaces'' \<notin> set segs"

lemma route_shapes:
  "list_all (\<lambda>r. if has_namespace r then ns_shape (tl (pattern_segs r)) else plain_shape (tl (pattern_segs r))) v1_routes"
  "list_all (\<lambda>r. if has_namespace r then ns_shape (tl (pattern_segs r)) else plain_shape (tl (pattern_segs r))) prefix_routes"
  by code_simp+

lemma namespace_in_none: "''namespaces'' \<notin> set segs \<Longrightarrow> namespace_in segs = []"
  by (induction segs) auto

lemma namespace_in_skip: "s \<noteq> ''namespaces'' \<Longrightarrow> namespace_in (s # segs) = namespace_in segs"
  by simp

lemma fill_no_namespaces:
  "''namespaces'' \<notin> set segs \<Longrightarrow> \<forall>n. n \<noteq> ''namespace'' \<longrightarrow> vals n \<noteq> ''namespaces'' \<Longrightarrow> '':namespace'' \<notin> set segs \<Longrightarrow>
   ''namespaces'' \<notin> set (map (fill vals) segs)"
proof
  assume h: "''namespaces'' \<notin> set segs" "\<forall>n. n \<noteq> ''namespace'' \<longrightarrow> vals n \<noteq> ''namespaces''" "'':namespace'' \<notin> set segs"
    and "''namespaces'' \<in> set (map (fill vals) segs)"
  from this(4) obtain s where s: "s \<in> set segs" "fill vals s = ''namespaces''" unfolding set_map image_iff by metis
  show False
  proof (cases "s \<noteq> [] \<and> hd s = CHR '':''")
    case True
    then obtain n where n: "s = CHR '':'' # n" by (cases s) auto
    with s(2) have "vals n = ''namespaces''" by (simp add: fill_def)
    with h(2) have "n = ''namespace''" by blast
    with s(1) n h(3) show False by simp
  next
    case False
    with s(2) have "s = ''namespaces''" by (auto simp: fill_def)
    with s(1) h(1) show False by simp
  qed
qed

lemma extract_path:
  "\<forall>s \<in> set segs. CHR ''/'' \<notin> set s \<Longrightarrow> extractNamespace (join_with ''/'' ([] # segs)) = namespace_in segs"
proof -
  assume "\<forall>s \<in> set segs. CHR ''/'' \<notin> set s"
  then have "split_on (CHR ''/'') (join_with ''/'' ([] # segs)) = [] # segs"
    by (intro split_on_join) auto
  then show ?thesis by (simp add: extractNamespace_def del: join_with.simps)
qed

text \<open>Values of the parameters as they can stand in a path, the others than the namespace not called \<open>namespaces\<close>.\<close>

definition path_values :: "(string \<Rightarrow> string) \<Rightarrow> bool" where
  "path_values vals \<longleftrightarrow> (\<forall>n. CHR ''/'' \<notin> set (vals n)) \<and> (\<forall>n. n \<noteq> ''namespace'' \<longrightarrow> vals n \<noteq> ''namespaces'')"

definition route_of_group :: "string list \<Rightarrow> route \<Rightarrow> bool" where
  "route_of_group base r \<longleftrightarrow>
     base = [''v1''] \<and> r \<in> set v1_routes \<or>
     (\<exists>p. base = [''v1'', p] \<and> p \<noteq> ''namespaces'' \<and> CHR ''/'' \<notin> set p \<and> r \<in> set prefix_routes)"

lemma group_shape:
  assumes "route_of_group base r"
  shows "(if has_namespace r then ns_shape (tl (pattern_segs r)) else plain_shape (tl (pattern_segs r))) \<and>
    (\<forall>s \<in> set base. s \<noteq> ''namespaces'' \<and> CHR ''/'' \<notin> set s)"
proof -
  have "if has_namespace r then ns_shape (tl (pattern_segs r)) else plain_shape (tl (pattern_segs r))"
    using assms route_shapes unfolding route_of_group_def list_all_iff by blast
  moreover have "\<forall>s \<in> set base. s \<noteq> ''namespaces'' \<and> CHR ''/'' \<notin> set s"
    using assms by (auto simp: route_of_group_def)
  ultimately show ?thesis by blast
qed

lemma namespace_in_base: "\<forall>s \<in> set base. s \<noteq> ''namespaces'' \<Longrightarrow> namespace_in (base @ segs) = namespace_in segs"
  by (induction base) auto

text \<open>C37: which requests the ACLs look at.  On every route of \<open>/v1\<close> and of \<open>/v1/:prefix\<close> the namespace whose
  permissions are checked is the one in the path, for the routes that have one; the others, among them the
  renaming of tables and views, multi-table commits and the management of API keys, are not checked, and
  neither is anything in a namespace that is called \<open>tables\<close>, \<open>views\<close> or \<open>properties\<close>.\<close>

theorem acl_coverage:
  assumes "route_of_group base r" "path_values vals"
  shows "extractNamespace (route_path base vals r) =
    (if has_namespace r \<and> vals ''namespace'' \<notin> {[], ''tables'', ''views'', ''properties''} then vals ''namespace'' else [])"
proof -
  let ?segs = "tl (pattern_segs r)"
  note shape = group_shape [OF assms(1)]
  have "\<forall>s \<in> set ?segs. CHR ''/'' \<notin> set s"
    unfolding pattern_segs_def using split_on_parts by (metis list.sel(2) list.set_sel(2))
  then have "\<forall>s \<in> set (base @ map (fill vals) ?segs). CHR ''/'' \<notin> set s"
    using assms(2) shape by (auto simp: fill_def path_values_def)
  then have e: "extractNamespace (route_path base vals r) = namespace_in (map (fill vals) ?segs)"
    unfolding route_path_def append_Cons append_Nil
    using shape by (simp only: extract_path) (rule namespace_in_base, blast)
  show ?thesis
  proof (cases "has_namespace r")
    case False
    with shape have plain: "plain_shape ?segs" by simp
    have no: "'':namespace'' \<notin> set ?segs" using False
      unfolding has_namespace_def by (metis list.sel(2) list.set_sel(2))
    have "namespace_in (map (fill vals) ?segs) = []"
    proof (cases "?segs = [''namespaces'']")
      case True
      show ?thesis unfolding True by (simp add: fill_def)
    next
      case False
      with plain have "''namespaces'' \<notin> set ?segs" by (simp add: plain_shape_def)
      from fill_no_namespaces [OF this _ no, of vals] assms(2) show ?thesis
        unfolding path_values_def by (blast intro: namespace_in_none)
    qed
    with False e show ?thesis by simp
  next
    case True
    with shape have ns: "take 2 ?segs = [''namespaces'', '':namespace'']" "''namespaces'' \<notin> set (drop 2 ?segs)"
        "'':namespace'' \<notin> set (drop 2 ?segs)" by (simp_all add: ns_shape_def)
    have "?segs = [''namespaces'', '':namespace''] @ drop 2 ?segs" unfolding ns(1) [symmetric] by simp
    then obtain rest where rest: "?segs = [''namespaces'', '':namespace''] @ rest" "rest = drop 2 ?segs" by blast
    have "map (fill vals) ?segs = ''namespaces'' # vals ''namespace'' # map (fill vals) rest"
      unfolding rest(1) by (simp add: fill_def)
    moreover have "namespace_in (map (fill vals) rest) = []"
      using fill_no_namespaces [OF ns(2) _ ns(3), of vals] assms(2) unfolding rest(2) path_values_def
      by (blast intro: namespace_in_none)
    ultimately show ?thesis using True e by auto
  qed
qed

theorem acl_coverage_witness:
  "extractNamespace (route_path [''v1''] (\<lambda>n. if n = ''namespace'' then ''tables'' else ''t'')
       (rt ''POST'' ''/namespaces/:namespace/tables/:table'' ''CommitTable'')) = [] \<and>
   extractNamespace (route_path [''v1'', ''prod''] (\<lambda>n. if n = ''namespace'' then ''a'' else ''t'')
       (rt ''POST'' ''/namespaces/:namespace/tables/:table'' ''CommitTable'')) = ''a'' \<and>
   extractNamespace (route_path [''v1''] (\<lambda>n. ''x'') (rt ''POST'' ''/tables/rename'' ''RenameTable'')) = []"
proof -
  have "has_namespace (rt ''POST'' ''/namespaces/:namespace/tables/:table'' ''CommitTable'')"
    "\<not> has_namespace (rt ''POST'' ''/tables/rename'' ''RenameTable'')" by code_simp+
  moreover have "route_of_group [''v1''] (rt ''POST'' ''/namespaces/:namespace/tables/:table'' ''CommitTable'')"
    "route_of_group [''v1'', ''prod''] (rt ''POST'' ''/namespaces/:namespace/tables/:table'' ''CommitTable'')"
    "route_of_group [''v1''] (rt ''POST'' ''/tables/rename'' ''RenameTable'')"
    by (simp_all add: route_of_group_def v1_routes_def prefix_routes_def rt_def)
  moreover have "path_values (\<lambda>n. if n = ''namespace'' then ''tables'' else ''t'')"
    "path_values (\<lambda>n. if n = ''namespace'' then ''a'' else ''t'')" "path_values (\<lambda>n. ''x'')"
    by (simp_all add: path_values_def)
  ultimately show ?thesis by (simp add: acl_coverage)
qed

section \<open>What the catalog says it serves\<close>

text \<open>A route as \<open>GetConfig\<close> writes it.\<close>

definition braces :: "string \<Rightarrow> string" where
  "braces seg =
     (if seg \<noteq> [] \<and> hd seg = CHR '':'' then ''{'' @ (if tl seg = ''planId'' then ''plan-id'' else tl seg) @ ''}''
      else seg)"

definition advertised :: "route \<Rightarrow> string" where
  "advertised r = ro_method r @ '' /v1/{prefix}'' @ join_with ''/'' (map braces (pattern_segs r))"

text \<open>What \<open>GetConfig\<close> lists as endpoints is what the server serves with a prefix, and the two endpoints
  for the configuration and for tokens: nothing is missing, nothing is listed twice or without a route, and
  every prefixed route goes to the handler of the same route without a prefix.\<close>

theorem endpoints_are_routes:
  "set endpoints = {''GET /v1/config'', ''POST /v1/oauth/tokens''} \<union> set (map advertised prefix_routes) \<and>
   distinct endpoints \<and> set prefix_routes \<subseteq> set v1_routes \<and>
   {r \<in> set v1_routes. r \<notin> set prefix_routes} =
     {r \<in> set v1_routes. ro_handler r \<in> {''ListAPIKeys'', ''CreateAPIKey'', ''RotateAPIKey'', ''DeleteAPIKey''}}"
proof (intro conjI)
  have "map advertised prefix_routes =
    [''GET /v1/{prefix}/namespaces'', ''POST /v1/{prefix}/namespaces'', ''GET /v1/{prefix}/namespaces/{namespace}'',
     ''HEAD /v1/{prefix}/namespaces/{namespace}'', ''DELETE /v1/{prefix}/namespaces/{namespace}'',
     ''POST /v1/{prefix}/namespaces/{namespace}/properties'', ''GET /v1/{prefix}/namespaces/{namespace}/tables'',
     ''POST /v1/{prefix}/namespaces/{namespace}/tables'', ''GET /v1/{prefix}/namespaces/{namespace}/tables/{table}'',
     ''POST /v1/{prefix}/namespaces/{namespace}/tables/{table}'', ''DELETE /v1/{prefix}/namespaces/{namespace}/tables/{table}'',
     ''HEAD /v1/{prefix}/namespaces/{namespace}/tables/{table}'',
     ''GET /v1/{prefix}/namespaces/{namespace}/tables/{table}/credentials'',
     ''POST /v1/{prefix}/namespaces/{namespace}/tables/{table}/metrics'',
     ''POST /v1/{prefix}/namespaces/{namespace}/tables/{table}/plan'',
     ''GET /v1/{prefix}/namespaces/{namespace}/tables/{table}/plan/{plan-id}'',
     ''DELETE /v1/{prefix}/namespaces/{namespace}/tables/{table}/plan/{plan-id}'',
     ''POST /v1/{prefix}/namespaces/{namespace}/tables/{table}/tasks'', ''POST /v1/{prefix}/namespaces/{namespace}/register'',
     ''GET /v1/{prefix}/namespaces/{namespace}/views'', ''POST /v1/{prefix}/namespaces/{namespace}/views'',
     ''GET /v1/{prefix}/namespaces/{namespace}/views/{view}'', ''POST /v1/{prefix}/namespaces/{namespace}/views/{view}'',
     ''DELETE /v1/{prefix}/namespaces/{namespace}/views/{view}'', ''HEAD /v1/{prefix}/namespaces/{namespace}/views/{view}'',
     ''POST /v1/{prefix}/tables/rename'', ''POST /v1/{prefix}/views/rename'', ''POST /v1/{prefix}/transactions/commit'']"
    by code_simp
  then have "set (map advertised prefix_routes) = set (drop 2 endpoints)"
    by (simp only: endpoints_def) auto
  moreover have "set endpoints = set (take 2 endpoints) \<union> set (drop 2 endpoints)"
    by (metis append_take_drop_id set_append)
  ultimately show "set endpoints = {''GET /v1/config'', ''POST /v1/oauth/tokens''} \<union> set (map advertised prefix_routes)"
    by (simp add: endpoints_def)
  show "distinct endpoints" by code_simp
  show "set prefix_routes \<subseteq> set v1_routes" by code_simp
  have "list_all (\<lambda>r. (r \<in> set prefix_routes) \<longleftrightarrow>
      ro_handler r \<notin> {''ListAPIKeys'', ''CreateAPIKey'', ''RotateAPIKey'', ''DeleteAPIKey''}) v1_routes"
    by code_simp
  then show "{r \<in> set v1_routes. r \<notin> set prefix_routes} =
     {r \<in> set v1_routes. ro_handler r \<in> {''ListAPIKeys'', ''CreateAPIKey'', ''RotateAPIKey'', ''DeleteAPIKey''}}"
    unfolding list_all_iff by blast
qed

end
