(* ===== verification/Catalog.thy ===== *)
theory Catalog
  imports Views Transactions Scans Server
begin

text \<open>
  The catalog as a whole: every request of the routes of \<open>/v1\<close>, behind the middleware, and many of them in
  flight at the same time.  \<open>env\<close> is what the server is started with and the parameters of the model,
  \<open>call\<close> what one request brings along: method, path and header, the time in nanoseconds, the UUID and the
  random bytes it draws, how many rows of a listing arrive, and the order in which a map is visited.  The body is in
  the request, as \<open>BodyParser\<close> decodes it.
\<close>

section \<open>Requests\<close>

record env =
  en_catalog :: catalog_config
  en_auth :: auth_config
  en_storage :: storage_config
  en_broker :: bool
  en_coll :: "string \<Rightarrow> string \<Rightarrow> bool"
  en_hash :: "string \<Rightarrow> string"
  en_uuid_of :: "string \<Rightarrow> nat option"
  en_uuid_text :: "nat \<Rightarrow> string"
  en_fmt :: "int \<Rightarrow> string"
  en_sts :: "assume_input \<Rightarrow> string + assumed"
  en_iam :: "string option \<times> string \<times> string \<Rightarrow> string + string \<times> string"
  en_parse_time :: "string \<Rightarrow> int option"

record call =
  ca_method :: string
  ca_path :: string
  ca_header :: string
  ca_now :: int
  ca_uuid :: string
  ca_random :: "nat list option"
  ca_rows :: "nat option"
  ca_visit :: "(string, string) gomap \<Rightarrow> (string, string) gomap"

text \<open>A request by its handler: the parameters of the path and the query, and the body.\<close>

datatype request =
    QListNamespaces string string int
  | QCreateNamespace "create_ns_req option"
  | QGetNamespace string
  | QNamespaceExists string
  | QDeleteNamespace string
  | QUpdateNamespaceProperties string "update_ns_req option"
  | QListTables string string int
  | QCreateTable string "create_table_req option"
  | QLoadTable string string
  | QCommitTable string string "commit_table_req option"
  | QDropTable string string
  | QTableExists string string
  | QLoadCredentials string
  | QReportMetrics
  | QSubmitScanPlan string string "plan_req option"
  | QGetScanPlan string string string
  | QCancelScanPlan string string string
  | QFetchPlanTasks string string "string option"
  | QRegisterTable string "register_req option"
  | QListViews string string int
  | QCreateView string "create_view_req option"
  | QLoadView string string
  | QReplaceView string string "replace_view_req option"
  | QDropView string string
  | QViewExists string string
  | QRenameTable "rename_req option"
  | QRenameView "rename_req option"
  | QCommitTransaction "table_change list option"
  | QListAPIKeys
  | QCreateAPIKey "create_key_req option"
  | QRotateAPIKey string
  | QDeleteAPIKey string

definition now_ms :: "call \<Rightarrow> int" where
  "now_ms ca = ca_now ca div 1000000"

text \<open>The handler of a route, for a principal.\<close>

fun handler :: "env \<Rightarrow> call \<Rightarrow> principal option \<Rightarrow> request \<Rightarrow> outcome prog" where
  "handler en ca who (QListNamespaces parent tok n) = ListNamespaces (en_coll en) (ca_rows ca) parent tok n"
| "handler en ca who (QCreateNamespace body) = CreateNamespace (en_broker en) body"
| "handler en ca who (QGetNamespace ns) = GetNamespace ns"
| "handler en ca who (QNamespaceExists ns) = NamespaceExists ns"
| "handler en ca who (QDeleteNamespace ns) = DeleteNamespace (en_broker en) ns"
| "handler en ca who (QUpdateNamespaceProperties ns body) = UpdateNamespaceProperties (ca_visit ca) ns body"
| "handler en ca who (QListTables ns tok n) = ListTables (en_coll en) (ca_rows ca) ns tok n"
| "handler en ca who (QCreateTable ns body) = CreateTable (en_catalog en) (ca_uuid ca) (now_ms ca) ns body"
| "handler en ca who (QLoadTable ns t) = LoadTable ns t"
| "handler en ca who (QCommitTable ns t body) = CommitTable (en_catalog en) (now_ms ca) ns t body"
| "handler en ca who (QDropTable ns t) = DropTable ns t"
| "handler en ca who (QTableExists ns t) = TableExists ns t"
| "handler en ca who (QLoadCredentials delegation) =
     LoadCredentials (en_sts en) (en_iam en) (en_parse_time en) (ca_now ca) (en_storage en) delegation"
| "handler en ca who QReportMetrics = ReportMetrics (None :: unit option)"
| "handler en ca who (QSubmitScanPlan ns t body) =
     SubmitScanPlan (en_uuid_of en) (ca_uuid ca) (to_us (ca_now ca)) ns t body"
| "handler en ca who (QGetScanPlan ns t i) = GetScanPlan (en_uuid_of en) ns t i"
| "handler en ca who (QCancelScanPlan ns t i) = CancelScanPlan (en_uuid_of en) ns t i"
| "handler en ca who (QFetchPlanTasks ns t body) = FetchPlanTasks (en_uuid_of en) ns t body"
| "handler en ca who (QRegisterTable ns body) = RegisterTable (ca_uuid ca) (now_ms ca) ns body"
| "handler en ca who (QListViews ns tok n) = ListViews (en_coll en) (ca_rows ca) ns tok n"
| "handler en ca who (QCreateView ns body) = CreateView (en_catalog en) (ca_uuid ca) (now_ms ca) ns body"
| "handler en ca who (QLoadView ns t) = LoadView ns t"
| "handler en ca who (QReplaceView ns t body) = ReplaceView (en_catalog en) (now_ms ca) ns t body"
| "handler en ca who (QDropView ns t) = DropView ns t"
| "handler en ca who (QViewExists ns t) = ViewExists ns t"
| "handler en ca who (QRenameTable body) = RenameTable body"
| "handler en ca who (QRenameView body) = RenameView body"
| "handler en ca who (QCommitTransaction body) = CommitTransaction (en_catalog en) body"
| "handler en ca who QListAPIKeys = ListAPIKeys (ca_rows ca) (en_uuid_text en) (en_fmt en) (ca_now ca) who"
| "handler en ca who (QCreateAPIKey body) =
     CreateAPIKey (en_hash en) (en_uuid_of en) (en_fmt en) (ca_random ca) (ca_uuid ca) (ca_now ca) who body"
| "handler en ca who (QRotateAPIKey i) =
     RotateAPIKey (en_hash en) (en_uuid_of en) (en_fmt en) (ca_random ca) (ca_now ca) who i"
| "handler en ca who (QDeleteAPIKey i) = DeleteAPIKey (en_uuid_of en) who i"

definition serve :: "env \<Rightarrow> call \<Rightarrow> request \<Rightarrow> outcome prog" where
  "serve en ca req =
     guarded (en_auth en) (en_hash en) (en_uuid_text en) (ca_now ca) (ca_method ca) (ca_path ca) (ca_header ca)
       (\<lambda>who. handler en ca who req)"

section \<open>Every request is answered\<close>

text \<open>What the decoding of JSON, \<open>uuid.New\<close> and the clock guarantee.\<close>

definition request_ok :: "request \<Rightarrow> bool" where
  "request_ok req =
     (case req of
        QCreateTable ns (Some r) \<Rightarrow> create_req_ok r
      | QCreateView ns (Some r) \<Rightarrow> create_view_req_ok r
      | _ \<Rightarrow> True)"

definition call_ok :: "call \<Rightarrow> bool" where
  "call_ok ca \<longleftrightarrow> in_int64 (now_ms ca) \<and> 8 \<le> length (ca_uuid ca)"

lemma safe_LoadCredentials: "safe I answered (LoadCredentials sts iam pt now sto delegation)"
  by (auto simp: LoadCredentials_def Let_def split: sum.splits intro!: safe_Done safe_apiError)

lemma safe_ReportMetrics: "safe I answered (ReportMetrics body)"
  by (simp add: ReportMetrics_def safe_Done_iff)

lemma safe_handler:
  assumes "call_ok ca" "request_ok req"
  shows "safe catalog_ok answered (handler en ca who req)"
  using assms
  by (cases req)
    (auto simp: call_ok_def request_ok_def safe_LoadCredentials safe_ReportMetrics split: option.splits
      intro!: namespace_handlers_safe table_handlers_safe view_handlers_safe scan_handlers_safe key_handlers_safe
        safe_CommitTransaction)

lemma safe_unauthorizedError: "safe I answered (unauthorizedError msg)"
  by (simp add: unauthorizedError_def safe_apiError)

lemma safe_forbiddenError: "safe I answered (forbiddenError msg)"
  by (simp add: forbiddenError_def safe_apiError)

lemma safe_Authz: "safe I answered inner \<Longrightarrow> safe I answered (Authz cfg required path who inner)"
  by (auto simp: Authz_def checkPermission_def Let_def safe_forbiddenError split: option.splits
      intro!: safe_query)

lemma safe_Auth:
  assumes "\<And>who. safe catalog_ok answered (inner who)"
  shows "safe catalog_ok answered (Auth cfg H ut now path header inner)"
proof -
  have f: "safe catalog_ok answered (case r of Inl err \<Rightarrow> unauthorizedError err | Inr who \<Rightarrow> inner (Some who))" for r
    using assms by (auto simp: safe_unauthorizedError split: sum.splits)
  show ?thesis
    using assms f unfolding Auth_def Let_def
    by (auto simp: safe_unauthorizedError split: option.splits prod.splits
        intro!: safe_validateBearerToken safe_validateAPIKey)
qed

lemma safe_serve: "call_ok ca \<Longrightarrow> request_ok req \<Longrightarrow> safe catalog_ok answered (serve en ca req)"
  unfolding serve_def guarded_def Let_def
  by (auto intro!: safe_Auth safe_Authz safe_handler)

text \<open>The requests in flight.\<close>

definition serve_all :: "env \<Rightarrow> (call \<times> request) list \<Rightarrow> outcome prog list" where
  "serve_all en rs = map (\<lambda>(ca, req). serve en ca req) rs"

definition requests_ok :: "(call \<times> request) list \<Rightarrow> bool" where
  "requests_ok rs = list_all (\<lambda>(ca, req). call_ok ca \<and> request_ok req) rs"

lemma safe_serve_all: "requests_ok rs \<Longrightarrow> list_all (safe catalog_ok answered) (serve_all en rs)"
  by (auto simp: requests_ok_def serve_all_def list_all_iff intro!: safe_serve)

text \<open>C3: any number of requests to any routes, their statements interleaved in any way and failing at any
  point: the catalog stays consistent (the constraints of the database, and in every row of a table or view
  metadata with a UUID and a location), no handler panics, and every request that is done was answered with
  one of the status codes of the API.\<close>

theorem catalog_stays_consistent:
  assumes "catalog_ok d" "requests_ok rs" "creach (serve_all en rs, d) (ps, d')"
  shows "catalog_ok d' \<and> (\<forall>out. Done out \<in> set ps \<longrightarrow> answered out)"
proof -
  from safe_creach [OF assms(3) safe_serve_all [OF assms(2)] assms(1)]
  have "list_all (safe catalog_ok answered) ps" "catalog_ok d'" by simp_all
  then show ?thesis by (auto simp: list_all_iff safe_Done_iff)
qed

section \<open>A server to try them on\<close>

definition sample_env :: env where
  "sample_env = \<lparr>en_catalog = sample_cfg,
     en_auth = \<lparr>au_enabled = False, au_oauth2 = False, au_client_id = [], au_client_secret = [], au_api_key = False,
       au_acl = False, au_default = ''none'', au_token_expiry = 0, au_polaris = False\<rparr>,
     en_storage = \<lparr>sc_type = ''local'', sc_warehouse = ''w'', s3_endpoint = [], s3_region = [], s3_access_key = [],
       s3_secret_key = [], s3_path_style = False, s3_role = [], s3_external = [], s3_session = 0, gcs_project = [],
       gcs_file = [], gcs_account = [], gcs_lifetime = 0\<rparr>,
     en_broker = False, en_coll = (\<lambda>a b. True), en_hash = (\<lambda>s. s), en_uuid_of = (\<lambda>s. None),
     en_uuid_text = (\<lambda>n. []), en_fmt = (\<lambda>t. []), en_sts = (\<lambda>i. Inl []), en_iam = (\<lambda>i. Inl []),
     en_parse_time = (\<lambda>s. None)\<rparr>"

definition sample_call :: call where
  "sample_call = \<lparr>ca_method = ''GET'', ca_path = [], ca_header = [], ca_now = 0, ca_uuid = ''01234567'', ca_random = None,
     ca_rows = None, ca_visit = (\<lambda>m. m)\<rparr>"

lemma sample_requests_ok: "requests_ok [(sample_call, QGetNamespace ''a''), (sample_call, QDropTable ''a'' ''t'')]"
  by (simp add: requests_ok_def call_ok_def request_ok_def sample_call_def now_ms_def in_int64_def min_int64_def max_int64_def)

lemma serve_sample: "serve sample_env sample_call req = handler sample_env sample_call None req"
  by (simp add: serve_def guarded_def sample_env_def)

text \<open>The statements of handlers in an order given by their numbers, none of them failing.\<close>

fun sched :: "nat list \<Rightarrow> 'r prog list \<times> db \<Rightarrow> 'r prog list \<times> db" where
  "sched [] s = s"
| "sched (i # is) (ps, d) =
     (case ps ! i of
        Done r \<Rightarrow> sched is (ps, d)
      | Stmt f g \<Rightarrow> (case f d of (p', d') \<Rightarrow> sched is (ps[i := p'], d')))"

lemma creach_front: "creach s' s'' \<Longrightarrow> cstep s s' \<Longrightarrow> creach s s''"
  by (induction rule: creach.induct) (auto intro: creach.intros)

lemma sched_creach: "\<forall>i \<in> set is. i < length (fst s) \<Longrightarrow> creach s (sched is s)"
proof (induction "is" s rule: sched.induct)
  case (1 s)
  show ?case by (simp add: creach.start)
next
  case (2 i "is" ps d)
  show ?case
  proof (cases "ps ! i")
    case (Done r)
    with 2 show ?thesis by simp
  next
    case (Stmt f g)
    obtain p' d' where f: "f d = (p', d')" by fastforce
    have "cstep (ps, d) (ps[i := p'], d')" using 2(3) Stmt f by (auto intro!: cstep.intros pstep.ok)
    moreover have "creach (ps[i := p'], d') (sched is (ps[i := p'], d'))" using 2 Stmt f by simp
    ultimately show ?thesis using Stmt f by (auto intro: creach_front)
  qed
qed

theorem catalog_stays_consistent_witness:
  "catalog_ok (snd (sched [0, 1, 0, 1, 1] (serve_all sample_env [(sample_call, QGetNamespace ''a''), (sample_call, QDropTable ''a'' ''t'')], sample_db)))"
proof -
  let ?rs = "[(sample_call, QGetNamespace ''a''), (sample_call, QDropTable ''a'' ''t'')]"
  have "creach (serve_all sample_env ?rs, sample_db)
      (fst (sched [0, 1, 0, 1, 1] (serve_all sample_env ?rs, sample_db)), snd (sched [0, 1, 0, 1, 1] (serve_all sample_env ?rs, sample_db)))"
    using sched_creach [of "[0, 1, 0, 1, 1]" "(serve_all sample_env ?rs, sample_db)"] by (simp add: serve_all_def)
  from catalog_stays_consistent [OF sample_db_ok sample_requests_ok this] show ?thesis by simp
qed

section \<open>Races\<close>

lemma count_zero_free: "sql_count_items i d = 0 \<Longrightarrow> \<not> key_taken i name (d_tables d)"
  by (auto simp: sql_count_items_def key_taken_def list_ex_iff filter_empty_conv)

lemma deleted_ns_table:
  assumes "db_ok d" "sql_ns_id ns d = Some i"
  shows "sql_table ns name (sql_delete_ns i d) = None"
proof -
  have "ns_id n = i" if "n \<in> set (d_namespaces d)" "ns_name n = ns" for n
  proof -
    from assms(2) obtain m where "m \<in> set (d_namespaces d)" "ns_name m = ns" "ns_id m = i"
      by (auto simp: sql_ns_id_def sql_namespace_def dest!: find_SomeD)
    moreover have "distinct (map ns_name (d_namespaces d))" using assms(1) by (simp add: db_ok_def)
    ultimately show ?thesis using that by (metis distinct_map inj_onD)
  qed
  then have "\<not> in_ns ns (sql_delete_ns i d) r" for r
    by (auto simp: in_ns_def sql_delete_ns_def Let_def list_ex_iff drop_views_def drop_tables_def)
  then show ?thesis by (simp add: sql_table_def find_item_def find_None_iff)
qed

text \<open>C40: a table can be lost to the deletion of its namespace.  \<open>DeleteNamespace\<close> checks that the namespace is
  empty and deletes it in two statements; if a \<open>CreateTable\<close> runs between them, both requests succeed, with a
  204 and a 200, and the table is gone, deleted by \<open>ON DELETE CASCADE\<close>.\<close>

theorem delete_namespace_race:
  assumes "catalog_ok d" "sql_ns_id (parseNamespace p) d = Some i" "sql_count_items i d = 0"
    "ct_name req \<noteq> []" "ct_schema req = Some schema" "8 \<le> length uuid"
  shows "\<exists>resp effs effs' d'.
    creach ([DeleteNamespace b p, CreateTable cfg uuid now p (Some req)], d)
      ([Done (Resp 204 None, effs), Done (resp, effs')], d') \<and>
    status_of resp = Some 200 \<and> sql_table (parseNamespace p) (ct_name req) d' = None"
proof -
  define ns where "ns = parseNamespace p"
  define location where "location = (if ct_location req = []
      then trim_suffix ''/'' (cc_warehouse cfg) @ ''/'' @ join_with ''/'' ns @ ''/'' @ ct_name req else ct_location req)"
  define metadata where "metadata = new_table_metadata req schema uuid location now"
  obtain u8 where u8: "first8 uuid = Some u8" using assms(6) by (simp add: first8_def)
  define loc where "loc = metadata_location location 0 now u8"
  obtain d1 where d1: "sql_insert_table i (ct_name req) loc (encode (GObj metadata)) d = Inr d1"
    using count_zero_free [OF assms(3)] sql_ns_id_has [OF assms(2)] by (simp add: sql_insert_table_def)
  have ok1: "db_ok d1" using assms(1) d1 by (blast intro: db_ok_insert_table catalog_ok_db)
  have id1: "sql_ns_id ns d1 = Some i"
    using assms(2) d1 by (auto simp: ns_def sql_ns_id_def sql_namespace_def sql_insert_table_def split: if_splits)
  let ?ps = "[DeleteNamespace b p, CreateTable cfg uuid now p (Some req)]"
  have "\<exists>effs effs' resp. sched [0, 0, 1, 1, 0] (?ps, d) = ([Done (Resp 204 None, effs), Done (resp, effs')], sql_delete_ns i d1) \<and>
      status_of resp = Some 200"
    using assms(2-5) d1 u8
    by (simp add: DeleteNamespace_def CreateTable_def query_def exec_def Let_def ns_def [symmetric]
        location_def [symmetric] metadata_def [symmetric] loc_def [symmetric] load_response_def status_of_def
        del: encode.simps)
  moreover have "sql_table ns (ct_name req) (sql_delete_ns i d1) = None" by (rule deleted_ns_table [OF ok1 id1])
  moreover have "creach (?ps, d) (sched [0, 0, 1, 1, 0] (?ps, d))" by (rule sched_creach) simp
  ultimately show ?thesis unfolding ns_def by metis
qed

theorem delete_namespace_race_witness:
  "\<exists>resp effs effs' d'.
    creach ([DeleteNamespace False ''a'', CreateTable sample_cfg ''0a1b2c3d'' 1700 ''a'' (Some sample_create)],
        sample_db\<lparr>d_tables := []\<rparr>)
      ([Done (Resp 204 None, effs), Done (resp, effs')], d') \<and>
    status_of resp = Some 200 \<and> sql_table [''a''] (ct_name sample_create) d' = None"
proof -
  have ok: "catalog_ok (sample_db\<lparr>d_tables := []\<rparr>)"
    by (simp add: catalog_ok_def db_ok_def sample_db_def empty_db_def items_ok_def)
  have n: "ct_name sample_create \<noteq> []" by (simp add: sample_create_def)
  obtain s where s: "ct_schema sample_create = Some s" by (simp add: sample_create_def)
  have i: "sql_ns_id (parseNamespace ''a'') (sample_db\<lparr>d_tables := []\<rparr>) = Some 0"
    "sql_count_items 0 (sample_db\<lparr>d_tables := []\<rparr>) = 0"
    by (simp_all add: sample_names sql_ns_id_def sql_namespace_def sample_db_def empty_db_def sql_count_items_def)
  from delete_namespace_race [OF ok i n s, of "''0a1b2c3d''" False sample_cfg 1700] show ?thesis
    by (simp add: sample_names)
qed

lemma update_twice: "sql_update_ns_props p2 ns (sql_update_ns_props p1 ns d) = sql_update_ns_props p2 ns d"
  by (auto simp: sql_update_ns_props_def)

text \<open>Updates of a namespace can be lost.  \<open>UpdateNamespaceProperties\<close> reads the properties and writes them
  back in two statements: of two such requests that read before either writes, both are answered with a 200
  and the keys they updated, and the result is that of the second alone.\<close>

theorem namespace_update_lost:
  assumes "sql_namespace (parseNamespace p) d = Some row"
  shows "\<exists>body1 body2 d'.
    creach ([UpdateNamespaceProperties v1 p (Some r1), UpdateNamespaceProperties v2 p (Some r2)], d)
      ([Done (Resp 200 (Some (GObj body1)), []), Done (Resp 200 (Some (GObj body2)), [])], d') \<and>
    mget body1 ''updated'' = Some (name_val (snd (apply_updates (ns_props row) (v1 (un_updates r1))))) \<and>
    d' = snd (run (UpdateNamespaceProperties v2 p (Some r2)) d)"
proof -
  let ?ps = "[UpdateNamespaceProperties v1 p (Some r1), UpdateNamespaceProperties v2 p (Some r2)]"
  have "\<exists>body1 body2. sched [0, 1, 0, 1] (?ps, d) =
      ([Done (Resp 200 (Some (GObj body1)), []), Done (Resp 200 (Some (GObj body2)), [])],
       snd (run (UpdateNamespaceProperties v2 p (Some r2)) d)) \<and>
      mget body1 ''updated'' = Some (name_val (snd (apply_updates (ns_props row) (v1 (un_updates r1)))))"
    using assms by (simp add: UpdateNamespaceProperties_def query_def exec_def Let_def update_twice split: prod.splits)
  moreover have "creach (?ps, d) (sched [0, 1, 0, 1] (?ps, d))" by (rule sched_creach) simp
  ultimately show ?thesis by metis
qed

theorem namespace_update_lost_witness:
  "\<exists>body1 body2 d'.
    creach ([UpdateNamespaceProperties (\<lambda>m. m) ''a'' (Some \<lparr>un_removals = [], un_updates = [(''x'', ''1'')]\<rparr>),
        UpdateNamespaceProperties (\<lambda>m. m) ''a'' (Some \<lparr>un_removals = [], un_updates = [(''y'', ''2'')]\<rparr>)], sample_db)
      ([Done (Resp 200 (Some (GObj body1)), []), Done (Resp 200 (Some (GObj body2)), [])], d') \<and>
    map ns_props (d_namespaces d') = [[(''y'', ''2'')]]"
proof -
  have r: "sql_namespace (parseNamespace ''a'') sample_db = Some \<lparr>ns_id = 0, ns_name = [''a''], ns_props = []\<rparr>"
    by (simp add: sample_names sql_namespace_def sample_db_def empty_db_def)
  have "map ns_props (d_namespaces (snd (run (UpdateNamespaceProperties (\<lambda>m. m) ''a''
      (Some \<lparr>un_removals = [], un_updates = [(''y'', ''2'')]\<rparr>)) sample_db))) = [[(''y'', ''2'')]]"
    by (simp add: UpdateNamespaceProperties_def Let_def sample_names sql_namespace_def sample_db_def empty_db_def
        sql_update_ns_props_def mput_def)
  with namespace_update_lost [OF r, of "\<lambda>m. m" "\<lparr>un_removals = [], un_updates = [(''x'', ''1'')]\<rparr>"
      "\<lambda>m. m" "\<lparr>un_removals = [], un_updates = [(''y'', ''2'')]\<rparr>"] show ?thesis by metis
qed

text \<open>\<open>ReplaceView\<close> looks only at whether the body parses: requirements and updates have no effect.\<close>

lemma ReplaceView_ignores_request: "ReplaceView cfg now p v (Some r1) = ReplaceView cfg now p v (Some r2)"
  by (simp add: ReplaceView_def)

end
