(* ===== verification/Budget.thy ===== *)
theory Budget
  imports Catalog
begin

text \<open>
  How much work a request can be: the largest number of SQL statements, transactions and pauses between retries
  of each request, whatever the database holds and whatever fails.  With it the requests in flight together come
  to an end after a number of steps that is known in advance.
\<close>

section \<open>Programs of bounded length\<close>

primrec ends_within :: "nat \<Rightarrow> 'r prog \<Rightarrow> bool" where
  "ends_within 0 p \<longleftrightarrow> (\<exists>r. p = Done r)"
| "ends_within (Suc n) p \<longleftrightarrow>
     (case p of
        Done r \<Rightarrow> True
      | Stmt f g \<Rightarrow> (\<forall>d. ends_within n (fst (f d))) \<and> (\<forall>e. ends_within n (g e)))"

lemma ends_Done [simp]: "ends_within n (Done r)"
  by (cases n) simp_all

lemma ends_more: "ends_within n p \<Longrightarrow> n \<le> m \<Longrightarrow> ends_within m p"
proof (induction n arbitrary: p m)
  case (Suc n)
  then obtain k where m: "m = Suc k" "n \<le> k" by (cases m) auto
  with Suc show ?case by (auto split: prog.splits)
qed auto

lemma ends_Stmt:
  assumes "0 < n" "\<And>d. ends_within (n - 1) (fst (f d))" "\<And>e. ends_within (n - 1) (g e)"
  shows "ends_within n (Stmt f g)"
  using assms by (cases n) simp_all

lemma ends_query:
  "0 < n \<Longrightarrow> (\<And>x. ends_within (n - 1) (k x)) \<Longrightarrow> (\<And>e. ends_within (n - 1) (failed e)) \<Longrightarrow> ends_within n (query q failed k)"
  unfolding query_def by (rule ends_Stmt) auto

lemma ends_exec:
  "0 < n \<Longrightarrow> (\<And>x. ends_within (n - 1) (k x)) \<Longrightarrow> (\<And>e. ends_within (n - 1) (failed e)) \<Longrightarrow> ends_within n (exec s failed k)"
  unfolding exec_def by (rule ends_Stmt) (auto split: sum.split)

text \<open>A program takes no more steps than it has statements.\<close>

lemma ends_pstep: "pstep (p, d) (p', d') \<Longrightarrow> ends_within n p \<Longrightarrow> 0 < n \<and> ends_within (n - 1) p'"
  by (cases n) (auto elim!: pstep.cases split: prod.splits, metis fst_conv)

declare ends_within.simps [simp del]

text \<open>The loop of \<open>WithLock\<close>: one attempt, and a pause before each further one.\<close>

definition lock_steps :: "lock_config \<Rightarrow> nat" where
  "lock_steps cfg = 2 * nat (lc_max_retries cfg + 1) - 1"

lemma ends_attempts:
  assumes "\<And>e. \<exists>r. failed e = Done r" "\<And>x. \<exists>r. k x = Done r"
  shows "ends_within (if first then 2 * n - 1 else 2 * n) (attempts seen first n lastErr fn failed k)"
proof (induction n arbitrary: first lastErr)
  case 0
  from assms(1) [of "ErrLockTimeout lastErr"] show ?case by auto
next
  case (Suc n)
  have d: "ends_within m (failed e)" "ends_within m (k x)" for m e x using assms(1) [of e] assms(2) [of x] by auto
  let ?again = "\<lambda>e. if isLockTimeoutError e then attempts seen False n (Some e) fn failed k else failed (OtherError e)"
  have again: "ends_within (2 * n) (?again e)" for e using Suc [of False] d by simp
  have once: "ends_within (2 * n + 1) (executeWithLock seen fn ?again k)"
    unfolding executeWithLock_def by (rule ends_Stmt) (use again d in \<open>auto split: prod.split sum.split\<close>)
  then have "ends_within (2 * n + 2) (pause (\<lambda>e. failed (OtherError e)) (executeWithLock seen fn ?again k))"
    unfolding pause_def by (intro ends_Stmt) (auto simp: d)
  with once show ?case by (simp add: Let_def)
qed

lemma ends_WithLock:
  assumes "\<And>e. \<exists>r. failed e = Done r" "\<And>x. \<exists>r. k x = Done r"
  shows "ends_within (lock_steps cfg) (WithLock seen cfg fn failed k)"
  using ends_attempts [OF assms, of True "nat (lc_max_retries cfg + 1)"] by (simp add: WithLock_def lock_steps_def)

section \<open>The handlers\<close>

fun handler_steps :: "lock_config \<Rightarrow> request \<Rightarrow> nat" where
  "handler_steps cfg (QListNamespaces parent tok n) = 1"
| "handler_steps cfg (QCreateNamespace body) = 1"
| "handler_steps cfg (QGetNamespace ns) = 1"
| "handler_steps cfg (QNamespaceExists ns) = 1"
| "handler_steps cfg (QDeleteNamespace ns) = 3"
| "handler_steps cfg (QUpdateNamespaceProperties ns body) = 2"
| "handler_steps cfg (QListTables ns tok n) = 2"
| "handler_steps cfg (QCreateTable ns body) = 2"
| "handler_steps cfg (QLoadTable ns t) = 2"
| "handler_steps cfg (QCommitTable ns t body) = lock_steps cfg"
| "handler_steps cfg (QDropTable ns t) = 2"
| "handler_steps cfg (QTableExists ns t) = 1"
| "handler_steps cfg (QLoadCredentials delegation) = 0"
| "handler_steps cfg QReportMetrics = 0"
| "handler_steps cfg (QSubmitScanPlan ns t body) = 4"
| "handler_steps cfg (QGetScanPlan ns t i) = 2"
| "handler_steps cfg (QCancelScanPlan ns t i) = 2"
| "handler_steps cfg (QFetchPlanTasks ns t body) = 2"
| "handler_steps cfg (QRegisterTable ns body) = 2"
| "handler_steps cfg (QListViews ns tok n) = 2"
| "handler_steps cfg (QCreateView ns body) = 2"
| "handler_steps cfg (QLoadView ns t) = 2"
| "handler_steps cfg (QReplaceView ns t body) = lock_steps cfg"
| "handler_steps cfg (QDropView ns t) = 2"
| "handler_steps cfg (QViewExists ns t) = 1"
| "handler_steps cfg (QRenameTable body) = 3"
| "handler_steps cfg (QRenameView body) = 3"
| "handler_steps cfg (QCommitTransaction body) = lock_steps cfg"
| "handler_steps cfg QListAPIKeys = 1"
| "handler_steps cfg (QCreateAPIKey body) = 1"
| "handler_steps cfg (QRotateAPIKey i) = 2"
| "handler_steps cfg (QDeleteAPIKey i) = 1"

lemma ends_missing_or: "0 < n \<Longrightarrow> ends_within n (missing_or ns r)"
  by (simp add: missing_or_def ends_query)

lemma ends_apiError: "ends_within n (apiError code m t)" "ends_within n unauthorized"
  by (simp_all add: apiError_def unauthorized_def)

lemmas ends_rules = ends_query ends_exec ends_missing_or ends_apiError

lemma ends_namespaces:
  "ends_within 1 (ListNamespaces coll got parent tok n)" "ends_within 1 (CreateNamespace b cbody)"
  "ends_within 1 (GetNamespace p)" "ends_within 1 (NamespaceExists p)" "ends_within 3 (DeleteNamespace b p)"
  "ends_within 2 (UpdateNamespaceProperties visit p ubody)"
  by (auto simp: ListNamespaces_def GetNamespace_def NamespaceExists_def UpdateNamespaceProperties_def DeleteNamespace_def
      CreateNamespace_def Let_def split: option.splits prod.splits intro!: ends_rules)

lemma ends_tables:
  "ends_within 2 (ListTables coll got p tok n)" "ends_within 2 (LoadTable p t)" "ends_within 1 (TableExists p t)"
  "ends_within 2 (DropTable p t)" "ends_within 3 (RenameTable rbody)"
  by (auto simp: ListTables_def LoadTable_def TableExists_def DropTable_def RenameTable_def Let_def
      split: option.splits prod.splits intro!: ends_rules)

lemma ends_new_items:
  "ends_within 2 (CreateTable cfg uuid now p body)" "ends_within 2 (RegisterTable uuid now p rbody)"
  "ends_within 2 (CreateView cfg uuid now p vbody)"
  by (auto simp: CreateTable_def RegisterTable_def CreateView_def load_response_def Let_def simp del: encode.simps
      split: option.splits intro!: ends_rules)

lemma ends_views:
  "ends_within 2 (ListViews coll got p tok n)" "ends_within 2 (LoadView p t)" "ends_within 1 (ViewExists p t)"
  "ends_within 2 (DropView p t)" "ends_within 3 (RenameView rbody)"
  by (auto simp: ListViews_def LoadView_def ViewExists_def DropView_def RenameView_def Let_def
      split: option.splits prod.splits intro!: ends_rules)

lemma ends_commits:
  "ends_within (lock_steps (cc_lock cfg)) (CommitTable cfg now p t body)"
  "ends_within (lock_steps (cc_lock cfg)) (ReplaceView cfg now p t vbody)"
  "ends_within (lock_steps (cc_lock cfg)) (CommitTransaction cfg tbody)"
  by (auto simp: CommitTable_def ReplaceView_def CommitTransaction_def Let_def
      split: option.split lock_error.split commit_result.split sum.split intro!: ends_WithLock)

lemma ends_scans:
  "ends_within 4 (SubmitScanPlan u planID now p t body)" "ends_within 2 (GetScanPlan u p t i)"
  "ends_within 2 (CancelScanPlan u p t i)" "ends_within 2 (FetchPlanTasks u p t fbody)"
  by (auto simp: SubmitScanPlan_def GetScanPlan_def CancelScanPlan_def FetchPlanTasks_def Let_def with_uuid_Inr
      simp del: encode.simps split: option.splits intro!: ends_rules)

lemma ends_keys:
  "ends_within 1 (ListAPIKeys got ut fmt now who)" "ends_within 1 (CreateAPIKey H u fmt random uuid now who body)"
  "ends_within 2 (RotateAPIKey H u fmt random now who keyID)" "ends_within 1 (DeleteAPIKey u who keyID)"
  by (auto simp: ListAPIKeys_def CreateAPIKey_def RotateAPIKey_def DeleteAPIKey_def Let_def with_uuid_Inr
      split: option.splits intro!: ends_rules)

lemma ends_others:
  "ends_within 0 (LoadCredentials sts iam pt now sto delegation)" "ends_within 0 (ReportMetrics mbody)"
  by (auto simp: LoadCredentials_def ReportMetrics_def ends_apiError Let_def split: sum.splits)

lemma ends_handler: "ends_within (handler_steps (cc_lock (en_catalog en)) req) (handler en ca who req)"
  by (cases req)
    (simp_all add: ends_namespaces ends_tables ends_new_items ends_views ends_commits ends_scans ends_keys ends_others
      del: One_nat_def)

text \<open>The middleware: at most three statements find a credential and record its use, at most three decide on a namespace.\<close>

lemma ends_checkPermission:
  assumes "\<And>b. ends_within n (k b)" "ends_within n f"
  shows "ends_within (n + 3) (checkPermission who ns required f k)"
  by (auto simp: checkPermission_def Let_def intro!: ends_query ends_more [OF assms(1)] ends_more [OF assms(2)])

lemma ends_Authz:
  assumes "ends_within n inner"
  shows "ends_within (n + 3) (Authz cfg required path who inner)"
  using ends_more [OF assms, of "n + 3"]
  by (auto simp: Authz_def forbiddenError_def Let_def ends_apiError assms split: option.split intro!: ends_checkPermission)

lemma ends_validate:
  assumes "\<And>x. ends_within n (k x)"
  shows "ends_within (n + 3) (validateBearerToken H now token k)" "ends_within (n + 3) (validateAPIKey H ut now token k)"
  by (auto simp: validateBearerToken_def validateAPIKey_def accept_key_def Let_def split: option.split
      intro!: ends_query ends_exec ends_more [OF assms])

definition request_steps :: "env \<Rightarrow> request \<Rightarrow> nat" where
  "request_steps en req =
     handler_steps (cc_lock (en_catalog en)) req +
     (if au_enabled (en_auth en) then 3 else 0) + (if au_acl (en_auth en) then 3 else 0)"

lemma ends_Auth:
  assumes "\<And>who. ends_within n (inner who)"
  shows "ends_within (n + 3) (Auth cfg H uuid_text now path header inner)"
proof -
  have f: "ends_within n (case x of Inl err \<Rightarrow> unauthorizedError err | Inr who \<Rightarrow> inner (Some who))" for x
    by (simp add: assms unauthorizedError_def ends_apiError split: sum.split)
  show ?thesis
    using ends_validate [OF f] ends_more [OF assms, of "n + 3"]
    by (auto simp: Auth_def unauthorizedError_def ends_apiError Let_def split: option.split)
qed

lemma ends_serve: "ends_within (request_steps en req) (serve en ca req)"
proof -
  define a where "a = handler_steps (cc_lock (en_catalog en)) req + (if au_acl (en_auth en) then 3 else 0)"
  define inner where "inner = (\<lambda>who. if au_acl (en_auth en)
    then Authz (en_auth en) (required_permission (ca_method ca)) (ca_path ca) who (handler en ca who req) else handler en ca who req)"
  have i: "ends_within a (inner who)" for who using ends_Authz [OF ends_handler] ends_handler by (simp add: inner_def a_def)
  have "serve en ca req = (if au_enabled (en_auth en)
      then Auth (en_auth en) (en_hash en) (en_uuid_text en) (ca_now ca) (ca_path ca) (ca_header ca) inner else inner None)"
    by (simp add: serve_def guarded_def Let_def inner_def)
  moreover have "request_steps en req = a + (if au_enabled (en_auth en) then 3 else 0)"
    by (simp add: request_steps_def a_def)
  ultimately show ?thesis using i ends_Auth [where inner = inner, OF i] by simp
qed

section \<open>Requests in flight\<close>

text \<open>Steps of the requests in flight use up what their programs may still take.\<close>

lemma cstep_budget:
  assumes "cstep (ps, d) (ps', d')" "length ns = length ps" "\<forall>i < length ps. ends_within (ns ! i) (ps ! i)"
  shows "\<exists>ns'. length ns' = length ps' \<and> (\<forall>i < length ps'. ends_within (ns' ! i) (ps' ! i)) \<and> sum_list ns' < sum_list ns"
  using assms(1)
proof cases
  case (1 i p')
  with assms(2,3) have e: "0 < ns ! i" "ends_within (ns ! i - 1) p'" using ends_pstep by blast+
  have "sum_list (ns[i := ns ! i - 1]) < sum_list ns"
    using e(1) 1(2) assms(2) elem_le_sum_list [of i ns] by (simp add: sum_list_update)
  then show ?thesis using 1 e assms(2,3)
    by (intro exI [of _ "ns[i := ns ! i - 1]"]) (auto simp: nth_list_update)
qed

lemma relpow_budget:
  assumes "(cstep ^^ n) (ps, d) (ps', d')" "length ns = length ps" "\<forall>i < length ps. ends_within (ns ! i) (ps ! i)"
  shows "n \<le> sum_list ns"
  using assms
proof (induction n arbitrary: ps d ns)
  case (Suc n)
  from Suc.prems(1) obtain s where "cstep (ps, d) s" "(cstep ^^ n) s (ps', d')" by (blast dest: relpowp_Suc_D2)
  moreover obtain ps1 d1 where "s = (ps1, d1)" by (cases s)
  ultimately have s: "cstep (ps, d) (ps1, d1)" "(cstep ^^ n) (ps1, d1) (ps', d')" by simp_all
  from cstep_budget [OF s(1) Suc.prems(2,3)] obtain ns' where
    "length ns' = length ps1" "\<forall>i < length ps1. ends_within (ns' ! i) (ps1 ! i)" "sum_list ns' < sum_list ns" by blast
  with Suc.IH [OF s(2)] show ?case by fastforce
qed simp

text \<open>C7: how long requests can take.  However the requests in flight are scheduled and whatever fails, they end after a number
  of steps that is known in advance, the sum of what each may take: a request to list, load, create, drop or
  rename one to three statements, a commit to tables or the replacement of a view at most \<open>MaxRetries + 1\<close>
  transactions and a pause before each but the first, a scan plan four statements; and three more each where
  authentication and the access control lists are enabled.\<close>

theorem requests_take_bounded_steps:
  assumes "(cstep ^^ n) (serve_all en rs, d) s"
  shows "n \<le> (\<Sum>(ca, req) \<leftarrow> rs. request_steps en req)"
proof -
  let ?ns = "map (\<lambda>(ca, req). request_steps en req) rs"
  have "\<forall>i < length (serve_all en rs). ends_within (?ns ! i) (serve_all en rs ! i)"
    by (auto simp: serve_all_def ends_serve split: prod.split)
  moreover obtain ps d' where "s = (ps, d')" by (cases s)
  ultimately show ?thesis using relpow_budget [of n "serve_all en rs" d ps d' ?ns] assms by (simp add: serve_all_def)
qed

text \<open>A request for a namespace is done after its one statement.\<close>

theorem requests_take_bounded_steps_witness:
  "\<exists>s. (cstep ^^ 1) (serve_all sample_env [(sample_call, QGetNamespace ''a'')], sample_db) s \<and>
    1 \<le> (\<Sum>(ca, req) \<leftarrow> [(sample_call, QGetNamespace ''a'')]. request_steps sample_env req) \<and> \<not> (\<exists>s'. cstep s s')"
proof -
  let ?rs = "[(sample_call, QGetNamespace ''a'')]"
  let ?s0 = "(serve_all sample_env ?rs, sample_db)"
  have "serve_all sample_env ?rs = [GetNamespace ''a'']" by (simp add: serve_all_def serve_sample)
  then obtain f g where p: "serve_all sample_env ?rs = [Stmt f g]" by (simp add: GetNamespace_def query_def Let_def)
  obtain q d' where "f sample_db = (q, d')" by (cases "f sample_db")
  then have "cstep ?s0 ([Stmt f g][0 := q], d')" unfolding p by (intro cstep.intros) (simp_all add: pstep.ok)
  then obtain s where s: "cstep ?s0 s" ..
  then have "(cstep ^^ 1) ?s0 s" by (simp add: eq_OO)
  moreover from requests_take_bounded_steps [OF this]
  have "1 \<le> (\<Sum>(ca, req) \<leftarrow> ?rs. request_steps sample_env req)" .
  moreover have "\<not> cstep s s'" for s'
  proof
    assume "cstep s s'"
    with s have "(cstep ^^ 2) ?s0 s'" by (auto simp: numeral_2_eq_2)
    from requests_take_bounded_steps [OF this] show False by (simp add: request_steps_def sample_env_def)
  qed
  ultimately show ?thesis by blast
qed

end
