(* ===== verification/RowLocks.thy ===== *)
theory RowLocks
  imports Catalog
begin

text \<open>
  The transactions of \<open>WithLock\<close> taken apart into their statements: \<open>internal/db/lock.go\<close> with the functions that
  \<open>CommitTable\<close>, \<open>ReplaceView\<close> and \<open>CommitTransaction\<close> give to it.  \<open>SELECT ... FOR UPDATE\<close> and \<open>UPDATE\<close> lock their
  rows until the transaction ends; a statement of another request that would change or lock one of them waits, and
  sees nothing of what the transaction has written before it commits (\<open>READ COMMITTED\<close>, the default of PostgreSQL).
  \<open>lstep\<close> is the system in which transactions are interleaved like that.  The theory shows the bodies to be, run
  alone, the functions of the handlers' models, and what a transaction has read and locked to stay true until it
  commits.  (Foreign keys make some insertions wait too, which only takes interleavings away.)
\<close>

section \<open>The statements of a transaction\<close>

text \<open>
  One constructor per statement, with what follows it; \<open>Finish\<close> is the return of the function: an error rolls the
  transaction back, otherwise it commits.
\<close>

datatype 'a txn =
    Finish "sql_error + 'a"
  | NsId "string list" "nat option \<Rightarrow> 'a txn"
  | NsExists "string list" "bool \<Rightarrow> 'a txn"
  | LockTable "string list" string "item_row option \<Rightarrow> 'a txn"
  | LockTableIn nat string "item_row option \<Rightarrow> 'a txn"
  | LockView "string list" string "item_row option \<Rightarrow> 'a txn"
  | UpdateTable nat string json string "'a txn"
  | LogCommit nat string "'a txn"
  | UpdateView nat string json "'a txn"

text \<open>A transaction alone.\<close>

primrec run_txn :: "'a txn \<Rightarrow> db \<Rightarrow> (sql_error + 'a) \<times> db" where
  "run_txn (Finish x) = (\<lambda>d. (x, d))"
| "run_txn (NsId ns k) = (\<lambda>d. run_txn (k (sql_ns_id ns d)) d)"
| "run_txn (NsExists ns k) = (\<lambda>d. run_txn (k (sql_ns_exists ns d)) d)"
| "run_txn (LockTable ns t k) = (\<lambda>d. run_txn (k (sql_table ns t d)) d)"
| "run_txn (LockTableIn i t k) = (\<lambda>d. run_txn (k (find_key i t (d_tables d))) d)"
| "run_txn (LockView ns t k) = (\<lambda>d. run_txn (k (sql_view ns t d)) d)"
| "run_txn (UpdateTable i loc meta prev t) = (\<lambda>d. run_txn t (sql_update_table i loc meta prev d))"
| "run_txn (LogCommit i loc t) = (\<lambda>d. run_txn t (sql_log_commit i loc d))"
| "run_txn (UpdateView i loc meta t) = (\<lambda>d. run_txn t (sql_update_view i loc meta d))"

text \<open>The three bodies.\<close>

definition commit_body :: "commit_table_req \<Rightarrow> int \<Rightarrow> item_row \<Rightarrow> commit_result txn" where
  "commit_body req now row =
     (case load_meta (it_meta row) of
        None \<Rightarrow> Finish (Inl \<lparr>sqe_code = [], sqe_text = ''failed to get table: '' @ scan_error\<rparr>)
      | Some metadata \<Rightarrow>
     (case List.find (\<lambda>r. \<not> validateRequirement metadata r) (cm_requirements req) of
        Some r \<Rightarrow> Finish (Inr (CommitErr (''requirement_failed:'' @ rq_type r)))
      | None \<Rightarrow>
     (case updated_metadata (cm_updates req) metadata of
        Inl err \<Rightarrow> Finish (Inr err)
      | Inr m1 \<Rightarrow>
          let m2 = mput m1 ''last-updated-ms'' (GInt64 now) in
     (case getStringFromMap m2 ''table-uuid'' of
        None \<Rightarrow> Finish (Inl \<lparr>sqe_code = [], sqe_text = ''invalid metadata: missing table-uuid''\<rparr>)
      | Some tableUUID \<Rightarrow>
     (case getStringFromMap m2 ''location'' of
        None \<Rightarrow> Finish (Inl \<lparr>sqe_code = [], sqe_text = ''invalid metadata: missing location''\<rparr>)
      | Some location \<Rightarrow>
     (case first8 tableUUID of
        None \<Rightarrow> Finish (Inr (CommitPanic slice_panic))
      | Some u8 \<Rightarrow>
          let newLocation = metadata_location location (getMetadataVersion (it_loc row) + 1) now u8
          in UpdateTable (it_id row) newLocation (encode (GObj m2)) (it_loc row)
               (LogCommit (it_id row) newLocation (Finish (Inr (Committed newLocation m2))))))))))"

definition commit_txn :: "string list \<Rightarrow> string \<Rightarrow> commit_table_req \<Rightarrow> int \<Rightarrow> commit_result txn" where
  "commit_txn namespaceName tableName req now =
     LockTable namespaceName tableName (\<lambda>row. case row of
        None \<Rightarrow> NsExists namespaceName (\<lambda>x.
          Finish (Inr (CommitErr (if x then ''table_not_found'' else ''namespace_not_found''))))
      | Some row \<Rightarrow> commit_body req now row)"

definition replace_body :: "int \<Rightarrow> item_row \<Rightarrow> commit_result txn" where
  "replace_body now row =
     (case load_meta (it_meta row) of
        None \<Rightarrow> Finish (Inl \<lparr>sqe_code = [], sqe_text = ''failed to get view: '' @ scan_error\<rparr>)
      | Some metadata \<Rightarrow>
     (case getStringFromMap metadata ''view-uuid'' of
        None \<Rightarrow> Finish (Inl \<lparr>sqe_code = [], sqe_text = ''invalid metadata: missing view-uuid''\<rparr>)
      | Some viewUUID \<Rightarrow>
     (case getStringFromMap metadata ''location'' of
        None \<Rightarrow> Finish (Inl \<lparr>sqe_code = [], sqe_text = ''invalid metadata: missing location''\<rparr>)
      | Some location \<Rightarrow>
     (case first8 viewUUID of
        None \<Rightarrow> Finish (Inr (CommitPanic slice_panic))
      | Some u8 \<Rightarrow>
          let newLocation = metadata_location location (getMetadataVersion (it_loc row) + 1) now u8
          in UpdateView (it_id row) newLocation (encode (GObj metadata))
               (Finish (Inr (Committed newLocation metadata)))))))"

definition replace_txn :: "string list \<Rightarrow> string \<Rightarrow> int \<Rightarrow> commit_result txn" where
  "replace_txn namespaceName viewName now =
     LockView namespaceName viewName (\<lambda>row. case row of
        None \<Rightarrow> NsExists namespaceName (\<lambda>x.
          Finish (Inr (CommitErr (if x then ''view_not_found'' else ''namespace_not_found''))))
      | Some row \<Rightarrow> replace_body now row)"

text \<open>\<open>commitTableInTx\<close> for one change after the other; \<open>acc\<close> are the results so far, the last one first.\<close>

primrec changes_txn :: "table_change list \<Rightarrow> commit_result_row list \<Rightarrow> (fiber_error + commit_result_row list) txn" where
  "changes_txn [] acc = Finish (Inr (Inr (rev acc)))"
| "changes_txn (change # changes) acc =
     (let ns = id_namespace (tc_identifier change); name = id_name (tc_identifier change) in
      NsId ns (\<lambda>i. case i of
        None \<Rightarrow> Finish (Inr (Inl (404, ''Namespace does not exist: '' @ dotted ns)))
      | Some namespaceID \<Rightarrow>
          LockTableIn namespaceID name (\<lambda>r. case r of
            None \<Rightarrow> Finish (Inr (Inl (404, ''Table does not exist: '' @ dotted ns @ ''.'' @ name)))
          | Some row \<Rightarrow>
         (case load_meta (it_meta row) of
            None \<Rightarrow> Finish (Inr (Inl (500, ''failed to get table: '' @ scan_error)))
          | Some metadata \<Rightarrow>
         (case List.find (\<lambda>r. \<not> validateRequirement metadata r) (tc_requirements change) of
            Some r \<Rightarrow> Finish (Inr (Inl (409, ''Requirement failed for table '' @ dotted ns @ ''.'' @ name @ '': '' @ rq_type r)))
          | None \<Rightarrow> changes_txn changes
              (\<lparr>cr_identifier = tc_identifier change, cr_location = it_loc row, cr_metadata = metadata\<rparr> # acc))))))"

text \<open>Alone they are the functions of the handlers.\<close>

lemma run_commit_txn: "run_txn (commit_txn ns t req now) d = commit_tx ns t req now d"
  by (simp add: commit_txn_def commit_tx_def commit_body_def commit_row_def Let_def del: encode.simps split: option.split sum.split)

lemma run_replace_txn: "run_txn (replace_txn ns t now) d = replace_tx ns t now d"
  by (simp add: replace_txn_def replace_tx_def replace_body_def Let_def del: encode.simps split: option.split)

lemma run_changes_txn:
  "run_txn (changes_txn cs acc) d =
     (case commit_changes cs d of (res, d') \<Rightarrow> (Inr (map_sum id (\<lambda>rs. rev acc @ rs) res), d'))"
proof (induction cs arbitrary: acc)
  case (Cons c cs)
  then show ?case
    by (simp add: Let_def commitTableInTx_def sum.map_comp comp_def split: option.split sum.split prod.split)
qed simp

section \<open>Interleaved transactions\<close>

datatype row_lock = TableRow nat | ViewRow nat

text \<open>The lock of the row that was found, if one was.\<close>

definition found_lock :: "(nat \<Rightarrow> row_lock) \<Rightarrow> item_row option \<Rightarrow> row_lock list" where
  "found_lock c r = (case r of None \<Rightarrow> [] | Some row \<Rightarrow> [c (it_id row)])"

text \<open>The next statement, on what the transaction sees: what is left to do, the locks it takes, and what it writes.\<close>

fun exec_stmt :: "'a txn \<Rightarrow> db \<Rightarrow> 'a txn \<times> row_lock list \<times> (db \<Rightarrow> db) list" where
  "exec_stmt (Finish x) d = (Finish x, [], [])"
| "exec_stmt (NsId ns k) d = (k (sql_ns_id ns d), [], [])"
| "exec_stmt (NsExists ns k) d = (k (sql_ns_exists ns d), [], [])"
| "exec_stmt (LockTable ns t k) d = (k (sql_table ns t d), found_lock TableRow (sql_table ns t d), [])"
| "exec_stmt (LockTableIn i t k) d =
     (k (find_key i t (d_tables d)), found_lock TableRow (find_key i t (d_tables d)), [])"
| "exec_stmt (LockView ns t k) d = (k (sql_view ns t d), found_lock ViewRow (sql_view ns t d), [])"
| "exec_stmt (UpdateTable i loc meta prev t) d = (t, [TableRow i], [sql_update_table i loc meta prev])"
| "exec_stmt (LogCommit i loc t) d = (t, [TableRow i], [sql_log_commit i loc])"
| "exec_stmt (UpdateView i loc meta t) d = (t, [ViewRow i], [sql_update_view i loc meta])"

text \<open>What a transaction has written is seen by itself only; the writes are in their order.\<close>

definition apply_writes :: "(db \<Rightarrow> db) list \<Rightarrow> db \<Rightarrow> db" where
  "apply_writes ws d = fold (\<lambda>w. w) ws d"

text \<open>
  A transaction on its way: how it started, what happens when its function returns an error or when it is aborted
  (a statement fails, a lock cannot be had in time, the server resolves a deadlock, the commit fails), what is left
  of it, its writes and its locks.
\<close>

record 'r tx =
  tx_start :: "'r prog txn"
  tx_failed :: "sql_error \<Rightarrow> 'r prog"
  tx_aborted :: "sql_error \<Rightarrow> 'r prog"
  tx_rest :: "'r prog txn"
  tx_writes :: "(db \<Rightarrow> db) list"
  tx_locks :: "row_lock set"

datatype 'r thread = Outside "'r prog" | Inside "'r tx"

definition locks_of :: "'r thread \<Rightarrow> row_lock set" where
  "locks_of th = (case th of Outside p \<Rightarrow> {} | Inside x \<Rightarrow> tx_locks x)"

definition locked_by_others :: "nat \<Rightarrow> 'r thread list \<Rightarrow> row_lock set" where
  "locked_by_others i ths = \<Union> {locks_of (ths ! j) | j. j < length ths \<and> j \<noteq> i}"

text \<open>A statement may run if it leaves the rows that others have locked as they are; otherwise it waits.\<close>

definition keeps_rows :: "row_lock set \<Rightarrow> db \<Rightarrow> db \<Rightarrow> bool" where
  "keeps_rows L d d' \<longleftrightarrow>
     (\<forall>r \<in> set (d_tables d). TableRow (it_id r) \<in> L \<longrightarrow> r \<in> set (d_tables d')) \<and>
     (\<forall>r \<in> set (d_views d). ViewRow (it_id r) \<in> L \<longrightarrow> r \<in> set (d_views d'))"

text \<open>The transaction as a single statement of the model of a handler, see \<open>executeWithLock\<close>.\<close>

definition tx_stmt :: "'r prog txn \<Rightarrow> (sql_error \<Rightarrow> 'r prog) \<Rightarrow> (sql_error \<Rightarrow> 'r prog) \<Rightarrow> 'r prog" where
  "tx_stmt t failed aborted =
     Stmt (\<lambda>d. case run_txn t d of (Inl e, d') \<Rightarrow> (failed e, d) | (Inr p, d') \<Rightarrow> (p, d')) aborted"

text \<open>
  The transactions of the code, each with what follows it and the answers it may give when it found no row:
  \<open>commit_answer\<close> and the other two are what the handlers do with the result.
\<close>

definition commit_answer :: "string list \<Rightarrow> string \<Rightarrow> commit_result \<Rightarrow> outcome prog" where
  "commit_answer ns tableName res =
     (let done = (\<lambda>resp. Done (resp, [Metric ''table_commit'' [dotted ns, tableName]])) in
      case res of
        Committed loc m \<Rightarrow> done (load_response loc m)
      | CommitErr errStr \<Rightarrow>
          (case commit_error_response ns tableName errStr of
             Some resp \<Rightarrow> reply resp
           | None \<Rightarrow> done (Resp 200 (Some (GObj [(''metadata-location'', GStr []), (''metadata'', GNil)]))))
      | CommitPanic p \<Rightarrow> Done (Crash p, []))"

definition replace_answer :: "string list \<Rightarrow> string \<Rightarrow> commit_result \<Rightarrow> outcome prog" where
  "replace_answer ns viewName res =
     (case res of
        Committed loc m \<Rightarrow> reply (load_response loc m)
      | CommitErr errStr \<Rightarrow>
          reply (if errStr = ''namespace_not_found'' then namespaceNotFound ns
                 else if errStr = ''view_not_found'' then viewNotFound ns viewName
                 else Resp 200 (Some (GObj [(''metadata-location'', GStr []), (''metadata'', GNil)])))
      | CommitPanic p \<Rightarrow> Done (Crash p, []))"

definition transaction_answer :: "fiber_error + commit_result_row list \<Rightarrow> outcome prog" where
  "transaction_answer res =
     (case res of
        Inl (code, message) \<Rightarrow> Done (errorHandler code message, [Metric ''transaction_commit'' [''failed'']])
      | Inr results \<Rightarrow>
          Done (Resp 200 (Some (GObj [(''commit-results'', GArr (map result_val results))])),
                [Metric ''transaction_commit'' [''success'']]))"

inductive code_txn :: "outcome prog txn \<Rightarrow> outcome prog set \<Rightarrow> bool" where
  commit: "code_txn (map_txn (commit_answer ns t) (commit_txn ns t req now))
     {reply (namespaceNotFound ns), reply (tableNotFound ns t)}"
| replace: "code_txn (map_txn (replace_answer ns v) (replace_txn ns v now))
     {reply (namespaceNotFound ns), reply (viewNotFound ns v)}"
| changes: "code_txn (map_txn transaction_answer (changes_txn cs []))
     {Done (errorHandler 404 m, [Metric ''transaction_commit'' [''failed'']]) |m. True}"

text \<open>
  How one thread goes on.  Outside a transaction its next statement runs; the locked statement of a handler begins its
  transaction (running it in one go is the case in which nothing comes between).
\<close>

inductive lmove :: "outcome thread list \<times> db \<Rightarrow> outcome thread list \<times> db \<Rightarrow> bool" where
  runs: "i < length ths \<Longrightarrow> ths ! i = Outside (Stmt f g) \<Longrightarrow> f d = (p, d') \<Longrightarrow>
    keeps_rows (locked_by_others i ths) d d' \<Longrightarrow> lmove (ths, d) (ths[i := Outside p], d')"
| begins: "i < length ths \<Longrightarrow> ths ! i = Outside (tx_stmt t failed aborted) \<Longrightarrow> code_txn t M \<Longrightarrow>
    lmove (ths, d) (ths[i := Inside \<lparr>tx_start = t, tx_failed = failed, tx_aborted = aborted, tx_rest = t,
      tx_writes = [], tx_locks = {}\<rparr>], d)"
| executes: "i < length ths \<Longrightarrow> ths ! i = Inside x \<Longrightarrow> (\<forall>y. tx_rest x \<noteq> Finish y) \<Longrightarrow>
    exec_stmt (tx_rest x) (apply_writes (tx_writes x) d) = (t, ls, ws) \<Longrightarrow> set ls \<inter> locked_by_others i ths = {} \<Longrightarrow>
    lmove (ths, d) (ths[i := Inside (x\<lparr>tx_rest := t, tx_writes := tx_writes x @ ws, tx_locks := tx_locks x \<union> set ls\<rparr>)], d)"
| commits: "i < length ths \<Longrightarrow> ths ! i = Inside x \<Longrightarrow> tx_rest x = Finish (Inr p) \<Longrightarrow>
    lmove (ths, d) (ths[i := Outside p], apply_writes (tx_writes x) d)"
| rolls_back: "i < length ths \<Longrightarrow> ths ! i = Inside x \<Longrightarrow> tx_rest x = Finish (Inl e) \<Longrightarrow>
    lmove (ths, d) (ths[i := Outside (tx_failed x e)], d)"

text \<open>Or a statement fails, which ends a transaction.\<close>

inductive lstep :: "outcome thread list \<times> db \<Rightarrow> outcome thread list \<times> db \<Rightarrow> bool" where
  moves: "lmove s s' \<Longrightarrow> lstep s s'"
| fails: "i < length ths \<Longrightarrow> ths ! i = Outside (Stmt f g) \<Longrightarrow> lstep (ths, d) (ths[i := Outside (g e)], d)"
| aborts: "i < length ths \<Longrightarrow> ths ! i = Inside x \<Longrightarrow> lstep (ths, d) (ths[i := Outside (tx_aborted x e)], d)"

inductive lreach :: "outcome thread list \<times> db \<Rightarrow> outcome thread list \<times> db \<Rightarrow> bool" where
  start: "lreach s s"
| more: "lreach s s' \<Longrightarrow> lstep s' s'' \<Longrightarrow> lreach s s''"

text \<open>
  The system they refine: transactions are single steps, as in \<open>Http\<close>, but for one thing.  A transaction that found
  no row holds no lock, and the row may have come into being when it answers.
\<close>

inductive astep :: "outcome prog list \<times> db \<Rightarrow> outcome prog list \<times> db \<Rightarrow> bool" where
  exact: "cstep s s' \<Longrightarrow> astep s s'"
| missed: "i < length ps \<Longrightarrow> ps ! i = tx_stmt t failed aborted \<Longrightarrow> code_txn t M \<Longrightarrow> p \<in> M \<Longrightarrow> astep (ps, d) (ps[i := p], d)"

inductive areach :: "outcome prog list \<times> db \<Rightarrow> outcome prog list \<times> db \<Rightarrow> bool" where
  start: "areach s s"
| more: "areach s s' \<Longrightarrow> astep s' s'' \<Longrightarrow> areach s s''"

definition whole :: "outcome thread \<Rightarrow> outcome prog" where
  "whole th = (case th of Outside p \<Rightarrow> p | Inside x \<Rightarrow> tx_stmt (tx_start x) (tx_failed x) (tx_aborted x))"

text \<open>The locked statements of the handlers are transactions of the code.\<close>

lemma run_map_txn: "run_txn (map_txn k t) d = map_prod (map_sum id k) id (run_txn t d)"
  by (induction t arbitrary: d) (simp_all add: map_prod_def)

lemma executeWithLock_tx:
  assumes "\<And>d. run_txn t d = fn d"
  shows "executeWithLock seen fn failed k = tx_stmt (map_txn k t) failed (\<lambda>e. failed (seen e))"
  by (auto simp: executeWithLock_def tx_stmt_def run_map_txn assms fun_eq_iff split: sum.splits prod.splits)

lemma CommitTable_tx:
  "CommitTable cfg now param t (Some req) =
     WithLock (\<lambda>e. e) (cc_lock cfg) (run_txn (commit_txn (parseNamespace param) t req now))
       (\<lambda>e. case e of
          ErrLockTimeout _ \<Rightarrow> reply (commit_failed ''Failed to acquire lock: concurrent modification in progress'')
        | OtherError x \<Rightarrow> reply (internalError ''failed to commit table'' (sqe_text x)))
       (commit_answer (parseNamespace param) t)"
  by (simp add: CommitTable_def Let_def commit_answer_def [abs_def] run_commit_txn [abs_def])

lemma ReplaceView_tx:
  "ReplaceView cfg now param v (Some req) =
     WithLock (\<lambda>e. e) (cc_lock cfg) (run_txn (replace_txn (parseNamespace param) v now))
       (\<lambda>e. case e of
          ErrLockTimeout _ \<Rightarrow> reply (commit_failed ''Failed to acquire lock: concurrent modification in progress'')
        | OtherError x \<Rightarrow> reply (internalError ''failed to update view'' (sqe_text x)))
       (replace_answer (parseNamespace param) v)"
  by (simp add: ReplaceView_def Let_def replace_answer_def [abs_def] run_replace_txn [abs_def])

lemma CommitTransaction_tx:
  assumes "cs \<noteq> []"
  shows "CommitTransaction cfg (Some cs) =
     WithLock commit_rollback (cc_lock cfg) (run_txn (changes_txn cs []))
       (\<lambda>e. Done (case e of
          ErrLockTimeout _ \<Rightarrow> errorHandler 409 ''Failed to acquire lock: concurrent modification in progress''
        | OtherError x \<Rightarrow> errorHandler 500 (''failed to commit transaction: '' @ sqe_text x),
          [Metric ''transaction_commit'' [''failed'']]))
       transaction_answer"
proof -
  have "map_sum id (\<lambda>rs. rev [] @ rs) x = x" for x :: "fiber_error + commit_result_row list" by (cases x) simp_all
  then have "run_txn (changes_txn cs []) = (\<lambda>d. case commit_changes cs d of (res, d') \<Rightarrow> (Inr res, d'))"
    by (simp add: fun_eq_iff run_changes_txn)
  with assms show ?thesis by (simp add: CommitTransaction_def transaction_answer_def [abs_def])
qed

section \<open>What a transaction has found stays true\<close>

text \<open>Namespaces come and go, but none gets another name, and no id is used again.\<close>

definition keeps_names :: "db \<Rightarrow> db \<Rightarrow> bool" where
  "keeps_names d d' \<longleftrightarrow> d_next d \<le> d_next d' \<and>
     (\<forall>n' \<in> set (d_namespaces d'). ns_id n' < d_next d \<longrightarrow>
        (\<exists>n \<in> set (d_namespaces d). ns_id n = ns_id n' \<and> ns_name n = ns_name n'))"

lemma sql_ns_id_iff:
  assumes "db_ok d"
  shows "sql_ns_id ns d = Some i \<longleftrightarrow> (\<exists>n \<in> set (d_namespaces d). ns_id n = i \<and> ns_name n = ns)"
  using in_ns_iff [OF assms, of ns "undefined\<lparr>it_ns := i\<rparr>"] by (auto simp: in_ns_def list_ex_iff)

lemma find_key_iff:
  "distinct (map item_key_of xs) \<Longrightarrow> find_key i t xs = Some r \<longleftrightarrow> r \<in> set xs \<and> it_ns r = i \<and> it_name r = t"
proof (induction xs)
  case (Cons x xs)
  then have "item_key_of x \<notin> item_key_of ` set xs" by simp
  then have "y \<in> set xs \<Longrightarrow> it_ns y = it_ns x \<Longrightarrow> it_name y = it_name x \<Longrightarrow> False" for y
    by (metis imageI item_key_of_def)
  with Cons show ?case by (auto simp: find_key_Cons) blast
qed (simp add: find_key_def)

lemma sql_table_iff:
  assumes "db_ok d"
  shows "sql_table ns t d = Some r \<longleftrightarrow> r \<in> set (d_tables d) \<and> it_name r = t \<and> sql_ns_id ns d = Some (it_ns r)"
proof -
  have "distinct (map item_key_of (d_tables d))" using assms by (simp add: db_ok_def items_ok_def)
  then show ?thesis
    by (auto simp: sql_table_def find_item_key [OF assms] find_key_iff split: option.splits)
qed

lemma sql_view_iff:
  assumes "db_ok d"
  shows "sql_view ns t d = Some r \<longleftrightarrow> r \<in> set (d_views d) \<and> it_name r = t \<and> sql_ns_id ns d = Some (it_ns r)"
proof -
  have "distinct (map item_key_of (d_views d))" using assms by (simp add: db_ok_def items_ok_def)
  then show ?thesis
    by (auto simp: sql_view_def find_item_key [OF assms] find_key_iff split: option.splits)
qed

lemma namespace_stays:
  assumes "db_ok d" "db_ok d'" "keeps_names d d'" "sql_ns_id ns d = Some i" "i \<in> set (map ns_id (d_namespaces d'))"
  shows "sql_ns_id ns d' = Some i"
proof -
  from assms(4) obtain n where n: "n \<in> set (d_namespaces d)" "ns_id n = i" "ns_name n = ns"
    using sql_ns_id_iff [OF assms(1)] by blast
  from assms(5) obtain n' where n': "n' \<in> set (d_namespaces d')" "ns_id n' = i" by auto
  have "i < d_next d" using n assms(1) by (auto simp: db_ok_def list_all_iff)
  with assms(3) n' obtain m where m: "m \<in> set (d_namespaces d)" "ns_id m = i" "ns_name m = ns_name n'"
    unfolding keeps_names_def by blast
  have "inj_on ns_id (set (d_namespaces d))" using assms(1) by (simp add: db_ok_def distinct_map)
  from inj_onD [OF this, of m n] m(1,2) n(1,2) have "m = n" by simp
  with m n n' have "ns_name n' = ns" by simp
  with n' sql_ns_id_iff [OF assms(2)] show ?thesis by blast
qed

text \<open>A row that was found and is locked.\<close>

definition found_table :: "db \<Rightarrow> row_lock set \<Rightarrow> string list \<Rightarrow> string \<Rightarrow> item_row \<Rightarrow> bool" where
  "found_table d L ns t r \<longleftrightarrow> sql_table ns t d = Some r \<and> TableRow (it_id r) \<in> L"

definition found_view :: "db \<Rightarrow> row_lock set \<Rightarrow> string list \<Rightarrow> string \<Rightarrow> item_row \<Rightarrow> bool" where
  "found_view d L ns t r \<longleftrightarrow> sql_view ns t d = Some r \<and> ViewRow (it_id r) \<in> L"

lemma found_stays:
  assumes "db_ok d" "db_ok d'" "keeps_names d d'" "keeps_rows L d d'"
  shows "found_table d L ns t r \<Longrightarrow> found_table d' L ns t r" "found_view d L ns t r \<Longrightarrow> found_view d' L ns t r"
proof -
  have fk: "it_ns r \<in> set (map ns_id (d_namespaces d'))" if "r \<in> set (d_tables d') \<union> set (d_views d')"
    using that assms(2) by (auto simp: db_ok_def items_ok_def list_all_iff)
  show "found_table d' L ns t r" if "found_table d L ns t r"
    using that namespace_stays [OF assms(1-3)] fk assms(4)
    by (auto simp: found_table_def sql_table_iff assms(1,2) keeps_rows_def)
  show "found_view d' L ns t r" if "found_view d L ns t r"
    using that namespace_stays [OF assms(1-3)] fk assms(4)
    by (auto simp: found_view_def sql_view_iff assms(1,2) keeps_rows_def)
qed

text \<open>
  \<open>mid d L t0 t ws\<close>: \<open>t0\<close> has come to \<open>t\<close> with the writes \<open>ws\<close>, and everything it found is still so in \<open>d\<close>.
\<close>

inductive mid :: "db \<Rightarrow> row_lock set \<Rightarrow> 'a txn \<Rightarrow> 'a txn \<Rightarrow> (db \<Rightarrow> db) list \<Rightarrow> bool" for d L t0 where
  start: "mid d L t0 t0 []"
| table: "mid d L t0 (LockTable ns t k) [] \<Longrightarrow> found_table d L ns t r \<Longrightarrow> mid d L t0 (k (Some r)) []"
| view: "mid d L t0 (LockView ns t k) [] \<Longrightarrow> found_view d L ns t r \<Longrightarrow> mid d L t0 (k (Some r)) []"
| table_in: "mid d L t0 (NsId ns k) [] \<Longrightarrow> k (Some (it_ns r)) = LockTableIn (it_ns r) t k2 \<Longrightarrow> found_table d L ns t r \<Longrightarrow>
    mid d L t0 (k2 (Some r)) []"
| update: "mid d L t0 (UpdateTable i loc meta prev t) ws \<Longrightarrow> TableRow i \<in> L \<Longrightarrow>
    mid d L t0 t (ws @ [sql_update_table i loc meta prev])"
| log: "mid d L t0 (LogCommit i loc t) ws \<Longrightarrow> mid d L t0 t (ws @ [sql_log_commit i loc])"
| update_view: "mid d L t0 (UpdateView i loc meta t) ws \<Longrightarrow> ViewRow i \<in> L \<Longrightarrow>
    mid d L t0 t (ws @ [sql_update_view i loc meta])"

lemma apply_writes_simps [simp]: "apply_writes [] d = d" "apply_writes (ws @ [w]) d = w (apply_writes ws d)"
  by (simp_all add: apply_writes_def)

lemma mid_run:
  assumes "mid d L t0 t ws" "db_ok d"
  shows "run_txn t0 d = run_txn t (apply_writes ws d)"
  using assms(1)
proof induction
  case (table_in ns k r t k2)
  then have s: "sql_ns_id ns d = Some (it_ns r)" "r \<in> set (d_tables d)" "it_name r = t"
    by (simp_all add: found_table_def sql_table_iff assms(2))
  have "find_key (it_ns r) t (d_tables d) = Some r"
    using s assms(2) by (auto simp: find_key_iff db_ok_def items_ok_def)
  with table_in s show ?case by simp
qed (auto simp: found_table_def found_view_def)

lemma mid_stays:
  assumes "mid d L t0 t ws" "db_ok d" "db_ok d'" "keeps_names d d'" "keeps_rows L d d'"
  shows "mid d' L t0 t ws"
  using assms(1) by induction (auto intro: mid.intros found_stays [OF assms(2-5)])

lemma mid_more_locks:
  assumes "mid d L t0 t ws" "L \<subseteq> L'"
  shows "mid d L' t0 t ws"
proof -
  have "found_table d L ns u r \<Longrightarrow> found_table d L' ns u r" "found_view d L ns u r \<Longrightarrow> found_view d L' ns u r" for ns u r
    using assms(2) by (auto simp: found_table_def found_view_def)
  from assms(1) this show ?thesis by induction (use assms(2) in \<open>auto intro: mid.intros\<close>)
qed

lemma keeps_rows_refl [simp]: "keeps_rows L d d"
  by (simp add: keeps_rows_def)

lemma keeps_rows_trans: "keeps_rows L d d' \<Longrightarrow> keeps_rows L d' d'' \<Longrightarrow> keeps_rows L d d''"
  by (simp add: keeps_rows_def)

text \<open>A transaction writes to rows it has locked.\<close>

lemma mid_writes: "mid d L t0 t ws \<Longrightarrow> K \<inter> L = {} \<Longrightarrow> keeps_rows K d' (apply_writes ws d')"
proof (induction rule: mid.induct)
  case (update i loc meta prev t ws)
  then have "TableRow i \<notin> K" by auto
  then have "keeps_rows K x (sql_update_table i loc meta prev x)" for x
    by (auto simp: keeps_rows_def sql_update_table_def image_iff)
  with update show ?case by (auto intro: keeps_rows_trans)
next
  case (update_view i loc meta t ws)
  then have "ViewRow i \<notin> K" by auto
  then have "keeps_rows K x (sql_update_view i loc meta x)" for x
    by (auto simp: keeps_rows_def sql_update_view_def image_iff)
  with update_view show ?case by (auto intro: keeps_rows_trans)
next
  case (log i loc t ws)
  have "keeps_rows K x (sql_log_commit i loc x)" for x by (simp add: keeps_rows_def sql_log_commit_def)
  with log show ?case by (auto intro: keeps_rows_trans)
qed simp_all

section \<open>Bodies that lock what they rely on\<close>

text \<open>
  A body is careful if it looks rows up before it writes, relies on no row it has not locked, and once it found no row
  only reads and comes to an answer in \<open>M\<close>.
\<close>

inductive quiet :: "'a set \<Rightarrow> 'a txn \<Rightarrow> bool" for M where
  Finish: "y \<in> M \<Longrightarrow> quiet M (Finish (Inr y))"
| NsExists: "(\<And>x. quiet M (k x)) \<Longrightarrow> quiet M (NsExists ns k)"

inductive writing :: "'a txn \<Rightarrow> bool" where
  Finish: "writing (Finish x)"
| UpdateTable: "writing t \<Longrightarrow> writing (UpdateTable i loc meta prev t)"
| LogCommit: "writing t \<Longrightarrow> writing (LogCommit i loc t)"
| UpdateView: "writing t \<Longrightarrow> writing (UpdateView i loc meta t)"

inductive careful :: "'a set \<Rightarrow> 'a txn \<Rightarrow> bool" for M where
  writing: "writing t \<Longrightarrow> careful M t"
| LockTable: "quiet M (k None) \<Longrightarrow> (\<And>r. careful M (k (Some r))) \<Longrightarrow> careful M (LockTable ns t k)"
| LockView: "quiet M (k None) \<Longrightarrow> (\<And>r. careful M (k (Some r))) \<Longrightarrow> careful M (LockView ns t k)"
| NsId: "quiet M (k None) \<Longrightarrow> (\<And>i. k (Some i) = LockTableIn i t (k2 i)) \<Longrightarrow> (\<And>i. quiet M (k2 i None)) \<Longrightarrow>
    (\<And>i r. careful M (k2 i (Some r))) \<Longrightarrow> careful M (NsId ns k)"

inductive_cases quietE: "quiet M (Finish x)" "quiet M (NsExists ns k)" "quiet M (NsId ns k)" "quiet M (LockTable ns t k)"
  "quiet M (LockTableIn i t k)" "quiet M (LockView ns t k)" "quiet M (UpdateTable i loc meta prev t)"
  "quiet M (LogCommit i loc t)" "quiet M (UpdateView i loc meta t)"
inductive_cases writingE: "writing (NsExists ns k)" "writing (NsId ns k)" "writing (LockTable ns t k)"
  "writing (LockTableIn i t k)" "writing (LockView ns t k)" "writing (UpdateTable i loc meta prev t)"
  "writing (LogCommit i loc t)" "writing (UpdateView i loc meta t)"
inductive_cases carefulE: "careful M (NsExists ns k)" "careful M (NsId ns k)" "careful M (LockTable ns t k)"
  "careful M (LockTableIn i t k)" "careful M (LockView ns t k)" "careful M (UpdateTable i loc meta prev t)"
  "careful M (LogCommit i loc t)" "careful M (UpdateView i loc meta t)"

lemma careful_commit: "careful {CommitErr ''namespace_not_found'', CommitErr ''table_not_found''} (commit_txn ns t req now)"
proof -
  have "writing (commit_body req now row)" for row
    by (auto simp: commit_body_def Let_def simp del: encode.simps split: option.split sum.split intro!: writing.intros)
  then show ?thesis
    by (auto simp: commit_txn_def split: if_splits intro!: careful.LockTable quiet.intros intro: careful.writing)
qed

lemma careful_replace: "careful {CommitErr ''namespace_not_found'', CommitErr ''view_not_found''} (replace_txn ns v now)"
proof -
  have "writing (replace_body now row)" for row
    by (auto simp: replace_body_def Let_def simp del: encode.simps split: option.split intro!: writing.intros)
  then show ?thesis
    by (auto simp: replace_txn_def split: if_splits intro!: careful.LockView quiet.intros intro: careful.writing)
qed

lemma careful_changes:
  assumes "\<And>m. Inl (404, m) \<in> M"
  shows "careful M (changes_txn cs acc)"
proof (induction cs arbitrary: acc)
  case Nil
  show ?case by (simp add: careful.writing writing.Finish)
next
  case (Cons c cs)
  have f: "careful M (Finish x)" for x by (simp add: careful.writing writing.Finish)
  show ?case
    unfolding changes_txn.simps Let_def
    by (rule careful.NsId, simp_all only: option.case)
      (auto intro!: quiet.Finish assms f Cons.IH split: option.splits)
qed

lemma quiet_map: "quiet M t \<Longrightarrow> k ` M \<subseteq> M' \<Longrightarrow> quiet M' (map_txn k t)"
  by (induction rule: quiet.induct) (auto intro!: quiet.intros)

lemma writing_map: "writing t \<Longrightarrow> writing (map_txn k t)"
  by (induction rule: writing.induct) (auto intro!: writing.intros)

lemma careful_map: "careful M t \<Longrightarrow> k ` M \<subseteq> M' \<Longrightarrow> careful M' (map_txn k t)"
proof (induction rule: careful.induct)
  case (NsId k' t k2 ns)
  have m: "(map_txn k \<circ> k') (Some i) = LockTableIn i t (map_txn k \<circ> k2 i)" for i using NsId(2) by simp
  show ?case
    unfolding txn.map
    by (rule careful.NsId [OF _ m]) (use NsId in \<open>auto intro: quiet_map\<close>)
qed (auto intro: careful.writing writing_map intro!: careful.LockTable careful.LockView quiet_map)

lemma code_txn_careful: "code_txn t M \<Longrightarrow> careful M t"
proof (induction rule: code_txn.induct)
  case (commit ns t req now)
  show ?case
    by (rule careful_map [OF careful_commit]) (auto simp: commit_answer_def commit_error_response_def)
next
  case (replace ns v now)
  show ?case by (rule careful_map [OF careful_replace]) (auto simp: replace_answer_def)
next
  case (changes cs)
  show ?case by (rule careful_map [OF careful_changes [where M = "{Inl (404, m) |m. True}"]]) (auto simp: transaction_answer_def)
qed

text \<open>
  What is known of a transaction under way: what it found is so; or it has an id and has yet to lock the row; or it
  found no row and will not write.
\<close>

inductive knows :: "'a set \<Rightarrow> db \<Rightarrow> row_lock set \<Rightarrow> 'a txn \<Rightarrow> 'a txn \<Rightarrow> (db \<Rightarrow> db) list \<Rightarrow> bool" for M d L t0 where
  found: "mid d L t0 t ws \<Longrightarrow> ws = [] \<and> careful M t \<or> writing t \<Longrightarrow> knows M d L t0 t ws"
| looking: "mid d L t0 (NsId ns k) [] \<Longrightarrow> k (Some i) = LockTableIn i t k2 \<Longrightarrow> quiet M (k2 None) \<Longrightarrow>
    (\<And>r. careful M (k2 (Some r))) \<Longrightarrow> i < d_next d \<Longrightarrow> (\<forall>n \<in> set (d_namespaces d). ns_id n = i \<longrightarrow> ns_name n = ns) \<Longrightarrow>
    knows M d L t0 (LockTableIn i t k2) []"
| missed: "quiet M t \<Longrightarrow> knows M d L t0 t []"

lemma knows_start: "careful M t \<Longrightarrow> knows M d L t t []"
  by (auto intro: knows.found mid.start)

lemma knows_stays:
  assumes "knows M d L t0 t ws" "db_ok d" "db_ok d'" "keeps_names d d'" "keeps_rows L d d'"
  shows "knows M d' L t0 t ws"
  using assms(1)
proof cases
  case found
  with mid_stays [OF _ assms(2-5)] show ?thesis by (blast intro: knows.found)
next
  case (looking ns k i t k2)
  have "\<forall>n \<in> set (d_namespaces d'). ns_id n = i \<longrightarrow> ns_name n = ns" "i < d_next d'"
    using looking(7,8) assms(4) unfolding keeps_names_def by fastforce+
  with looking mid_stays [OF _ assms(2-5)] show ?thesis by (blast intro: knows.looking)
qed (simp add: knows.missed)

lemma knows_commit:
  assumes "knows M d L t0 (Finish (Inr p)) ws" "db_ok d"
  shows "run_txn t0 d = (Inr p, apply_writes ws d) \<or> p \<in> M \<and> ws = []"
  using assms(1) by cases (auto dest: mid_run [OF _ assms(2)] elim: quietE)

lemma knows_rollback:
  assumes "knows M d L t0 (Finish (Inl e)) ws" "db_ok d"
  shows "\<exists>d'. run_txn t0 d = (Inl e, d')"
  using assms(1) by cases (auto dest: mid_run [OF _ assms(2)] elim: quietE)

lemma knows_writes: "knows M d L t0 t ws \<Longrightarrow> K \<inter> L = {} \<Longrightarrow> keeps_rows K d' (apply_writes ws d')"
  by (erule knows.cases) (auto intro: mid_writes)

text \<open>The next statement of a transaction keeps this knowledge.\<close>

lemma sql_table_found: "sql_table ns t d = Some r \<Longrightarrow> found_table d (insert (TableRow (it_id r)) L) ns t r"
  by (simp add: found_table_def)

lemma sql_view_found: "sql_view ns t d = Some r \<Longrightarrow> found_view d (insert (ViewRow (it_id r)) L) ns t r"
  by (simp add: found_view_def)

lemma knows_found_exec:
  assumes "mid d L t0 t ws" "ws = [] \<and> careful M t \<or> writing t" "db_ok d"
    "exec_stmt t (apply_writes ws d) = (t', ls, vs)"
  shows "knows M d (L \<union> set ls) t0 t' (ws @ vs)"
proof -
  have m: "mid d (L \<union> set ls) t0 t ws" using mid_more_locks [OF assms(1)] by simp
  have w: "ws = []" "careful M t" if "\<not> writing t" using assms(2) that by simp_all
  show ?thesis
  proof (cases t)
    case (Finish x)
    with assms(2,4) m show ?thesis by (auto intro: knows.found writing.Finish)
  next
    case (NsId ns k)
    then have e: "ws = []" "careful M (NsId ns k)" using w by (auto elim: writingE)
    from e(2) obtain nm k2 where k: "quiet M (k None)" "\<And>i. k (Some i) = LockTableIn i nm (k2 i)"
        "\<And>i. quiet M (k2 i None)" "\<And>i r. careful M (k2 i (Some r))"
      by (rule carefulE(2)) (auto elim: writingE)
    show ?thesis
    proof (cases "sql_ns_id ns d")
      case None
      with assms(4) NsId e k(1) show ?thesis by (auto intro: knows.missed)
    next
      case (Some i)
      then obtain n where n: "n \<in> set (d_namespaces d)" "ns_id n = i" "ns_name n = ns"
        using sql_ns_id_iff [OF assms(3)] by blast
      have "inj_on ns_id (set (d_namespaces d))" using assms(3) by (simp add: db_ok_def distinct_map)
      with n have u: "\<forall>n' \<in> set (d_namespaces d). ns_id n' = i \<longrightarrow> ns_name n' = ns" by (auto dest: inj_onD)
      have i: "i < d_next d" using n assms(3) by (auto simp: db_ok_def list_all_iff)
      have "mid d (L \<union> set ls) t0 (NsId ns k) []" using m NsId e by simp
      from knows.looking [OF this k(2) k(3) k(4) i u] show ?thesis using assms(4) NsId e Some k(2) by auto
    qed
  next
    case (NsExists ns k)
    then show ?thesis using w by (auto elim: writingE carefulE)
  next
    case (LockTableIn i nm k)
    then show ?thesis using w by (auto elim: writingE carefulE)
  next
    case (LockTable ns nm k)
    then have e: "ws = []" "careful M (LockTable ns nm k)" using w by (auto elim: writingE)
    then have q: "quiet M (k None)" "careful M (k (Some r))" for r by (auto elim: carefulE writingE)
    show ?thesis
    proof (cases "sql_table ns nm d")
      case None
      with assms(4) LockTable e q(1) show ?thesis by (auto simp: found_lock_def intro: knows.missed)
    next
      case (Some r)
      with m LockTable e assms(4) have "mid d (L \<union> set ls) t0 (k (Some r)) []"
        by (auto simp: found_lock_def intro!: mid.table [where ns = ns and t = nm] sql_table_found)
      with assms(4) LockTable e Some q(2) show ?thesis by (auto simp: found_lock_def intro!: knows.found)
    qed
  next
    case (LockView ns nm k)
    then have e: "ws = []" "careful M (LockView ns nm k)" using w by (auto elim: writingE)
    then have q: "quiet M (k None)" "careful M (k (Some r))" for r by (auto elim: carefulE writingE)
    show ?thesis
    proof (cases "sql_view ns nm d")
      case None
      with assms(4) LockView e q(1) show ?thesis by (auto simp: found_lock_def intro: knows.missed)
    next
      case (Some r)
      with m LockView e assms(4) have "mid d (L \<union> set ls) t0 (k (Some r)) []"
        by (auto simp: found_lock_def intro!: mid.view [where ns = ns and t = nm] sql_view_found)
      with assms(4) LockView e Some q(2) show ?thesis by (auto simp: found_lock_def intro!: knows.found)
    qed
  next
    case (UpdateTable i loc meta prev u)
    with assms(2) have "writing u" by (auto elim: writingE carefulE)
    with UpdateTable m assms(4) show ?thesis by (auto intro!: knows.found mid.update)
  next
    case (LogCommit i loc u)
    with assms(2) have "writing u" by (auto elim: writingE carefulE)
    with LogCommit m assms(4) show ?thesis by (auto intro!: knows.found mid.log)
  next
    case (UpdateView i loc meta u)
    with assms(2) have "writing u" by (auto elim: writingE carefulE)
    with UpdateView m assms(4) show ?thesis by (auto intro!: knows.found mid.update_view)
  qed
qed

lemma knows_exec:
  assumes "knows M d L t0 t ws" "db_ok d" "exec_stmt t (apply_writes ws d) = (t', ls, vs)"
  shows "knows M d (L \<union> set ls) t0 t' (ws @ vs)"
  using assms(1)
proof cases
  case found
  with assms(2,3) show ?thesis by (blast intro: knows_found_exec)
next
  case (looking ns k i nm k2)
  show ?thesis
  proof (cases "find_key i nm (d_tables d)")
    case None
    with assms(3) looking show ?thesis by (auto simp: found_lock_def intro: knows.missed)
  next
    case (Some r)
    have dist: "distinct (map item_key_of (d_tables d))" using assms(2) by (simp add: db_ok_def items_ok_def)
    then have r: "r \<in> set (d_tables d)" "it_ns r = i" "it_name r = nm" using Some find_key_iff by blast+
    then obtain n where "n \<in> set (d_namespaces d)" "ns_id n = i"
      using assms(2) by (auto simp: db_ok_def items_ok_def list_all_iff)
    with looking(8) have "sql_ns_id ns d = Some i" using sql_ns_id_iff [OF assms(2)] by blast
    with r have f: "sql_table ns nm d = Some r" by (simp add: sql_table_iff [OF assms(2)])
    from assms(3) looking Some have l: "L \<union> set ls = insert (TableRow (it_id r)) L" "t' = k2 (Some r)" "vs = []" "ws = []"
      by (auto simp: found_lock_def)
    have "mid d (insert (TableRow (it_id r)) L) t0 (NsId ns k) []" using looking(3) mid_more_locks by blast
    then have "mid d (insert (TableRow (it_id r)) L) t0 (k2 (Some r)) []"
      by (rule mid.table_in [where t = nm]) (use looking(4) r(2) sql_table_found [OF f] in auto)
    with l looking(6) show ?thesis by (auto intro: knows.found)
  qed
next
  case missed
  then show ?thesis
  proof (cases t)
    case (NsExists ns k)
    with missed assms(3) show ?thesis by (auto elim!: quietE intro: knows.missed)
  qed (use missed assms(3) in \<open>auto elim: quietE intro: knows.missed\<close>)
qed

end
