(* ===== verification/Names.thy ===== *)
theory Names
  imports RowLocks
begin

text \<open>
  No statement of any handler gives a namespace another name or uses an id again (\<open>keeps_names\<close>): with the row locks,
  this is what a transaction relies on between the statement that finds a row and its commit.
\<close>

section \<open>No statement renames a namespace\<close>

inductive calm :: "'r prog \<Rightarrow> bool" where
  Done: "calm (Done r)"
| Stmt: "(\<And>d. keeps_names d (snd (f d)) \<and> calm (fst (f d))) \<Longrightarrow> (\<And>e. calm (g e)) \<Longrightarrow> calm (Stmt f g)"

inductive_cases calm_StmtE: "calm (Stmt f g)"

declare calm.Done [simp]

lemma keeps_names_refl [simp]: "keeps_names d d"
  by (auto simp: keeps_names_def)

lemma keeps_names_frame: "d_next d \<le> d_next d' \<Longrightarrow> d_namespaces d' = d_namespaces d \<Longrightarrow> keeps_names d d'"
  by (auto simp: keeps_names_def)

lemma calm_query: "(\<And>d. calm (k (q d))) \<Longrightarrow> (\<And>e. calm (failed e)) \<Longrightarrow> calm (query q failed k)"
  by (auto simp: query_def intro!: calm.Stmt)

lemma calm_exec:
  assumes "\<And>x. calm (k x)" "\<And>e. calm (failed e)" "\<And>d x d'. s d = Inr (x, d') \<Longrightarrow> keeps_names d d'"
  shows "calm (exec s failed k)"
  unfolding exec_def by (rule calm.Stmt) (use assms in \<open>auto split: sum.splits prod.splits\<close>)

lemma calm_WithLock:
  assumes "\<And>e. calm (failed e)" "\<And>d x d'. fn d = (Inr x, d') \<Longrightarrow> keeps_names d d' \<and> calm (k x)"
  shows "calm (WithLock seen cfg fn failed k)"
proof -
  have "calm (attempts seen first n lastErr fn failed k)" for first n lastErr
  proof (induction n arbitrary: first lastErr)
    case 0
    with assms show ?case by simp
  next
    case (Suc n)
    let ?again = "\<lambda>e. if isLockTimeoutError e then attempts seen False n (Some e) fn failed k else failed (OtherError e)"
    have f: "calm (?again e)" for e using Suc assms(1) by simp
    have "calm (executeWithLock seen fn ?again k)"
      unfolding executeWithLock_def
      by (rule calm.Stmt) (use f assms in \<open>auto split: prod.splits sum.splits\<close>)
    with assms(1) show ?case by (auto simp: pause_def Let_def intro!: calm.Stmt)
  qed
  then show ?thesis by (simp add: WithLock_def)
qed

text \<open>The statements.\<close>

lemma keeps_names_simps [simp]:
  "keeps_names d (sql_update_table i l m p d)" "keeps_names d (sql_update_view i l m d)"
  "keeps_names d (sql_log_commit i l (sql_update_table i' l' m p d))"
  "keeps_names d (d\<lparr>d_plans := ps\<rparr>)" "keeps_names d (d\<lparr>d_keys := ks\<rparr>)" "keeps_names d (d\<lparr>d_tokens := ts\<rparr>)"
  "keeps_names d (drop_tables P d)" "keeps_names d (drop_views P d)"
  by (auto simp: sql_update_table_def sql_update_view_def sql_log_commit_def drop_tables_def drop_views_def Let_def
      intro!: keeps_names_frame)

lemma keeps_names_update_ns [simp]: "keeps_names d (sql_update_ns_props props ns d)"
  by (auto simp: keeps_names_def) (auto simp: sql_update_ns_props_def)

lemma keeps_names_insert_ns: "sql_insert_ns ns props d = Inr d' \<Longrightarrow> keeps_names d d'"
  by (auto simp: sql_insert_ns_def keeps_names_def split: if_splits)

lemma keeps_names_delete_ns [simp]: "keeps_names d (sql_delete_ns i d)"
  by (auto simp: keeps_names_def sql_delete_ns_def drop_tables_def drop_views_def Let_def)

lemma keeps_names_items:
  "sql_insert_table i n l m d = Inr d' \<Longrightarrow> keeps_names d d'" "sql_insert_view i n l m d = Inr d' \<Longrightarrow> keeps_names d d'"
  "sql_delete_table ns n d = (c, d') \<Longrightarrow> keeps_names d d'" "sql_delete_view ns n d = (c, d') \<Longrightarrow> keeps_names d d'"
  "sql_rename_table i' n' i n d = Inr (k, d') \<Longrightarrow> keeps_names d d'"
  "sql_rename_view i' n' i n d = Inr (k, d') \<Longrightarrow> keeps_names d d'"
  by (auto simp: sql_insert_table_def sql_insert_view_def sql_delete_table_def sql_delete_view_def sql_rename_table_def
      sql_rename_view_def drop_tables_def drop_views_def map_sum_def Let_def split: if_splits sum.splits intro!: keeps_names_frame)

lemma keeps_names_plans:
  "sql_insert_plan i t x e d = Inr d' \<Longrightarrow> keeps_names d d'" "sql_cancel_plan ns n i d = (c, d') \<Longrightarrow> keeps_names d d'"
  "keeps_names d (set_plan_status P s d)"
  by (auto simp: sql_insert_plan_def sql_cancel_plan_def set_plan_status_def Let_def split: if_splits intro!: keeps_names_frame)

lemma keeps_names_keys:
  "sql_insert_key r d = Inr d' \<Longrightarrow> keeps_names d d'" "sql_rotate_key h o' at i d = Inr d' \<Longrightarrow> keeps_names d d'"
  "sql_delete_key i d = (c, d') \<Longrightarrow> keeps_names d d'" "sql_insert_token t d = Inr d' \<Longrightarrow> keeps_names d d'"
  "keeps_names d (sql_touch_key at i d)"
  by (auto simp: sql_insert_key_def sql_rotate_key_def sql_delete_key_def sql_insert_token_def sql_touch_key_def
      update_key_def split: if_splits intro!: keeps_names_frame)

lemmas keeps_names_intros = keeps_names_insert_ns keeps_names_items keeps_names_plans keeps_names_keys

text \<open>The handlers.\<close>

lemma calm_missing_or: "calm (missing_or ns r)"
  by (auto simp: missing_or_def intro!: calm_query)

lemma calm_apiError: "calm (apiError code m t)"
  by (simp add: apiError_def)

lemma calm_unauthorized: "calm unauthorized"
  by (simp add: unauthorized_def calm_apiError)

lemmas calm_rules = calm_query calm_exec calm_missing_or calm_apiError calm_unauthorized

lemma calm_namespaces:
  "calm (ListNamespaces coll got parent tok n)" "calm (GetNamespace p)" "calm (NamespaceExists p)"
  "calm (UpdateNamespaceProperties visit p ubody)" "calm (DeleteNamespace b p)"
  by (auto simp: ListNamespaces_def GetNamespace_def NamespaceExists_def UpdateNamespaceProperties_def DeleteNamespace_def
      Let_def split: option.splits prod.splits intro!: calm_rules)

lemma calm_writers:
  "calm (CreateNamespace b cbody)" "calm (DropTable p t)" "calm (DropView p t)" "calm (RenameTable body)" "calm (RenameView body)"
  by (auto simp: CreateNamespace_def DropTable_def DropView_def RenameTable_def RenameView_def Let_def split: option.splits
      intro!: calm_rules) (blast intro: keeps_names_intros)+

lemma calm_CreateTable: "calm (CreateTable cfg uuid now p body)"
  by (auto simp: CreateTable_def Let_def simp del: encode.simps split: option.splits intro!: calm_rules)
    (blast intro: keeps_names_intros)+

lemma calm_RegisterTable: "calm (RegisterTable uuid now p rbody)"
  by (auto simp: RegisterTable_def Let_def simp del: encode.simps split: option.splits intro!: calm_rules)
    (blast intro: keeps_names_intros)+

lemma calm_CreateView: "calm (CreateView cfg uuid now p body)"
  by (auto simp: CreateView_def Let_def simp del: encode.simps split: option.splits intro!: calm_rules)
    (blast intro: keeps_names_intros)+

lemma calm_readers:
  "calm (ListTables coll got p tok n)" "calm (LoadTable p t)" "calm (TableExists p t)"
  "calm (ListViews coll got p tok n)" "calm (LoadView p t)" "calm (ViewExists p t)"
  by (auto simp: ListTables_def LoadTable_def TableExists_def ListViews_def LoadView_def ViewExists_def Let_def
      split: option.splits prod.splits intro!: calm_rules)

lemma calm_CommitTable: "calm (CommitTable cfg now p t body)"
proof -
  have "keeps_names d d'" if "commit_tx ns t req now d = (x, d')" for ns t req d x d'
    using that by (auto simp: commit_tx_def split: option.splits elim!: commit_row_cases)
  then show ?thesis
    by (auto simp: CommitTable_def Let_def split: option.splits lock_error.splits commit_result.splits intro!: calm_WithLock)
qed

lemma calm_ReplaceView: "calm (ReplaceView cfg now p t body)"
proof -
  have "keeps_names d d'" if "replace_tx ns t now d = (x, d')" for ns t d x d'
    using that by (auto simp: replace_tx_def Let_def split: option.splits)
  then show ?thesis
    by (auto simp: ReplaceView_def Let_def split: option.splits lock_error.splits commit_result.splits intro!: calm_WithLock)
qed

lemma calm_CommitTransaction: "calm (CommitTransaction cfg body)"
  by (auto simp: CommitTransaction_def split: option.splits lock_error.splits sum.splits prod.splits intro!: calm_WithLock
      dest!: commit_changes_eq)

lemma calm_scans:
  "calm (SubmitScanPlan u planID now p t body)" "calm (GetScanPlan u p t i)"
  "calm (CancelScanPlan u p t i)" "calm (FetchPlanTasks u p t fbody)"
  by (auto simp: SubmitScanPlan_def GetScanPlan_def CancelScanPlan_def FetchPlanTasks_def Let_def with_uuid_Inr
      simp del: encode.simps split: option.splits intro!: calm_rules)
    (blast intro: keeps_names_intros)+

lemma calm_keys:
  "calm (ListAPIKeys got ut fmt now who)" "calm (CreateAPIKey H u fmt random uuid now who body)"
  "calm (RotateAPIKey H u fmt random now who keyID)" "calm (DeleteAPIKey u who keyID)"
  by (auto simp: ListAPIKeys_def CreateAPIKey_def RotateAPIKey_def DeleteAPIKey_def Let_def with_uuid_Inr
      split: option.splits intro!: calm_rules)
    (blast intro: keeps_names_intros)+

lemma calm_others: "calm (LoadCredentials sts iam pt now sto delegation)" "calm (ReportMetrics mbody)"
  by (auto simp: LoadCredentials_def ReportMetrics_def Let_def split: sum.splits intro!: calm_rules)

lemmas calm_handlers = calm_namespaces calm_writers calm_CreateTable calm_RegisterTable calm_CreateView calm_readers
  calm_CommitTable calm_ReplaceView calm_CommitTransaction calm_scans calm_keys calm_others

lemma calm_handler: "calm (handler en ca who req)"
  by (cases req) (simp_all add: calm_handlers)

lemma calm_Authz: "calm inner \<Longrightarrow> calm (Authz cfg required path who inner)"
  by (auto simp: Authz_def checkPermission_def Let_def forbiddenError_def split: option.splits intro!: calm_rules)

lemma calm_validate:
  assumes "\<And>x. calm (k x)"
  shows "calm (validateBearerToken H now token k)" "calm (validateAPIKey H ut now token k)"
  using assms
  by (auto simp: validateBearerToken_def validateAPIKey_def accept_key_def Let_def keeps_names_keys split: option.splits
      intro!: calm_rules)

lemma calm_serve: "calm (serve en ca req)"
proof -
  have f: "calm (case r of Inl err \<Rightarrow> unauthorizedError err | Inr who \<Rightarrow> Authz cfg q p (Some who) (handler en ca (Some who) req))"
    "calm (case r of Inl err \<Rightarrow> unauthorizedError err | Inr who \<Rightarrow> handler en ca (Some who) req)" for r cfg q p
    by (auto simp: unauthorizedError_def calm_handler split: sum.splits intro!: calm_rules calm_Authz)
  show ?thesis unfolding serve_def guarded_def Let_def Auth_def
    by (auto simp: unauthorizedError_def calm_handler split: option.splits prod.splits
        intro!: calm_rules calm_Authz calm_validate f)
qed

end
