(* ===== verification/Serial.thy ===== *)
theory Serial
  imports Catalog UpdateProps
begin

text \<open>
  Serialisability.  A request that does its work in one statement or one locked transaction takes effect at
  one point of time: the requests of this kind in flight, interleaved and failing in any way, do to the
  database and answer what they would if those that succeed ran alone, one after the other, in some order.
  The requests whose work is spread over several statements are left out: for \<open>DeleteNamespace\<close> and
  \<open>UpdateNamespaceProperties\<close> it does not hold (\<open>delete_namespace_race\<close>, \<open>namespace_update_lost\<close>).
\<close>

section \<open>Programs with one point of effect\<close>

text \<open>
  \<open>one_point R Q p\<close>: a statement of \<open>p\<close> changes nothing, or it ends \<open>p\<close> with a result in \<open>Q\<close> and does what \<open>R\<close>
  does to the database it finds.
\<close>

inductive one_point :: "(db \<Rightarrow> 'r \<times> db) \<Rightarrow> ('r \<Rightarrow> bool) \<Rightarrow> 'r prog \<Rightarrow> bool" for R Q where
  Done: "\<not> Q r \<Longrightarrow> one_point R Q (Done r)"
| Stmt: "(\<And>d. (snd (f d) = d \<and> one_point R Q (fst (f d))) \<or> (\<exists>r. fst (f d) = Done r \<and> Q r \<and> R d = (r, snd (f d)))) \<Longrightarrow>
    (\<And>e. one_point R Q (g e)) \<Longrightarrow> one_point R Q (Stmt f g)"

inductive_cases one_point_StmtE: "one_point R Q (Stmt f g)"
inductive_simps one_point_Done: "one_point R Q (Done r)"

lemma one_point_query:
  assumes "\<And>d. one_point R Q (k (q d)) \<or> (\<exists>r. k (q d) = Done r \<and> Q r \<and> R d = (r, d))" "\<And>e. one_point R Q (failed e)"
  shows "one_point R Q (query q failed k)"
  unfolding query_def using assms by (intro one_point.Stmt) auto

lemma one_point_exec:
  assumes "\<And>d x d'. s d = Inr (x, d') \<Longrightarrow>
      d' = d \<and> one_point R Q (k x) \<or> (\<exists>r. k x = Done r \<and> Q r \<and> R d = (r, d'))" "\<And>e. one_point R Q (failed e)"
  shows "one_point R Q (exec s failed k)"
  unfolding exec_def
proof (rule one_point.Stmt)
  fix d
  show "(snd (case s d of Inl e \<Rightarrow> (failed e, d) | Inr (x, d') \<Rightarrow> (k x, d')) = d \<and>
      one_point R Q (fst (case s d of Inl e \<Rightarrow> (failed e, d) | Inr (x, d') \<Rightarrow> (k x, d')))) \<or>
    (\<exists>r. fst (case s d of Inl e \<Rightarrow> (failed e, d) | Inr (x, d') \<Rightarrow> (k x, d')) = Done r \<and> Q r \<and>
      R d = (r, snd (case s d of Inl e \<Rightarrow> (failed e, d) | Inr (x, d') \<Rightarrow> (k x, d'))))"
    using assms by (cases "s d") (auto split: prod.splits)
qed (rule assms(2))

text \<open>For a locked transaction it is enough that it has no effect where its answer is not a success.\<close>

lemma one_point_attempts:
  assumes "\<And>e. one_point R Q (failed e)"
    "\<And>d x d'. fn d = (Inr x, d') \<Longrightarrow> d' = d \<and> one_point R Q (k x) \<or> (\<exists>r. k x = Done r \<and> Q r \<and> R d = (r, d'))"
  shows "one_point R Q (attempts seen first n lastErr fn failed k)"
proof (induction n arbitrary: first lastErr)
  case 0
  with assms(1) show ?case by simp
next
  case (Suc n)
  let ?again = "\<lambda>e. if isLockTimeoutError e then attempts seen False n (Some e) fn failed k else failed (OtherError e)"
  have f: "one_point R Q (?again e)" for e using Suc assms(1) by simp
  have "one_point R Q (executeWithLock seen fn ?again k)" unfolding executeWithLock_def
  proof (rule one_point.Stmt)
    fix d
    show "(snd (case fn d of (Inl e, d') \<Rightarrow> (?again e, d) | (Inr x, d') \<Rightarrow> (k x, d')) = d \<and>
        one_point R Q (fst (case fn d of (Inl e, d') \<Rightarrow> (?again e, d) | (Inr x, d') \<Rightarrow> (k x, d')))) \<or>
      (\<exists>r. fst (case fn d of (Inl e, d') \<Rightarrow> (?again e, d) | (Inr x, d') \<Rightarrow> (k x, d')) = Done r \<and> Q r \<and>
        R d = (r, snd (case fn d of (Inl e, d') \<Rightarrow> (?again e, d) | (Inr x, d') \<Rightarrow> (k x, d'))))"
    proof (cases "fn d")
      case (Pair a d')
      with f assms(2) [of d] show ?thesis by (cases a) (simp_all del: if_split)
    qed
  qed (rule f)
  with assms(1) show ?case by (auto simp: pause_def Let_def intro!: one_point.Stmt)
qed

lemma one_point_WithLock:
  assumes "0 \<le> lc_max_retries cfg" "\<And>e. \<exists>r. failed e = Done r \<and> \<not> Q r"
    "\<And>d x d'. fn d = (Inr x, d') \<Longrightarrow> \<exists>r. k x = Done r \<and> (Q r \<or> d' = d)"
  shows "one_point (run (WithLock seen cfg fn failed k)) Q (WithLock seen cfg fn failed k)"
proof -
  define R where "R = run (WithLock seen cfg fn failed k)"
  have "one_point R Q (WithLock seen cfg fn failed k)" unfolding WithLock_def
  proof (rule one_point_attempts)
    show "one_point R Q (failed e)" for e using assms(2) [of e] by (auto simp: one_point_Done)
  next
    fix d x d' assume f: "fn d = (Inr x, d')"
    from assms(3) [OF f] obtain r where r: "k x = Done r" "Q r \<or> d' = d" by blast
    have "R d = (r, d')"
      using run_WithLock [where seen = seen and cfg = cfg and fn = fn and failed = failed and k = k, OF assms(1) f] r(1) by (simp add: R_def)
    with r show "d' = d \<and> one_point R Q (k x) \<or> (\<exists>r. k x = Done r \<and> Q r \<and> R d = (r, d'))"
      by (cases "Q r") (auto simp: one_point_Done)
  qed
  then show ?thesis by (simp only: R_def)
qed

section \<open>Serial runs\<close>

text \<open>Programs run alone, one after the other: their results and the database at the end.\<close>

fun run_serial :: "'r prog list \<Rightarrow> db \<Rightarrow> 'r list \<times> db" where
  "run_serial [] d = ([], d)"
| "run_serial (p # ps) d = (case run p d of (r, d1) \<Rightarrow> (case run_serial ps d1 of (rs, d2) \<Rightarrow> (r # rs, d2)))"

lemma run_serial_snoc:
  "run_serial ps d = (rs, d1) \<Longrightarrow> run p d1 = (r, d2) \<Longrightarrow> run_serial (ps @ [p]) d = (rs @ [r], d2)"
  by (induction ps arbitrary: d rs) (auto split: prod.splits)

definition finished :: "('r \<Rightarrow> bool) \<Rightarrow> 'r prog \<Rightarrow> bool" where
  "finished Q p = (case p of Done r \<Rightarrow> Q r | Stmt f g \<Rightarrow> False)"

definition result_of :: "'r prog \<Rightarrow> 'r" where
  "result_of p = (case p of Done r \<Rightarrow> r)"

lemma finished_simps [simp]: "finished Q (Done r) = Q r" "\<not> finished Q (Stmt f g)" "result_of (Done r) = r"
  by (simp_all add: finished_def result_of_def)

lemma one_point_not_finished: "one_point R Q p \<Longrightarrow> \<not> finished Q p"
  by (cases p) (simp_all add: one_point_Done)

lemma one_point_pstep:
  assumes "pstep (p, d) (p', d')" "one_point R Q p"
  shows "d' = d \<and> one_point R Q p' \<or> finished Q p' \<and> R d = (result_of p', d')"
  using assms(1)
proof cases
  case (ok f g)
  from assms(2) [unfolded ok(1)] show ?thesis
    by (rule one_point_StmtE) (use ok(2) in \<open>metis finished_simps(1,3) fst_conv snd_conv\<close>)
next
  case (failed f g e)
  with assms(2) show ?thesis by (auto elim: one_point_StmtE)
qed

text \<open>What is true at every moment: some order of the finished programs accounts for the database.\<close>

definition serial_so_far :: "('r \<Rightarrow> bool) \<Rightarrow> 'r prog list \<Rightarrow> db \<Rightarrow> 'r prog list \<Rightarrow> db \<Rightarrow> nat list \<Rightarrow> bool" where
  "serial_so_far Q ps0 d0 ps d order \<longleftrightarrow>
     length ps = length ps0 \<and> distinct order \<and> set order = {i. i < length ps \<and> finished Q (ps ! i)} \<and>
     (\<forall>i < length ps. \<not> finished Q (ps ! i) \<longrightarrow> one_point (run (ps0 ! i)) Q (ps ! i)) \<and>
     run_serial (map (nth ps0) order) d0 = (map (\<lambda>i. result_of (ps ! i)) order, d)"

lemma serial_step:
  assumes "serial_so_far Q ps0 d0 ps d order" "cstep (ps, d) (ps', d')"
  shows "\<exists>order'. serial_so_far Q ps0 d0 ps' d' order'"
  using assms(2)
proof cases
  case (1 i p')
  note s = assms(1) [unfolded serial_so_far_def]
  have nf: "\<not> finished Q (ps ! i)" using 1(3) by (cases "ps ! i") (auto elim: pstep_DoneE)
  then have i: "i \<notin> set order" and op: "one_point (run (ps0 ! i)) Q (ps ! i)" using s 1(2) by auto
  have res: "map (\<lambda>j. result_of (ps' ! j)) order = map (\<lambda>j. result_of (ps ! j)) order"
  proof (rule map_cong [OF refl])
    show "result_of (ps' ! j) = result_of (ps ! j)" if "j \<in> set order" for j
      using i that by (cases "j = i") (simp_all add: 1(1))
  qed
  from one_point_pstep [OF 1(3) op] show ?thesis
  proof (elim disjE conjE)
    assume "d' = d" and op': "one_point (run (ps0 ! i)) Q p'"
    with one_point_not_finished [OF op'] nf s 1 res have "serial_so_far Q ps0 d0 ps' d' order"
      by (auto simp: serial_so_far_def nth_list_update)
    then show ?thesis ..
  next
    assume fin: "finished Q p'" and R: "run (ps0 ! i) d = (result_of p', d')"
    have "run_serial (map (nth ps0) order @ [ps0 ! i]) d0 = (map (\<lambda>j. result_of (ps ! j)) order @ [result_of p'], d')"
      using run_serial_snoc [OF _ R] s by blast
    with fin nf s 1 res i have "serial_so_far Q ps0 d0 ps' d' (order @ [i])"
      by (auto simp: serial_so_far_def nth_list_update)
    then show ?thesis ..
  qed
qed

lemma serial_creach:
  assumes "creach (ps0, d0) (ps, d)" "\<And>i. i < length ps0 \<Longrightarrow> one_point (run (ps0 ! i)) Q (ps0 ! i)"
  shows "\<exists>order. serial_so_far Q ps0 d0 ps d order"
  using assms(1)
proof (induction "(ps0, d0)" "(ps, d)" arbitrary: ps d rule: creach.induct)
  case start
  have "\<not> finished Q (ps0 ! i)" if "i < length ps0" for i using assms(2) [OF that] by (rule one_point_not_finished)
  then have "serial_so_far Q ps0 d0 ps0 d0 []" using assms(2) by (auto simp: serial_so_far_def)
  then show ?case ..
next
  case (more s)
  obtain ps1 d1 where s: "s = (ps1, d1)" by fastforce
  from more(2) [OF s] obtain order where "serial_so_far Q ps0 d0 ps1 d1 order" ..
  from serial_step [OF this more(3) [unfolded s]] show ?case .
qed

section \<open>The requests with one point of effect\<close>

definition succeeded :: "outcome \<Rightarrow> bool" where
  "succeeded out = (status_of (fst out) \<in> {Some 200, Some 204})"

lemma succeeded_simps [simp]:
  "succeeded (Resp c b, effs) \<longleftrightarrow> c = 200 \<or> c = 204" "\<not> succeeded (Crash p, effs)"
  "\<not> succeeded (namespaceNotFound ns, effs)" "\<not> succeeded (tableNotFound ns t, effs)"
  "\<not> succeeded (viewNotFound ns t, effs)" "\<not> succeeded (badRequest x, effs)" "\<not> succeeded (internalError x y, effs)"
  "\<not> succeeded (alreadyExistsError x y, effs)" "\<not> succeeded (commit_failed x, effs)" "succeeded (load_response loc m, effs)"
  by (simp_all add: succeeded_def status_of_def namespaceNotFound_def tableNotFound_def viewNotFound_def badRequest_def
      internalError_def alreadyExistsError_def commit_failed_def load_response_def)

lemma one_point_missing_or:
  "one_point R succeeded (missing_or ns (tableNotFound ns t))" "one_point R succeeded (missing_or ns (viewNotFound ns t))"
  unfolding missing_or_def by (rule one_point_query; simp add: one_point_Done)+

lemma one_point_CreateNamespace: "one_point (run (CreateNamespace b body)) succeeded (CreateNamespace b body)"
proof (cases body)
  case None
  then show ?thesis by (simp add: CreateNamespace_def one_point_Done)
next
  case (Some req)
  show ?thesis
  proof (cases "cn_namespace req = []")
    case True
    with Some show ?thesis by (simp add: CreateNamespace_def one_point_Done)
  next
    case False
    with Some show ?thesis unfolding CreateNamespace_def
      by (simp only: option.case if_False Let_def, intro one_point_exec disjI2) (auto simp: one_point_Done)
  qed
qed

lemma one_point_GetNamespace: "one_point (run (GetNamespace ns)) succeeded (GetNamespace ns)"
  unfolding GetNamespace_def Let_def by (rule one_point_query) (auto simp: one_point_Done split: option.split)

lemma one_point_NamespaceExists: "one_point (run (NamespaceExists ns)) succeeded (NamespaceExists ns)"
  unfolding NamespaceExists_def Let_def by (rule one_point_query) (auto simp: one_point_Done)

lemma one_point_TableExists: "one_point (run (TableExists ns t)) succeeded (TableExists ns t)"
  unfolding TableExists_def Let_def by (rule one_point_query) (auto simp: one_point_Done)

lemma one_point_ViewExists: "one_point (run (ViewExists ns t)) succeeded (ViewExists ns t)"
  unfolding ViewExists_def Let_def by (rule one_point_query) (auto simp: one_point_Done)

lemma one_point_LoadTable: "one_point (run (LoadTable ns t)) succeeded (LoadTable ns t)"
  unfolding LoadTable_def Let_def
  by (rule one_point_query) (auto simp: one_point_Done one_point_missing_or split: option.split)

lemma one_point_LoadView: "one_point (run (LoadView ns t)) succeeded (LoadView ns t)"
  unfolding LoadView_def Let_def
  by (rule one_point_query) (auto simp: one_point_Done one_point_missing_or split: option.split)

lemma delete_nothing:
  "sql_delete_table ns t d = (0, d') \<Longrightarrow> d' = d" "sql_delete_view ns t d = (0, d') \<Longrightarrow> d' = d"
  by (auto simp: sql_delete_table_def sql_delete_view_def Let_def drop_tables_def drop_views_def filter_empty_conv
      intro!: db.equality filter_True)

text \<open>A deletion that deletes nothing goes on to look for the reason; one that deletes something is done.\<close>

lemma one_point_delete:
  assumes "\<And>d d'. del d = (0, d') \<Longrightarrow> d' = d" "\<And>R. one_point R Q missing" "Q r" "\<And>e. \<not> Q (failed e)"
  shows "one_point (run (exec (\<lambda>d. Inr (del d)) (\<lambda>e. Done (failed e)) (\<lambda>n. if n = (0::nat) then missing else Done r))) Q
    (exec (\<lambda>d. Inr (del d)) (\<lambda>e. Done (failed e)) (\<lambda>n. if n = 0 then missing else Done r))"
proof (rule one_point_exec)
  fix d n d' assume "Inr (del d) = (Inr (n, d') :: sql_error + nat \<times> db)"
  then show "d' = d \<and> one_point (run (exec (\<lambda>d. Inr (del d)) (\<lambda>e. Done (failed e)) (\<lambda>n. if n = 0 then missing else Done r))) Q
        (if n = 0 then missing else Done r) \<or>
      (\<exists>r'. (if n = 0 then missing else Done r) = Done r' \<and> Q r' \<and>
        run (exec (\<lambda>d. Inr (del d)) (\<lambda>e. Done (failed e)) (\<lambda>n. if n = 0 then missing else Done r)) d = (r', d'))"
    using assms(1) [of d d'] assms(2,3) by (cases "n = 0") auto
qed (simp add: one_point_Done assms(4))

lemma one_point_DropTable: "one_point (run (DropTable ns t)) succeeded (DropTable ns t)"
  unfolding DropTable_def Let_def by (rule one_point_delete) (simp_all add: delete_nothing one_point_missing_or)

lemma one_point_DropView: "one_point (run (DropView ns t)) succeeded (DropView ns t)"
  unfolding DropView_def Let_def by (rule one_point_delete) (simp_all add: delete_nothing one_point_missing_or)

lemma one_point_CommitTable:
  assumes "0 \<le> lc_max_retries (cc_lock cfg)"
  shows "one_point (run (CommitTable cfg now ns t body)) succeeded (CommitTable cfg now ns t body)"
proof (cases body)
  case None
  then show ?thesis by (simp add: CommitTable_def one_point_Done)
next
  case (Some req)
  show ?thesis unfolding CommitTable_def Let_def Some option.case
  proof (rule one_point_WithLock [OF assms])
    fix d x d' assume c: "commit_tx (parseNamespace ns) t req now d = (Inr x, d')"
    show "\<exists>r. (case x of
        Committed loc m \<Rightarrow> Done (load_response loc m, [Metric ''table_commit'' [dotted (parseNamespace ns), t]])
      | CommitErr errStr \<Rightarrow>
          (case commit_error_response (parseNamespace ns) t errStr of
             None \<Rightarrow> Done (Resp 200 (Some (GObj [(''metadata-location'', GStr []), (''metadata'', GNil)])),
               [Metric ''table_commit'' [dotted (parseNamespace ns), t]])
           | Some resp \<Rightarrow> reply resp)
      | CommitPanic p \<Rightarrow> Done (Crash p, [])) = Done r \<and> (succeeded r \<or> d' = d)"
      using c by (cases x) (auto dest: commit_tx_panic elim: commit_tx_err)
  qed (simp split: lock_error.split)
qed

lemma replace_tx_no_effect:
  "replace_tx ns v now d = (Inr (CommitErr e), d') \<Longrightarrow> d' = d" "replace_tx ns v now d = (Inr (CommitPanic p), d') \<Longrightarrow> d' = d"
  by (auto simp: replace_tx_def Let_def split: option.splits)

lemma one_point_ReplaceView:
  assumes "0 \<le> lc_max_retries (cc_lock cfg)"
  shows "one_point (run (ReplaceView cfg now ns t body)) succeeded (ReplaceView cfg now ns t body)"
proof (cases body)
  case None
  then show ?thesis by (simp add: ReplaceView_def one_point_Done)
next
  case (Some req)
  show ?thesis unfolding ReplaceView_def Let_def Some option.case
  proof (rule one_point_WithLock [OF assms])
    fix d x d' assume c: "replace_tx (parseNamespace ns) t now d = (Inr x, d')"
    show "\<exists>r. (case x of
        Committed loc m \<Rightarrow> reply (load_response loc m)
      | CommitErr errStr \<Rightarrow>
          reply (if errStr = ''namespace_not_found'' then namespaceNotFound (parseNamespace ns)
                 else if errStr = ''view_not_found'' then viewNotFound (parseNamespace ns) t
                 else Resp 200 (Some (GObj [(''metadata-location'', GStr []), (''metadata'', GNil)])))
      | CommitPanic p \<Rightarrow> Done (Crash p, [])) = Done r \<and> (succeeded r \<or> d' = d)"
      using c by (cases x) (auto dest: replace_tx_no_effect)
  qed (simp split: lock_error.split)
qed

lemma one_point_CommitTransaction:
  assumes "0 \<le> lc_max_retries (cc_lock cfg)"
  shows "one_point (run (CommitTransaction cfg body)) succeeded (CommitTransaction cfg body)"
proof (cases body)
  case None
  then show ?thesis by (simp add: CommitTransaction_def one_point_Done)
next
  case (Some changes)
  show ?thesis
  proof (cases "changes = []")
    case True
    with Some show ?thesis by (simp add: CommitTransaction_def one_point_Done)
  next
    case False
    show ?thesis unfolding CommitTransaction_def Some option.case if_not_P [OF False]
      by (rule one_point_WithLock [OF assms])
        (auto simp: errorHandler_def succeeded_def status_of_def split: lock_error.split sum.split prod.splits
          dest: commit_changes_eq)
  qed
qed

lemma one_point_ListNamespaces:
  "one_point (run (ListNamespaces coll got parent tok n)) succeeded (ListNamespaces coll got parent tok n)"
  unfolding ListNamespaces_def Let_def by (rule one_point_query) (auto simp: one_point_Done split: prod.split)

definition atomic_request :: "request \<Rightarrow> bool" where
  "atomic_request req =
     (case req of
        QListNamespaces _ _ _ \<Rightarrow> True | QCreateNamespace _ \<Rightarrow> True | QGetNamespace _ \<Rightarrow> True | QNamespaceExists _ \<Rightarrow> True
      | QLoadTable _ _ \<Rightarrow> True | QCommitTable _ _ _ \<Rightarrow> True | QDropTable _ _ \<Rightarrow> True | QTableExists _ _ \<Rightarrow> True
      | QLoadView _ _ \<Rightarrow> True | QReplaceView _ _ _ \<Rightarrow> True | QDropView _ _ \<Rightarrow> True | QViewExists _ _ \<Rightarrow> True
      | QCommitTransaction _ \<Rightarrow> True | _ \<Rightarrow> False)"

lemma one_point_handler:
  assumes "0 \<le> lc_max_retries (cc_lock (en_catalog en))" "atomic_request req"
  shows "one_point (run (handler en ca who req)) succeeded (handler en ca who req)"
  using assms(2)
  by (cases req) (simp_all add: atomic_request_def one_point_ListNamespaces one_point_CreateNamespace one_point_GetNamespace
    one_point_NamespaceExists one_point_LoadTable one_point_CommitTable one_point_DropTable one_point_TableExists
    one_point_LoadView one_point_ReplaceView one_point_DropView one_point_ViewExists one_point_CommitTransaction assms(1))

section \<open>Serialisability\<close>

text \<open>What an order of the finished requests says of their answers.\<close>

lemma serial_answers:
  assumes "serial_so_far succeeded (map (\<lambda>(ca, req). handler en ca who req) rs) d ps d' order"
  shows "\<exists>outs. distinct order \<and> set order = {i. i < length rs \<and> (\<exists>out. ps ! i = Done out \<and> succeeded out)} \<and>
    run_serial (map (\<lambda>i. case rs ! i of (ca, req) \<Rightarrow> handler en ca who req) order) d = (outs, d') \<and>
    map (nth ps) order = map Done outs"
proof -
  let ?ps0 = "map (\<lambda>(ca, req). handler en ca who req) rs"
  from assms have len: "length ps = length rs" and set: "set order = {i. i < length rs \<and> finished succeeded (ps ! i)}"
    by (simp_all add: serial_so_far_def)
  have fin: "finished succeeded p \<longleftrightarrow> (\<exists>out. p = Done out \<and> succeeded out)" for p :: "outcome prog"
    by (cases p) auto
  let ?outs = "map (\<lambda>i. result_of (ps ! i)) order"
  have "map (nth ?ps0) order = map (\<lambda>i. case rs ! i of (ca, req) \<Rightarrow> handler en ca who req) order"
    using set by (auto split: prod.split)
  with assms have "run_serial (map (\<lambda>i. case rs ! i of (ca, req) \<Rightarrow> handler en ca who req) order) d = (?outs, d')"
    by (simp add: serial_so_far_def)
  moreover have "map (nth ps) order = map Done ?outs" using set by (auto simp: fin)
  moreover have "distinct order" using assms by (simp add: serial_so_far_def)
  ultimately show ?thesis using set unfolding fin by (intro exI [of _ ?outs]) simp
qed

lemma one_point_requests:
  assumes "0 \<le> lc_max_retries (cc_lock (en_catalog en))" "\<forall>(ca, req) \<in> set rs. atomic_request req"
    "ps0 = map (\<lambda>(ca, req). handler en ca who req) rs" "i < length ps0"
  shows "one_point (run (ps0 ! i)) succeeded (ps0 ! i)"
proof (cases "rs ! i")
  case (Pair ca req)
  have "(ca, req) \<in> set rs" using assms(3,4) Pair nth_mem [of i rs] by simp
  with assms(2) have "atomic_request req" by auto
  with one_point_handler [OF assms(1)] assms(3,4) Pair show ?thesis by simp
qed

text \<open>Serialisability.  Any number of commits, loads, deletions and replacements of tables and views, of requests
  to create, read and list namespaces, and of multi-table commits are in flight, their statements interleaved and
  failing in any way, retries for locks included.  At every moment there is an order of those that have
  succeeded in which running them alone, one after the other, gives the same answers and the same database;
  the others have had no effect.\<close>

theorem requests_serialize:
  assumes "0 \<le> lc_max_retries (cc_lock (en_catalog en))" "\<forall>(ca, req) \<in> set rs. atomic_request req"
    "creach (map (\<lambda>(ca, req). handler en ca who req) rs, d) (ps, d')"
  shows "\<exists>order outs. distinct order \<and> set order = {i. i < length rs \<and> (\<exists>out. ps ! i = Done out \<and> succeeded out)} \<and>
    run_serial (map (\<lambda>i. case rs ! i of (ca, req) \<Rightarrow> handler en ca who req) order) d = (outs, d') \<and>
    map (nth ps) order = map Done outs"
  using serial_creach [OF assms(3) one_point_requests [OF assms(1,2) refl]] serial_answers by blast

text \<open>
  Of two commits that run alone one after the other, the second is no success if it requires a reference to
  be where the first moved it away from.
\<close>

lemma commit_error_status: "commit_error_response ns t e = Some r \<Longrightarrow> \<not> succeeded (r, effs)"
  by (auto simp: commit_error_response_def split: if_splits)

lemma run_CommitTable_succeeded:
  assumes "catalog_ok d" "0 \<le> lc_max_retries (cc_lock cfg)" "run (CommitTable cfg now p t (Some req)) d = (out, d1)" "succeeded out"
  obtains loc m effs where "out = (load_response loc m, effs)"
proof -
  obtain x d2 where x: "commit_tx (parseNamespace p) t req now d = (Inr x, d2)" using commit_tx_good [OF assms(1)] by blast
  note r = run_CommitTable [OF assms(2) x, unfolded assms(3)]
  show ?thesis
  proof (cases x)
    case (CommitErr e)
    from commit_tx_err [OF x [unfolded this]] obtain c where "commit_error_response (parseNamespace p) t e = Some c" by blast
    with r CommitErr assms(4) commit_error_status show ?thesis by auto
  qed (use r assms(4) that in auto)
qed

lemma no_second_commit:
  assumes "catalog_ok d" "in_int64 now" "0 \<le> lc_max_retries (cc_lock cfg)"
    "run (CommitTable cfg now p t (Some req1)) d = (out, d1)" "succeeded out"
    "\<And>loc m effs. out = (load_response loc m, effs) \<Longrightarrow> \<exists>i. ref_snapshot m r = Some i \<and> \<bar>i\<bar> \<le> 2 ^ 53 \<and> s \<noteq> Some i"
    "rq \<in> set (cm_requirements req2)" "rq_type rq = ''assert-ref-snapshot-id''" "rq_ref rq = r" "rq_snapshot rq = s"
  shows "\<not> succeeded (fst (run (CommitTable cfg now' p t (Some req2)) d1))"
proof -
  from run_CommitTable_succeeded [OF assms(1,3-5)] obtain loc m effs where out: "out = (load_response loc m, effs)" .
  from assms(6) [OF this] obtain i where i: "ref_snapshot m r = Some i" "\<bar>i\<bar> \<le> 2 ^ 53" "s \<noteq> Some i" by blast
  from i(3) assms(10) have "rq_snapshot rq \<noteq> Some i" by simp
  from after_commit_rejected [OF assms(1-3) assms(4) [unfolded out] i(1,2) assms(7-9) this, of now']
  obtain x where "run (CommitTable cfg now' p t (Some req2)) d1 = ((commit_failed x, []), d1)" ..
  then show ?thesis by simp
qed

text \<open>The first two in a serial order ran one right after the other.\<close>

lemma serial_first_two:
  assumes "serial_so_far Q ps0 d0 ps d (k # l # rest)"
  obtains out1 d1 out2 d2 where "k < length ps0" "l < length ps0" "ps ! k = Done out1" "Q out1" "ps ! l = Done out2" "Q out2"
    "run (ps0 ! k) d0 = (out1, d1)" "run (ps0 ! l) d1 = (out2, d2)"
proof -
  note s = assms [unfolded serial_so_far_def]
  then have len: "length ps = length ps0" and set: "set (k # l # rest) = {i. i < length ps \<and> finished Q (ps ! i)}"
    by (simp_all only:)
  have "k \<in> set (k # l # rest)" "l \<in> set (k # l # rest)" by simp_all
  then have fin: "finished Q (ps ! k)" "finished Q (ps ! l)" "k < length ps0" "l < length ps0"
    unfolding set mem_Collect_eq len by simp_all
  then obtain out1 out2 where out: "ps ! k = Done out1" "Q out1" "ps ! l = Done out2" "Q out2"
    by (cases "ps ! k"; cases "ps ! l") simp_all
  moreover from s have "run_serial (map (nth ps0) (k # l # rest)) d0 = (map (\<lambda>i. result_of (ps ! i)) (k # l # rest), d)" by blast
  moreover obtain r1 d1 r2 d2 where r: "run (ps0 ! k) d0 = (r1, d1)" "run (ps0 ! l) d1 = (r2, d2)" by fastforce
  obtain rs d3 where "run_serial (map (nth ps0) rest) d2 = (rs, d3)" by fastforce
  ultimately have "r1 = out1" "r2 = out2" using r by simp_all
  with r show ?thesis using that [of out1 out2 d1 d2] fin out by simp
qed

text \<open>C6: compare and swap.  Any number of writers commit to one table at the same time, each requiring a reference
  to be at the same snapshot \<open>s\<close> (or not to exist) and moving it, when it succeeds, to another snapshot, the id of
  which is at most 2^53 in absolute value.  However their statements interleave and fail, at most one of them is
  answered 200.  (Ids are compared as \<open>float64\<close>; beyond that bound two ids can be the same \<open>float64\<close>.)\<close>

theorem one_commit_wins:
  assumes "catalog_ok d" "0 \<le> lc_max_retries (cc_lock cfg)"
    "\<forall>(now, req) \<in> set rs. in_int64 now \<and> (\<exists>rq \<in> set (cm_requirements req).
       rq_type rq = ''assert-ref-snapshot-id'' \<and> rq_ref rq = r \<and> rq_snapshot rq = s)"
    "creach (map (\<lambda>(now, req). CommitTable cfg now p t (Some req)) rs, d) (ps, d')"
    "\<forall>loc m effs. Done (load_response loc m, effs) \<in> set ps \<longrightarrow>
       (\<exists>i. ref_snapshot m r = Some i \<and> \<bar>i\<bar> \<le> 2 ^ 53 \<and> s \<noteq> Some i)"
    "i < length ps" "j < length ps" "ps ! i = Done out" "ps ! j = Done out'" "succeeded out" "succeeded out'"
  shows "i = j"
proof -
  let ?ps0 = "map (\<lambda>(now, req). CommitTable cfg now p t (Some req)) rs"
  have "one_point (run (?ps0 ! k)) succeeded (?ps0 ! k)" if "k < length ?ps0" for k
    using that by (cases "rs ! k") (simp add: one_point_CommitTable [OF assms(2)])
  from serial_creach [OF assms(4) this] obtain order where so: "serial_so_far succeeded ?ps0 d ps d' order" by blast
  then have len: "length ps = length rs" and set: "set order = {i. i < length ps \<and> finished succeeded (ps ! i)}"
    by (simp_all add: serial_so_far_def)
  have "length order \<le> 1"
  proof (rule ccontr)
    assume "\<not> length order \<le> 1"
    then obtain k l rest where o: "order = k # l # rest" by (cases order rule: list.exhaust; cases "tl order") auto
    obtain now1 req1 now2 req2 where rs: "rs ! k = (now1, req1)" "rs ! l = (now2, req2)" by fastforce
    obtain out1 d1 out2 d2 where ps0: "k < length ?ps0" "l < length ?ps0" "ps ! k = Done out1" "succeeded out1" "succeeded out2"
        "run (?ps0 ! k) d = (out1, d1)" "run (?ps0 ! l) d1 = (out2, d2)"
      by (rule serial_first_two [OF so [unfolded o]])
    with rs have kl: "k < length rs" "l < length rs" and p1: "ps ! k = Done out1" "succeeded out1" and "succeeded out2"
        and r1: "run (CommitTable cfg now1 p t (Some req1)) d = (out1, d1)"
        and r2: "run (CommitTable cfg now2 p t (Some req2)) d1 = (out2, d2)" by simp_all
    have "(now1, req1) \<in> set rs" "(now2, req2) \<in> set rs" using kl rs by (metis nth_mem)+
    with assms(3) obtain rq where h: "in_int64 now1" "rq \<in> set (cm_requirements req2)" "rq_type rq = ''assert-ref-snapshot-id''"
        "rq_ref rq = r" "rq_snapshot rq = s" by fastforce
    have "Done out1 \<in> set ps" using p1(1) kl(1) len by (metis nth_mem)
    have "\<not> succeeded (fst (run (CommitTable cfg now2 p t (Some req2)) d1))"
    proof (rule no_second_commit [OF assms(1) h(1) assms(2) r1 p1(2) _ h(2-5)])
      fix loc m effs assume "out1 = (load_response loc m, effs)"
      with \<open>Done out1 \<in> set ps\<close> assms(5)
      show "\<exists>i. ref_snapshot m r = Some i \<and> \<bar>i\<bar> \<le> 2 ^ 53 \<and> s \<noteq> Some i" by blast
    qed
    with r2 \<open>succeeded out2\<close> show False by simp
  qed
  moreover have "i \<in> set order" "j \<in> set order" using set assms(6-11) by simp_all
  ultimately show ?thesis by (cases order) auto
qed

section \<open>Two writers\<close>

text \<open>A commit that gets its lock at once takes a single step.\<close>

lemma CommitTable_pstep:
  assumes "catalog_ok d" "0 \<le> lc_max_retries (cc_lock cfg)" "run (CommitTable cfg now p t (Some req)) d = (out, d')"
  shows "pstep (CommitTable cfg now p t (Some req), d) (Done out, d')"
proof -
  obtain x d1 where x: "commit_tx (parseNamespace p) t req now d = (Inr x, d1)" using commit_tx_good [OF assms(1)] by blast
  obtain n where n: "nat (lc_max_retries (cc_lock cfg) + 1) = Suc n"
    using assms(2) by (metis Suc_nat_eq_nat_zadd1 add.commute)
  from run_CommitTable [OF assms(2) x] assms(3) show ?thesis
    unfolding CommitTable_def Let_def option.case WithLock_def n attempts.simps if_True executeWithLock_def
    by (intro pstep.ok) (cases x; auto simp: x split: option.splits)
qed

text \<open>A writer that requires \<open>main\<close> to be at snapshot 5 and, with the id -1, moves it away.\<close>

definition sample_writer :: commit_table_req where
  "sample_writer = \<lparr>cm_requirements = [\<lparr>rq_type = ''assert-ref-snapshot-id'', rq_ref = ''main'', rq_uuid = [],
     rq_snapshot = Some 5, rq_field = None, rq_schema = None, rq_partition = None, rq_spec = None, rq_order = None\<rparr>],
     cm_updates = [the (UnmarshalJSON (set_main_json (- 1)))]\<rparr>"

lemma Apply_set_main: "Apply (cm_updates sample_writer) m = run_updates [SetSnapshotRef (main_ref (- 1))] m"
  using raw_of(2) [OF parse_set_main, of "- 1"]
  by (simp add: Apply_run sample_writer_def in_int64_def min_int64_def max_int64_def)

lemma sample_writer_parts: "cm_updates sample_writer \<noteq> []"
  "cm_requirements sample_writer = [\<lparr>rq_type = ''assert-ref-snapshot-id'', rq_ref = ''main'', rq_uuid = [],
     rq_snapshot = Some 5, rq_field = None, rq_schema = None, rq_partition = None, rq_spec = None, rq_order = None\<rparr>]"
  by (simp_all add: sample_writer_def)

lemma sample_writer_commit:
  "\<exists>loc m d1. commit_tx [''a''] ''t'' sample_writer now sample_db = (Inr (Committed loc m), d1) \<and>
     ref_snapshot m ''main'' = Some (- 1)"
  by (simp add: commit_tx_def sample_table commit_row_def sample_meta_row updated_metadata_def Apply_set_main
      NewProcessor_loaded [OF sample_meta_row] Let_def getStringFromMap_def first8_def
      sample_writer_parts
      validateRequirement_def int_matches_def float_int_def applySetSnapshotRef_def main_ref_def refTypeBranch_def
      ensureMap_def getMap_def ref_object_def setIfNotNil_def ref_snapshot_def getInt_def f64_to_int_def
      in_int64_def min_int64_def max_int64_def)

lemma sample_retries: "0 \<le> lc_max_retries (cc_lock sample_cfg)"
  by (simp add: sample_cfg_def)

lemma sample_times: "in_int64 1700" "in_int64 1800"
  by (simp_all add: in_int64_def min_int64_def max_int64_def)

text \<open>The first of two such writers gets its 200, the second a 409.\<close>

lemma sample_race:
  obtains loc m effs effs' d1 e where
    "creach (map (\<lambda>(now, req). CommitTable sample_cfg now ''a'' ''t'' (Some req)) [(1700, sample_writer), (1800, sample_writer)], sample_db)
       ([Done (load_response loc m, effs), Done (commit_failed e, effs')], d1)"
    "ref_snapshot m ''main'' = Some (- 1)"
proof -
  obtain loc m d1 where c: "commit_tx [''a''] ''t'' sample_writer 1700 sample_db = (Inr (Committed loc m), d1)"
      "ref_snapshot m ''main'' = Some (- 1)" using sample_writer_commit by blast
  define effs where "effs = [Metric ''table_commit'' [dotted [''a''], ''t'']]"
  have r1: "run (CommitTable sample_cfg 1700 ''a'' ''t'' (Some sample_writer)) sample_db = ((load_response loc m, effs), d1)"
    using run_CommitTable [OF sample_retries, of "''a''" "''t''" _ _ _ _ d1] c(1) by (simp add: sample_names effs_def)
  obtain e where r2: "run (CommitTable sample_cfg 1800 ''a'' ''t'' (Some sample_writer)) d1 = ((commit_failed e, []), d1)"
    using after_commit_rejected [OF sample_db_ok sample_times(1) sample_retries r1 c(2)]
    by (fastforce simp: sample_writer_parts)
  have "catalog_ok d1"
    using safe_run [OF safe_CommitTable [OF sample_times(1)] sample_db_ok, of sample_cfg "''a''" "''t''" "Some sample_writer"] r1 by simp
  from CommitTable_pstep [OF this sample_retries r2] CommitTable_pstep [OF sample_db_ok sample_retries r1]
  have "cstep ([CommitTable sample_cfg 1700 ''a'' ''t'' (Some sample_writer), CommitTable sample_cfg 1800 ''a'' ''t'' (Some sample_writer)], sample_db)
      ([Done (load_response loc m, effs), CommitTable sample_cfg 1800 ''a'' ''t'' (Some sample_writer)], d1)"
    "cstep ([Done (load_response loc m, effs), CommitTable sample_cfg 1800 ''a'' ''t'' (Some sample_writer)], d1)
      ([Done (load_response loc m, effs), Done (commit_failed e, [])], d1)"
    using cstep.intros [of 0 "[CommitTable sample_cfg 1700 ''a'' ''t'' (Some sample_writer), CommitTable sample_cfg 1800 ''a'' ''t'' (Some sample_writer)]"]
      cstep.intros [of 1 "[Done (load_response loc m, effs), CommitTable sample_cfg 1800 ''a'' ''t'' (Some sample_writer)]"]
    by simp_all
  from creach.more [OF creach.more [OF creach.start this(1)] this(2)] c(2) show ?thesis by (intro that) simp_all
qed

theorem one_commit_wins_witness:
  "\<exists>out out' d'. creach ([CommitTable sample_cfg 1700 ''a'' ''t'' (Some sample_writer),
      CommitTable sample_cfg 1800 ''a'' ''t'' (Some sample_writer)], sample_db) ([Done out, Done out'], d') \<and>
    succeeded out \<and> \<not> succeeded out'"
proof -
  obtain loc m effs effs' d1 e where c:
    "creach (map (\<lambda>(now, req). CommitTable sample_cfg now ''a'' ''t'' (Some req)) [(1700, sample_writer), (1800, sample_writer)], sample_db)
       ([Done (load_response loc m, effs), Done (commit_failed e, effs')], d1)"
    "ref_snapshot m ''main'' = Some (- 1)" by (rule sample_race)
  have "\<not> succeeded (commit_failed e, effs')"
  proof
    assume s: "succeeded (commit_failed e, effs')"
    have "(0::nat) = 1"
      by (rule one_commit_wins [where r = "''main''" and s = "Some 5", OF sample_db_ok sample_retries _ c(1)])
        (use s c(2) sample_times in \<open>auto simp: sample_writer_parts load_response_def commit_failed_def\<close>)
    then show False by simp
  qed
  with c(1) show ?thesis by (intro exI [of _ "(load_response loc m, effs)"] exI [of _ "(commit_failed e, effs')"] exI [of _ d1]) simp
qed

theorem requests_serialize_witness:
  "\<exists>ps d' order outs. creach ([CommitTable sample_cfg 1700 ''a'' ''t'' (Some sample_writer),
      CommitTable sample_cfg 1800 ''a'' ''t'' (Some sample_writer)], sample_db) (ps, d') \<and>
    distinct order \<and> set order = {0} \<and> length outs = 1 \<and>
    run_serial (map (\<lambda>i. [CommitTable sample_cfg 1700 ''a'' ''t'' (Some sample_writer),
      CommitTable sample_cfg 1800 ''a'' ''t'' (Some sample_writer)] ! i) order) sample_db = (outs, d')"
proof -
  let ?rs = "[(sample_call\<lparr>ca_now := 1700000000\<rparr>, QCommitTable ''a'' ''t'' (Some sample_writer)),
    (sample_call\<lparr>ca_now := 1800000000\<rparr>, QCommitTable ''a'' ''t'' (Some sample_writer))]"
  have h: "map (\<lambda>(ca, req). handler sample_env ca None req) ?rs =
      map (\<lambda>(now, req). CommitTable sample_cfg now ''a'' ''t'' (Some req)) [(1700, sample_writer), (1800, sample_writer)]"
    by (simp add: sample_env_def now_ms_def)
  obtain loc m effs effs' d1 e where c:
    "creach (map (\<lambda>(ca, req). handler sample_env ca None req) ?rs, sample_db)
       ([Done (load_response loc m, effs), Done (commit_failed e, effs')], d1)"
    unfolding h by (rule sample_race)
  have "0 \<le> lc_max_retries (cc_lock (en_catalog sample_env))" by (simp add: sample_env_def sample_retries)
  from requests_serialize [OF this _ c] obtain order outs where o: "distinct order"
      "set order = {i. i < length ?rs \<and> (\<exists>out. [Done (load_response loc m, effs), Done (commit_failed e, effs')] ! i = Done out \<and> succeeded out)}"
      "run_serial (map (\<lambda>i. case ?rs ! i of (ca, req) \<Rightarrow> handler sample_env ca None req) order) sample_db = (outs, d1)"
      "map (nth [Done (load_response loc m, effs), Done (commit_failed e, effs')]) order = map Done outs"
    by (auto simp: atomic_request_def)
  have "i \<in> set order \<longleftrightarrow> i = 0" for i
  proof (cases i)
    case (Suc j)
    then show ?thesis by (cases j) (simp_all add: o(2))
  qed (simp add: o(2))
  then have s: "set order = {0}" by blast
  with o(1) have ord: "order = [0]" by (cases order) (auto simp: subset_singleton_iff)
  from arg_cong [OF o(4), of length] ord have len: "length outs = 1" by simp
  have en: "en_catalog sample_env = sample_cfg" by (simp add: sample_env_def)
  have "run_serial (map (\<lambda>i. [CommitTable sample_cfg 1700 ''a'' ''t'' (Some sample_writer),
      CommitTable sample_cfg 1800 ''a'' ''t'' (Some sample_writer)] ! i) order) sample_db = (outs, d1)"
    using o(3) by (simp add: ord en now_ms_def del: run_serial.simps)
  moreover note o(1) s len c [unfolded h, simplified]
  ultimately show ?thesis by blast
qed

end
