(* ===== verification/Isolation.thy ===== *)
theory Isolation
  imports Names Serial
begin

text \<open>
  Transactions interleaved statement by statement, as \<open>RowLocks\<close> has them, do what the single steps of \<open>Lock\<close> do:
  every run of the server with interleaved transactions is a run of the server with atomic ones, so what is shown of
  the latter holds of the former.  The only difference is in the answers of a transaction that found no row.  The
  theory also has the price of the locks: \<open>CommitTransaction\<close> can deadlock.
\<close>

section \<open>The simulation\<close>

definition good :: "outcome prog \<Rightarrow> bool" where
  "good p \<longleftrightarrow> safe catalog_ok answered p \<and> calm p"

lemma good_pstep:
  assumes "pstep (p, d) (p', d')" "good p" "catalog_ok d"
  shows "good p' \<and> catalog_ok d' \<and> keeps_names d d'"
proof -
  have "safe catalog_ok answered p'" "catalog_ok d'" using safe_pstep assms unfolding good_def by blast+
  moreover have "calm p' \<and> keeps_names d d'"
    using assms(1)
  proof cases
    case (ok f g)
    with assms(2) have "calm (Stmt f g)" by (simp add: good_def)
    then have "keeps_names d (snd (f d)) \<and> calm (fst (f d))" by (rule calm_StmtE) blast
    with ok show ?thesis by simp
  next
    case (failed f g e)
    with assms(2) show ?thesis by (auto simp: good_def elim: calm_StmtE)
  qed
  ultimately show ?thesis by (simp add: good_def)
qed

lemma good_missed: "code_txn t M \<Longrightarrow> p \<in> M \<Longrightarrow> good p"
  by (induction rule: code_txn.induct) (auto simp: good_def safe_Done_iff errorHandler_def)

definition thread_ok :: "db \<Rightarrow> outcome thread \<Rightarrow> bool" where
  "thread_ok d th \<longleftrightarrow> good (whole th) \<and>
     (case th of
        Outside p \<Rightarrow> True
      | Inside x \<Rightarrow> \<exists>M. code_txn (tx_start x) M \<and> knows M d (tx_locks x) (tx_start x) (tx_rest x) (tx_writes x))"

definition threads_ok :: "outcome thread list \<Rightarrow> db \<Rightarrow> bool" where
  "threads_ok ths d \<longleftrightarrow> catalog_ok d \<and> (\<forall>i < length ths. thread_ok d (ths ! i)) \<and>
     (\<forall>i < length ths. locks_of (ths ! i) \<inter> locked_by_others i ths = {})"

lemma whole_simps [simp]:
  "whole (Outside p) = p" "whole (Inside x) = tx_stmt (tx_start x) (tx_failed x) (tx_aborted x)"
  "locks_of (Outside p) = {}" "locks_of (Inside x) = tx_locks x"
  by (simp_all add: whole_def locks_of_def)

lemma thread_ok_stays:
  assumes "thread_ok d th" "catalog_ok d" "catalog_ok d'" "keeps_names d d'" "keeps_rows (locks_of th) d d'"
  shows "thread_ok d' th"
proof (cases th)
  case (Inside x)
  with assms(1) obtain M where "code_txn (tx_start x) M" "knows M d (tx_locks x) (tx_start x) (tx_rest x) (tx_writes x)" "good (whole th)"
    by (auto simp: thread_ok_def)
  with Inside knows_stays [OF this(2) catalog_ok_db [OF assms(2)] catalog_ok_db [OF assms(3)] assms(4)] assms(5) show ?thesis
    by (auto simp: thread_ok_def)
qed (use assms(1) in \<open>simp add: thread_ok_def\<close>)

lemma locked_by_others_update:
  "i < length ths \<Longrightarrow> locked_by_others i (ths[i := th]) = locked_by_others i ths"
  by (auto simp: locked_by_others_def nth_list_update)

lemma keeps_rows_mono: "keeps_rows K d d' \<Longrightarrow> L \<subseteq> K \<Longrightarrow> keeps_rows L d d'"
  by (auto simp: keeps_rows_def)

lemma threads_ok_update:
  assumes "threads_ok ths d" "i < length ths" "catalog_ok d'" "keeps_names d d'" "keeps_rows (locked_by_others i ths) d d'"
    "thread_ok d' th" "locks_of th \<inter> locked_by_others i ths = {}"
  shows "threads_ok (ths[i := th]) d'"
proof -
  have "thread_ok d' (ths[i := th] ! j)" if j: "j < length ths" for j
  proof (cases "j = i")
    case False
    then have "locks_of (ths ! j) \<subseteq> locked_by_others i ths" using j by (auto simp: locked_by_others_def)
    with assms(1,3-5) j False show ?thesis
      by (auto simp: threads_ok_def intro: thread_ok_stays [of d] keeps_rows_mono)
  qed (use assms(2,6) in simp)
  moreover have "locks_of (ths[i := th] ! j) \<inter> locked_by_others j (ths[i := th]) = {}" if j: "j < length ths" for j
  proof (cases "j = i")
    case True
    with assms(2,7) show ?thesis by (simp add: locked_by_others_update)
  next
    case False
    have "locks_of (ths ! j) \<inter> locks_of (ths ! k) = {}" if "k < length ths" "k \<noteq> j" for k
      using assms(1) j that by (fastforce simp: threads_ok_def locked_by_others_def)
    moreover have "locks_of (ths ! j) \<inter> locks_of th = {}"
      using assms(2,7) j False by (fastforce simp: locked_by_others_def)
    ultimately show ?thesis using False assms(2) by (auto simp: locked_by_others_def nth_list_update split: if_splits)
  qed
  ultimately show ?thesis using assms(3) by (simp add: threads_ok_def)
qed

text \<open>A step of a thread is a step of the system with atomic transactions, or invisible there.\<close>

lemma visible_step:
  assumes "threads_ok ths d" "i < length ths" "pstep (whole (ths ! i), d) (p, d')" "keeps_rows (locked_by_others i ths) d d'"
  shows "threads_ok (ths[i := Outside p]) d' \<and> astep (map whole ths, d) (map whole (ths[i := Outside p]), d')"
proof
  have "good (whole (ths ! i))" "catalog_ok d" using assms(1,2) by (auto simp: threads_ok_def thread_ok_def)
  from good_pstep [OF assms(3) this] have g: "good p" "catalog_ok d'" "keeps_names d d'" by simp_all
  then show "threads_ok (ths[i := Outside p]) d'"
    by (intro threads_ok_update [OF assms(1,2) _ _ assms(4)]) (simp_all add: thread_ok_def)
  have "cstep (map whole ths, d) ((map whole ths)[i := p], d')"
    using assms(2,3) by (intro cstep.intros) simp_all
  then show "astep (map whole ths, d) (map whole (ths[i := Outside p]), d')"
    by (simp add: map_update astep.exact)
qed

lemma invisible_step:
  assumes "threads_ok ths d" "i < length ths" "whole th = whole (ths ! i)" "thread_ok d th"
    "locks_of th \<inter> locked_by_others i ths = {}"
  shows "threads_ok (ths[i := th]) d \<and> map whole (ths[i := th]) = map whole ths"
proof
  have "catalog_ok d" using assms(1) by (simp add: threads_ok_def)
  then show "threads_ok (ths[i := th]) d"
    using assms by (intro threads_ok_update [OF assms(1,2)]) simp_all
  show "map whole (ths[i := th]) = map whole ths"
    using assms(2,3) by (simp add: map_update list_update_same_conv)
qed

lemma lmove_simulates:
  assumes "lmove (ths, d) (ths', d')" "threads_ok ths d"
  shows "threads_ok ths' d' \<and> (astep (map whole ths, d) (map whole ths', d') \<or> map whole ths' = map whole ths \<and> d' = d)"
  using assms(1)
proof cases
  case (runs i f g p)
  then have "pstep (whole (ths ! i), d) (p, d')" by (simp add: pstep.ok)
  from visible_step [OF assms(2) runs(2) this runs(5)] runs(1) show ?thesis by simp
next
  case (begins i t failed aborted M)
  let ?x = "\<lparr>tx_start = t, tx_failed = failed, tx_aborted = aborted, tx_rest = t, tx_writes = [], tx_locks = {}\<rparr>"
  have "thread_ok d (ths ! i)" using assms(2) begins(3) by (simp add: threads_ok_def)
  then have "thread_ok d (Inside ?x)"
    using begins(4,5) code_txn_careful [OF begins(5)] by (auto simp: thread_ok_def intro: knows_start)
  from invisible_step [OF assms(2) begins(3) _ this] begins show ?thesis by simp
next
  case (executes i x t ls ws)
  let ?y = "x\<lparr>tx_rest := t, tx_writes := tx_writes x @ ws, tx_locks := tx_locks x \<union> set ls\<rparr>"
  have ok: "thread_ok d (ths ! i)" "tx_locks x \<inter> locked_by_others i ths = {}" "catalog_ok d"
    using assms(2) executes(3,4) unfolding threads_ok_def by (auto, force)
  then obtain M where M: "code_txn (tx_start x) M" "knows M d (tx_locks x) (tx_start x) (tx_rest x) (tx_writes x)"
    using executes(4) by (auto simp: thread_ok_def)
  have "knows M d (tx_locks x \<union> set ls) (tx_start x) t (tx_writes x @ ws)"
    using knows_exec [OF M(2) catalog_ok_db [OF ok(3)] executes(6)] .
  with M(1) ok(1) executes(4) have "thread_ok d (Inside ?y)" by (auto simp: thread_ok_def)
  from invisible_step [OF assms(2) executes(3) _ this] executes ok(2) show ?thesis by (auto simp: Int_Un_distrib2)
next
  case (commits i x p)
  have ok: "thread_ok d (ths ! i)" "tx_locks x \<inter> locked_by_others i ths = {}" "catalog_ok d"
    using assms(2) commits(3,4) unfolding threads_ok_def by (auto, force)
  then obtain M where M: "code_txn (tx_start x) M" "knows M d (tx_locks x) (tx_start x) (Finish (Inr p)) (tx_writes x)"
    using commits(4,5) by (auto simp: thread_ok_def)
  have rows: "keeps_rows (locked_by_others i ths) d d'"
    unfolding commits(2) using knows_writes [OF M(2)] ok(2) by (simp add: Int_commute)
  from knows_commit [OF M(2) catalog_ok_db [OF ok(3)]] show ?thesis
  proof
    assume "run_txn (tx_start x) d = (Inr p, apply_writes (tx_writes x) d)"
    then have "pstep (whole (ths ! i), d) (p, d')" using commits(2,4) by (simp add: tx_stmt_def pstep.ok)
    from visible_step [OF assms(2) commits(3) this rows] commits(1) show ?thesis by simp
  next
    assume miss: "p \<in> M \<and> tx_writes x = []"
    then have d': "d' = d" using commits(2) by simp
    have "thread_ok d (Outside p)" using good_missed [OF M(1)] miss by (simp add: thread_ok_def)
    with threads_ok_update [OF assms(2) commits(3), of d "Outside p"] ok(3) have "threads_ok (ths[i := Outside p]) d" by simp
    moreover have "astep (map whole ths, d) ((map whole ths)[i := p], d)"
      using commits(3,4) M(1) miss by (intro astep.missed [of i _ "tx_start x" "tx_failed x" "tx_aborted x" M]) simp_all
    ultimately show ?thesis using commits(1) d' by (simp add: map_update)
  qed
next
  case (rolls_back i x e)
  have ok: "thread_ok d (ths ! i)" "catalog_ok d" using assms(2) rolls_back(3) by (simp_all add: threads_ok_def)
  then obtain M where "knows M d (tx_locks x) (tx_start x) (Finish (Inl e)) (tx_writes x)"
    using rolls_back(4,5) by (auto simp: thread_ok_def)
  from knows_rollback [OF this catalog_ok_db [OF ok(2)]] obtain d1 where "run_txn (tx_start x) d = (Inl e, d1)" ..
  then have "pstep (whole (ths ! i), d) (tx_failed x e, d)" using rolls_back(4) by (simp add: tx_stmt_def pstep.ok)
  from visible_step [OF assms(2) rolls_back(3) this] rolls_back(1,2) show ?thesis by simp
qed

lemma lstep_simulates:
  assumes "lstep (ths, d) (ths', d')" "threads_ok ths d"
  shows "threads_ok ths' d' \<and> (astep (map whole ths, d) (map whole ths', d') \<or> map whole ths' = map whole ths \<and> d' = d)"
  using assms(1)
proof cases
  case moves
  from lmove_simulates [OF this assms(2)] show ?thesis .
next
  case (fails i f g e)
  then have "pstep (whole (ths ! i), d) (g e, d)" by (simp add: pstep.failed)
  from visible_step [OF assms(2) fails(3) this] fails(1,2) show ?thesis by simp
next
  case (aborts i x e)
  then have "pstep (whole (ths ! i), d) (tx_aborted x e, d)" by (simp add: tx_stmt_def pstep.failed)
  from visible_step [OF assms(2) aborts(3) this] aborts(1,2) show ?thesis by simp
qed

lemma lreach_simulates:
  assumes "lreach (map Outside ps, d) (ths, d')" "list_all good ps" "catalog_ok d"
  shows "threads_ok ths d' \<and> areach (ps, d) (map whole ths, d')"
  using assms(1)
proof (induction "(map Outside ps, d)" "(ths, d')" arbitrary: ths d' rule: lreach.induct)
  case start
  have "locked_by_others i (map Outside ps) = {}" for i by (auto simp: locked_by_others_def)
  with assms(2,3) show ?case
    by (auto simp: threads_ok_def thread_ok_def list_all_length comp_def intro: areach.start)
next
  case (more s)
  obtain ths1 d1 where s: "s = (ths1, d1)" by fastforce
  from more(2) [OF s] have t: "threads_ok ths1 d1" and a: "areach (ps, d) (map whole ths1, d1)" by simp_all
  from lstep_simulates [OF more(3) [unfolded s] t] show ?case using a by (auto intro: areach.more)
qed

lemma good_serve_all: "requests_ok rs \<Longrightarrow> list_all good (serve_all en rs)"
  using safe_serve_all [of rs en] by (auto simp: good_def list_all_iff serve_all_def calm_serve)

text \<open>C4: transactions whose statements are interleaved with those of other requests, under row locks, are as good as
  atomic.  Requests to any routes are in flight, every statement of every transaction by itself, failing and timing
  out at any point: each state of this system is one of the system in which a transaction is a single step, a
  transaction under way being one that has not happened.  So the database is consistent at every moment, and every
  request that is done was answered with a status of the API.  The one liberty is that a transaction which found no row
  may say so although the row has come into being.\<close>

theorem interleaved_transactions_refine:
  assumes "catalog_ok d" "requests_ok rs" "lreach (map Outside (serve_all en rs), d) (ths, d')"
  shows "areach (serve_all en rs, d) (map whole ths, d') \<and> catalog_ok d' \<and>
    (\<forall>out. Outside (Done out) \<in> set ths \<longrightarrow> answered out)"
proof -
  from lreach_simulates [OF assms(3) good_serve_all [OF assms(2)] assms(1)]
  have t: "threads_ok ths d'" and a: "areach (serve_all en rs, d) (map whole ths, d')" by simp_all
  have "answered out" if "Outside (Done out) \<in> set ths" for out
    using that t by (fastforce simp: threads_ok_def thread_ok_def good_def in_set_conv_nth safe_Done_iff)
  with a t show ?thesis by (simp add: threads_ok_def)
qed

section \<open>Serialisability\<close>

lemma missed_no_success: "code_txn t M \<Longrightarrow> p \<in> M \<Longrightarrow> \<exists>out. p = Done out \<and> \<not> succeeded out"
  by (induction rule: code_txn.induct) (auto simp: errorHandler_def)

lemma serial_astep:
  assumes "serial_so_far succeeded ps0 d0 ps d order" "astep (ps, d) (ps', d')"
  shows "\<exists>order'. serial_so_far succeeded ps0 d0 ps' d' order'"
  using assms(2)
proof cases
  case exact
  with assms(1) show ?thesis by (rule serial_step)
next
  case (missed i t failed aborted M p)
  from missed_no_success [OF missed(5,6)] obtain out where p: "p = Done out" "\<not> succeeded out" by blast
  have nf: "\<not> finished succeeded (ps ! i)" using missed(4) by (simp add: tx_stmt_def)
  note s = assms(1) [unfolded serial_so_far_def]
  from nf s have i: "i \<notin> set order" by auto
  have "map (\<lambda>j. result_of (ps' ! j)) order = map (\<lambda>j. result_of (ps ! j)) order"
  proof (rule map_cong [OF refl])
    show "result_of (ps' ! j) = result_of (ps ! j)" if "j \<in> set order" for j
      using i that by (cases "j = i") (simp_all add: missed(1))
  qed
  with s nf p missed(1,2,3) have "serial_so_far succeeded ps0 d0 ps' d' order"
    by (auto simp: serial_so_far_def nth_list_update one_point_Done)
  then show ?thesis ..
qed

lemma serial_areach:
  assumes "areach (ps0, d0) (ps, d)" "\<And>i. i < length ps0 \<Longrightarrow> one_point (run (ps0 ! i)) succeeded (ps0 ! i)"
  shows "\<exists>order. serial_so_far succeeded ps0 d0 ps d order"
  using assms(1)
proof (induction "(ps0, d0)" "(ps, d)" arbitrary: ps d rule: areach.induct)
  case start
  from serial_creach [OF creach.start assms(2)] show ?case by simp
next
  case (more s)
  obtain ps1 d1 where s: "s = (ps1, d1)" by fastforce
  from more(2) [OF s] obtain order where "serial_so_far succeeded ps0 d0 ps1 d1 order" ..
  from serial_astep [OF this more(3) [unfolded s]] show ?case .
qed

text \<open>C5: serialisability with interleaved transactions.  Commits, loads, deletions and replacements of tables and views,
  requests to create, read and list namespaces, and multi-table commits are in flight, the statements of their
  transactions interleaved under row locks.  At every moment there is an order of those that have succeeded in which
  running them alone, one after the other, gives the same answers and the same database.\<close>

theorem interleaved_requests_serialize:
  assumes "catalog_ok d" "requests_ok rs" "0 \<le> lc_max_retries (cc_lock (en_catalog en))"
    "\<forall>(ca, req) \<in> set rs. atomic_request req"
    "lreach (map (\<lambda>(ca, req). Outside (handler en ca who req)) rs, d) (ths, d')"
  shows "\<exists>order outs. distinct order \<and>
    set order = {i. i < length rs \<and> (\<exists>out. ths ! i = Outside (Done out) \<and> succeeded out)} \<and>
    run_serial (map (\<lambda>i. case rs ! i of (ca, req) \<Rightarrow> handler en ca who req) order) d = (outs, d') \<and>
    map (nth ths) order = map (\<lambda>out. Outside (Done out)) outs"
proof -
  let ?ps0 = "map (\<lambda>(ca, req). handler en ca who req) rs"
  have g: "list_all good ?ps0"
    using assms(2) by (auto simp: requests_ok_def list_all_iff good_def safe_handler calm_handler)
  have m: "map (\<lambda>(ca, req). Outside (handler en ca who req)) rs = map Outside ?ps0" by auto
  from lreach_simulates [OF assms(5) [unfolded m] g assms(1)] have "areach (?ps0, d) (map whole ths, d')" by simp
  from serial_areach [OF this one_point_requests [OF assms(3,4) refl]] obtain order
    where s: "serial_so_far succeeded ?ps0 d (map whole ths) d' order" by blast
  then have len: "length ths = length rs" by (simp add: serial_so_far_def)
  have w: "whole th = Done out \<longleftrightarrow> th = Outside (Done out)" for th out by (cases th) (simp_all add: tx_stmt_def)
  from serial_answers [OF s] obtain outs where o: "distinct order"
      "set order = {i. i < length rs \<and> (\<exists>out. map whole ths ! i = Done out \<and> succeeded out)}"
      "run_serial (map (\<lambda>i. case rs ! i of (ca, req) \<Rightarrow> handler en ca who req) order) d = (outs, d')"
      "map (nth (map whole ths)) order = map Done outs" by blast
  have n: "\<forall>i \<in> set order. i < length ths" using o(2) len by simp
  have "map (nth ths) order = map (\<lambda>out. Outside (Done out)) outs"
  proof (rule nth_equalityI)
    show l: "length (map (nth ths) order) = length (map (\<lambda>out. Outside (Done out)) outs)"
      using arg_cong [OF o(4), of length] by simp
    fix k assume "k < length (map (nth ths) order)"
    then have k: "k < length order" "k < length outs" "order ! k < length ths" using l n by simp_all
    with arg_cong [OF o(4), of "\<lambda>xs. xs ! k"] show "map (nth ths) order ! k = map (\<lambda>out. Outside (Done out)) outs ! k"
      by (simp add: w)
  qed
  moreover have "set order = {i. i < length rs \<and> (\<exists>out. ths ! i = Outside (Done out) \<and> succeeded out)}"
    using o(2) len by (auto simp: w)
  ultimately show ?thesis using o(1,3) by blast
qed

section \<open>Deadlock\<close>

lemma exec_map: "exec_stmt t d = (t', ls, ws) \<Longrightarrow> exec_stmt (map_txn k t) d = (map_txn k t', ls, ws)"
  by (cases t) auto

lemma lreach_step: "lreach s s' \<Longrightarrow> lmove s' s'' \<Longrightarrow> lreach s s''"
  by (rule lreach.more [OF _ lstep.moves])

lemma lreach_trans: "lreach s' s'' \<Longrightarrow> lreach s s' \<Longrightarrow> lreach s s''"
  by (induction rule: lreach.induct) (auto intro: lreach.more)

text \<open>The handler begins its transaction, and a transaction goes on with a statement.\<close>

lemma WithLock_tx:
  assumes "0 \<le> lc_max_retries cfg"
  shows "\<exists>f g. WithLock seen cfg (run_txn t) failed k = tx_stmt (map_txn k t) f g \<and>
    (\<forall>e. \<not> isLockTimeoutError (seen e) \<longrightarrow> g e = failed (OtherError (seen e)))"
proof -
  obtain n where n: "nat (lc_max_retries cfg + 1) = Suc n"
    using assms by (metis Suc_nat_eq_nat_zadd1 add.commute)
  let ?again = "\<lambda>e. if isLockTimeoutError e then attempts seen False n (Some e) (run_txn t) failed k else failed (OtherError e)"
  have "WithLock seen cfg (run_txn t) failed k = tx_stmt (map_txn k t) ?again (\<lambda>e. ?again (seen e))"
    unfolding WithLock_def n by (simp add: executeWithLock_tx [of t "run_txn t", OF refl])
  then show ?thesis by (intro exI [of _ ?again] exI [of _ "\<lambda>e. ?again (seen e)"]) simp
qed

definition begun :: "outcome prog txn \<Rightarrow> (sql_error \<Rightarrow> outcome prog) \<Rightarrow> (sql_error \<Rightarrow> outcome prog) \<Rightarrow> outcome tx" where
  "begun t failed aborted =
     \<lparr>tx_start = t, tx_failed = failed, tx_aborted = aborted, tx_rest = t, tx_writes = [], tx_locks = {}\<rparr>"

lemma go_on:
  assumes "i < length ths" "ths ! i = Inside x" "tx_rest x = map_txn k t" "tx_writes x = []" "exec_stmt t d = (t', ls, [])"
    "\<forall>y. t \<noteq> Finish y" "set ls \<inter> locked_by_others i ths = {}"
  shows "lmove (ths, d) (ths[i := Inside (x\<lparr>tx_rest := map_txn k t', tx_locks := tx_locks x \<union> set ls\<rparr>)], d)"
proof -
  have "\<forall>y. tx_rest x \<noteq> Finish y" using assms(3,6) by (cases t) auto
  moreover have "exec_stmt (tx_rest x) (apply_writes (tx_writes x) d) = (map_txn k t', ls, [])"
    using assms(3,4) exec_map [OF assms(5)] by simp
  ultimately have "lmove (ths, d) (ths[i := Inside (x\<lparr>tx_rest := map_txn k t', tx_writes := tx_writes x @ [],
      tx_locks := tx_locks x \<union> set ls\<rparr>)], d)"
    using lmove.executes [OF assms(1,2) _ _ assms(7)] by blast
  moreover have "x\<lparr>tx_rest := b, tx_writes := tx_writes x @ [], tx_locks := L\<rparr> = x\<lparr>tx_rest := b, tx_locks := L\<rparr>" for b L
    by (cases x) simp
  ultimately show ?thesis by simp
qed

text \<open>A change whose table is there and asks for nothing, and the transaction once it has come to it.\<close>

definition plain_change :: "string list \<Rightarrow> string \<Rightarrow> raw_update list \<Rightarrow> table_change" where
  "plain_change ns t us = \<lparr>tc_identifier = \<lparr>id_namespace = ns, id_name = t\<rparr>, tc_requirements = [], tc_updates = us\<rparr>"

definition at_lock :: "nat \<Rightarrow> string \<Rightarrow> outcome prog txn \<Rightarrow> bool" where
  "at_lock i t rest \<longleftrightarrow> (\<exists>k. rest = LockTableIn i t k)"

lemma plain_change_exec:
  assumes "sql_ns_id ns d = Some i" "find_key i t (d_tables d) = Some r" "load_meta (it_meta r) = Some m"
  obtains k where "exec_stmt (changes_txn (plain_change ns t us # cs) acc) d = (LockTableIn i t k, [], [])"
    "exec_stmt (LockTableIn i t k) d = (changes_txn cs (\<lparr>cr_identifier = \<lparr>id_namespace = ns, id_name = t\<rparr>,
       cr_location = it_loc r, cr_metadata = m\<rparr> # acc), [TableRow (it_id r)], [])"
  using assms by (simp add: plain_change_def Let_def found_lock_def)

text \<open>A transaction with two such changes locks the table of the first and comes to the second.\<close>

lemma comes_to_second:
  assumes "sql_ns_id ns d = Some i" "find_key i t (d_tables d) = Some r" "find_key i u (d_tables d) = Some q"
    "load_meta (it_meta r) = Some m" "load_meta (it_meta q) = Some n" "j < length ths"
    "ths ! j = Inside (begun (map_txn transaction_answer (changes_txn [plain_change ns t us, plain_change ns u vs] [])) f g)"
    "TableRow (it_id r) \<notin> locked_by_others j ths"
  shows "\<exists>x. lreach (ths, d) (ths[j := Inside x], d) \<and> tx_locks x = {TableRow (it_id r)} \<and> at_lock i u (tx_rest x) \<and>
    tx_writes x = [] \<and> tx_aborted x = g"
proof -
  let ?a = transaction_answer
  let ?x = "begun (map_txn ?a (changes_txn [plain_change ns t us, plain_change ns u vs] [])) f g"
  let ?acc = "[\<lparr>cr_identifier = \<lparr>id_namespace = ns, id_name = t\<rparr>, cr_location = it_loc r, cr_metadata = m\<rparr>]"
  obtain k where k: "exec_stmt (changes_txn [plain_change ns t us, plain_change ns u vs] []) d = (LockTableIn i t k, [], [])"
    "exec_stmt (LockTableIn i t k) d = (changes_txn [plain_change ns u vs] ?acc, [TableRow (it_id r)], [])"
    by (rule plain_change_exec [OF assms(1,2,4)])
  obtain l where l: "exec_stmt (changes_txn [plain_change ns u vs] ?acc) d = (LockTableIn i u l, [], [])"
    by (rule plain_change_exec [OF assms(1,3,5)])
  have no: "\<forall>z. changes_txn (c # cs) acc \<noteq> Finish z" for c cs acc by (simp add: Let_def)
  define x1 where "x1 = ?x\<lparr>tx_rest := map_txn ?a (LockTableIn i t k), tx_locks := tx_locks ?x \<union> set []\<rparr>"
  define x2 where "x2 = x1\<lparr>tx_rest := map_txn ?a (changes_txn [plain_change ns u vs] ?acc),
    tx_locks := tx_locks x1 \<union> set [TableRow (it_id r)]\<rparr>"
  define x3 where "x3 = x2\<lparr>tx_rest := map_txn ?a (LockTableIn i u l), tx_locks := tx_locks x2 \<union> set []\<rparr>"
  note defs = begun_def x1_def x2_def x3_def
  have "lmove (ths, d) (ths[j := Inside x1], d)"
    unfolding x1_def by (rule go_on [OF assms(6,7) _ _ k(1) no]) (simp_all add: begun_def)
  moreover have "lmove (ths[j := Inside x1], d) (ths[j := Inside x1, j := Inside x2], d)"
    unfolding x2_def by (rule go_on [OF _ _ _ _ k(2)])
      (use assms(6,8) in \<open>simp_all add: defs locked_by_others_update\<close>)
  moreover have "lmove (ths[j := Inside x1, j := Inside x2], d) (ths[j := Inside x1, j := Inside x2, j := Inside x3], d)"
    unfolding x3_def by (rule go_on [OF _ _ _ _ l no]) (use assms(6) in \<open>simp_all add: defs\<close>)
  ultimately have "lreach (ths, d) (ths[j := Inside x3], d)"
    unfolding list_update_overwrite by (blast intro: lreach_step lreach.start)
  then show ?thesis
    by (intro exI [of _ x3]) (simp add: defs at_lock_def)
qed

lemma commit_rollback_final: "\<not> isLockTimeoutError (commit_rollback e)"
  by (auto simp: commit_rollback_def isLockTimeoutError_def)

lemma CommitTransaction_begins:
  assumes "0 \<le> lc_max_retries (cc_lock cfg)" "cs \<noteq> []"
  shows "\<exists>f g. CommitTransaction cfg (Some cs) = tx_stmt (map_txn transaction_answer (changes_txn cs [])) f g \<and>
    (\<forall>e. \<exists>m. g e = Done (errorHandler 500 m, [Metric ''transaction_commit'' [''failed'']]))"
proof -
  let ?failed = "\<lambda>e. Done (case e of
       ErrLockTimeout _ \<Rightarrow> errorHandler 409 ''Failed to acquire lock: concurrent modification in progress''
     | OtherError x \<Rightarrow> errorHandler 500 (''failed to commit transaction: '' @ sqe_text x),
       [Metric ''transaction_commit'' [''failed'']])"
  from WithLock_tx [OF assms(1), of commit_rollback "changes_txn cs []" ?failed transaction_answer]
  obtain f g where "CommitTransaction cfg (Some cs) = tx_stmt (map_txn transaction_answer (changes_txn cs [])) f g"
      "\<And>e. g e = ?failed (OtherError (commit_rollback e))"
    unfolding CommitTransaction_tx [OF assms(2)] using commit_rollback_final by blast
  moreover from this have "\<exists>m. g e = Done (errorHandler 500 m, [Metric ''transaction_commit'' [''failed'']])" for e
    by (simp only: lock_error.case) blast
  ultimately show ?thesis by blast
qed

lemma begin_tx:
  assumes "j < length ths" "ths ! j = Outside (tx_stmt (map_txn transaction_answer (changes_txn cs [])) f g)"
  shows "lmove (ths, d) (ths[j := Inside (begun (map_txn transaction_answer (changes_txn cs [])) f g)], d)"
  unfolding begun_def by (rule lmove.begins [OF assms code_txn.changes])

lemma begin_both:
  "lreach ([Outside (tx_stmt (map_txn transaction_answer (changes_txn cs [])) f g),
      Outside (tx_stmt (map_txn transaction_answer (changes_txn cs' [])) f' g')], d)
    ([Inside (begun (map_txn transaction_answer (changes_txn cs [])) f g),
      Inside (begun (map_txn transaction_answer (changes_txn cs' [])) f' g')], d)"
  (is "lreach ([?p, ?q], d) ([?x, ?y], d)")
proof -
  have "lmove ([?p, ?q], d) ([?x, ?q], d)" using begin_tx [of 0 "[?p, ?q]" cs f g d] by simp
  moreover have "lmove ([?x, ?q], d) ([?x, ?y], d)" using begin_tx [of 1 "[?x, ?q]" cs' f' g' d] by simp
  ultimately show ?thesis by (blast intro: lreach_step lreach.start)
qed

lemma locked_by_others_two:
  "locked_by_others 0 [a, b] = locks_of b" "locked_by_others (Suc 0) [a, b] = locks_of a"
  by (auto simp: locked_by_others_def less_Suc_eq nth_Cons')

lemma waits_for_ever:
  assumes "lmove (ths, d) s" "\<And>j. j < length ths \<Longrightarrow> \<exists>x i t r. ths ! j = Inside x \<and> at_lock i t (tx_rest x) \<and>
    tx_writes x = [] \<and> find_key i t (d_tables d) = Some r \<and> TableRow (it_id r) \<in> locked_by_others j ths"
  shows False
  using assms(1)
  by cases (use assms(2) in \<open>fastforce simp: at_lock_def found_lock_def\<close>)+

text \<open>C23: two multi-table commits that name the same two tables in opposite orders can wait for each other for ever:
  a table is locked when the commit comes to it, in the order of the request.  Neither can go on before the
  database aborts one of them, and the one that is aborted, for whatever reason, answers 500 and is not retried.\<close>

theorem transactions_deadlock:
  assumes "sql_ns_id ns d = Some i" "find_key i t (d_tables d) = Some r" "find_key i u (d_tables d) = Some q"
    "load_meta (it_meta r) = Some m" "load_meta (it_meta q) = Some n" "it_id r \<noteq> it_id q"
    "0 \<le> lc_max_retries (cc_lock cfg)"
  shows "\<exists>x y. lreach ([Outside (CommitTransaction cfg (Some [plain_change ns t us, plain_change ns u vs])),
        Outside (CommitTransaction cfg (Some [plain_change ns u vs', plain_change ns t us']))], d) ([Inside x, Inside y], d) \<and>
    \<not> (\<exists>s. lmove ([Inside x, Inside y], d) s) \<and>
    (\<forall>e. \<exists>msg. tx_aborted x e = Done (errorHandler 500 msg, [Metric ''transaction_commit'' [''failed'']])) \<and>
    (\<forall>e. \<exists>msg. tx_aborted y e = Done (errorHandler 500 msg, [Metric ''transaction_commit'' [''failed'']]))"
proof -
  let ?c = "[plain_change ns t us, plain_change ns u vs]" and ?c' = "[plain_change ns u vs', plain_change ns t us']"
  let ?tx = "\<lambda>cs. map_txn transaction_answer (changes_txn cs [])"
  obtain f g where a: "CommitTransaction cfg (Some ?c) = tx_stmt (?tx ?c) f g"
      "\<And>e. \<exists>m. g e = Done (errorHandler 500 m, [Metric ''transaction_commit'' [''failed'']])"
    using CommitTransaction_begins [OF assms(7), of ?c] by blast
  obtain f' g' where b: "CommitTransaction cfg (Some ?c') = tx_stmt (?tx ?c') f' g'"
      "\<And>e. \<exists>m. g' e = Done (errorHandler 500 m, [Metric ''transaction_commit'' [''failed'']])"
    using CommitTransaction_begins [OF assms(7), of ?c'] by blast
  let ?x = "Inside (begun (?tx ?c) f g)" and ?y = "Inside (begun (?tx ?c') f' g')"
  have s: "lreach ([Outside (CommitTransaction cfg (Some ?c)), Outside (CommitTransaction cfg (Some ?c'))], d) ([?x, ?y], d)"
    unfolding a(1) b(1) by (rule begin_both)
  obtain x where x: "lreach ([?x, ?y], d) ([Inside x, ?y], d)" "tx_locks x = {TableRow (it_id r)}" "at_lock i u (tx_rest x)"
      "tx_writes x = []" "tx_aborted x = g"
    using comes_to_second [OF assms(1-5), of 0 "[?x, ?y]" us vs f g]
    by (auto simp: locked_by_others_two begun_def simp del: changes_txn.simps)
  obtain y where y: "lreach ([Inside x, ?y], d) ([Inside x, Inside y], d)" "tx_locks y = {TableRow (it_id q)}"
      "at_lock i t (tx_rest y)" "tx_writes y = []" "tx_aborted y = g'"
    using comes_to_second [OF assms(1,3,2,5,4), of 1 "[Inside x, ?y]" vs' us' f' g'] x(2) assms(6)
    by (auto simp: locked_by_others_two simp del: changes_txn.simps)
  have "\<not> (\<exists>s. lmove ([Inside x, Inside y], d) s)"
  proof
    assume "\<exists>s. lmove ([Inside x, Inside y], d) s"
    then obtain s where "lmove ([Inside x, Inside y], d) s" ..
    then show False
      by (rule waits_for_ever) (use x(2-4) y(2-4) assms(2,3) in \<open>(auto simp: less_Suc_eq locked_by_others_two; blast)\<close>)
  qed
  with lreach_trans [OF y(1) lreach_trans [OF x(1) s]] a(2) b(2) x(5) y(5) show ?thesis by blast
qed

section \<open>Progress\<close>

text \<open>
  A transaction is poised if it takes its lock, if any, with its first statement, and afterwards needs none but that.
\<close>

inductive poised :: "row_lock set \<Rightarrow> 'a txn \<Rightarrow> bool" where
  Finish: "poised L (Finish x)"
| NsExists: "(\<And>x. poised L (k x)) \<Longrightarrow> poised L (NsExists ns k)"
| LockTable: "poised {} (k None) \<Longrightarrow> (\<And>r. poised {TableRow (it_id r)} (k (Some r))) \<Longrightarrow> poised {} (LockTable ns t k)"
| LockView: "poised {} (k None) \<Longrightarrow> (\<And>r. poised {ViewRow (it_id r)} (k (Some r))) \<Longrightarrow> poised {} (LockView ns t k)"
| UpdateTable: "TableRow i \<in> L \<Longrightarrow> poised L t \<Longrightarrow> poised L (UpdateTable i loc meta prev t)"
| LogCommit: "TableRow i \<in> L \<Longrightarrow> poised L t \<Longrightarrow> poised L (LogCommit i loc t)"
| UpdateView: "ViewRow i \<in> L \<Longrightarrow> poised L t \<Longrightarrow> poised L (UpdateView i loc meta t)"

lemma poised_commit: "poised {} (commit_txn ns t req now)"
proof -
  have "poised {TableRow (it_id row)} (commit_body req now row)" for row
    by (auto simp: commit_body_def Let_def simp del: encode.simps split: option.split sum.split intro!: poised.intros)
  then show ?thesis by (auto simp: commit_txn_def intro!: poised.intros)
qed

lemma poised_replace: "poised {} (replace_txn ns v now)"
proof -
  have "poised {ViewRow (it_id row)} (replace_body now row)" for row
    by (auto simp: replace_body_def Let_def simp del: encode.simps split: option.split intro!: poised.intros)
  then show ?thesis by (auto simp: replace_txn_def intro!: poised.intros)
qed

lemma poised_map: "poised L t \<Longrightarrow> poised L (map_txn k t)"
  by (induction rule: poised.induct) (auto intro!: poised.intros)

lemma poised_exec:
  assumes "poised L t" "exec_stmt t d = (t', ls, ws)"
  shows "poised (L \<union> set ls) t' \<and> (L = {} \<or> set ls \<subseteq> L)"
  using assms by cases (auto simp: found_lock_def insert_absorb intro: poised.intros split: option.splits)

text \<open>The transactions of \<open>CommitTable\<close> and \<open>ReplaceView\<close>.\<close>

definition single_item :: "outcome tx \<Rightarrow> bool" where
  "single_item x \<longleftrightarrow>
     (\<exists>ns t req now. tx_start x = map_txn (commit_answer ns t) (commit_txn ns t req now)) \<or>
     (\<exists>ns v now. tx_start x = map_txn (replace_answer ns v) (replace_txn ns v now))"

definition all_poised :: "outcome thread list \<Rightarrow> bool" where
  "all_poised ths \<longleftrightarrow> (\<forall>x. Inside x \<in> set ths \<longrightarrow> single_item x \<longrightarrow> poised (tx_locks x) (tx_rest x))"

lemma all_poised_update:
  assumes "all_poised ths" "\<And>x. th = Inside x \<Longrightarrow> single_item x \<Longrightarrow> poised (tx_locks x) (tx_rest x)"
  shows "all_poised (ths[i := th])"
  using assms by (auto simp: all_poised_def dest!: set_update_subset_insert [THEN subsetD])

lemma lmove_poised:
  assumes "lmove (ths, d) (ths', d')" "all_poised ths"
  shows "all_poised ths'"
  using assms(1)
proof cases
  case (begins i t failed aborted M)
  show ?thesis unfolding begins(1)
    by (rule all_poised_update [OF assms(2)])
      (auto simp: single_item_def intro: poised_map poised_commit poised_replace)
next
  case (executes i x t ls ws)
  have "poised (tx_locks x \<union> set ls) t" if "single_item x"
    using poised_exec [OF _ executes(6)] assms(2) executes(3,4) that by (auto simp: all_poised_def in_set_conv_nth)
  moreover have "single_item (x\<lparr>tx_rest := t, tx_writes := tx_writes x @ ws, tx_locks := tx_locks x \<union> set ls\<rparr>) = single_item x"
    by (simp add: single_item_def)
  ultimately show ?thesis unfolding executes(1) by (intro all_poised_update [OF assms(2)]) auto
qed (use all_poised_update [OF assms(2)] in auto)

lemma lreach_poised: "lreach (map Outside ps, d) (ths, d') \<Longrightarrow> all_poised ths"
proof (induction "(map Outside ps, d)" "(ths, d')" arbitrary: ths d' rule: lreach.induct)
  case start
  show ?case by (auto simp: all_poised_def)
next
  case (more s)
  obtain ths1 d1 where s: "s = (ths1, d1)" by fastforce
  from more(2) [OF s] have p: "all_poised ths1" .
  from more(3) [unfolded s] show ?case
    by cases (use p lmove_poised in \<open>auto intro: all_poised_update [OF p]\<close>)
qed

text \<open>A transaction that holds a lock can go on, and if none does, everybody can.\<close>

lemma poised_moves:
  assumes "i < length ths" "ths ! i = Inside x" "poised (tx_locks x) (tx_rest x)"
    "tx_locks x \<inter> locked_by_others i ths = {}" "tx_locks x \<noteq> {} \<or> locked_by_others i ths = {}"
  shows "\<exists>s. lmove (ths, d) s"
proof (cases "\<exists>y. tx_rest x = Finish y")
  case True
  then obtain y where "tx_rest x = Finish y" ..
  with assms(1,2) show ?thesis by (cases y) (blast intro: lmove.commits lmove.rolls_back)+
next
  case False
  obtain t ls ws where e: "exec_stmt (tx_rest x) (apply_writes (tx_writes x) d) = (t, ls, ws)" using prod_cases3 by blast
  from poised_exec [OF assms(3) e] assms(4,5) have "set ls \<inter> locked_by_others i ths = {}" by auto
  with assms(1,2) False e show ?thesis by (blast intro: lmove.executes)
qed

text \<open>C24: commits to single tables and replacements of views never deadlock: they lock one row, with their first statement.
  In any state that requests to any routes can get to, if the transactions under way are of these kinds, then some
  request can go on without a failure, unless all are done.\<close>

theorem single_commits_go_on:
  assumes "catalog_ok d" "requests_ok rs" "lreach (map Outside (serve_all en rs), d) (ths, d')"
    "\<forall>x. Inside x \<in> set ths \<longrightarrow> single_item x" "th \<in> set ths" "\<forall>out. th \<noteq> Outside (Done out)"
  shows "\<exists>s. lmove (ths, d') s"
proof -
  have excl: "locks_of (ths ! i) \<inter> locked_by_others i ths = {}" if "i < length ths" for i
    using lreach_simulates [OF assms(3) good_serve_all [OF assms(2)] assms(1)] that by (simp add: threads_ok_def)
  have poised: "poised (tx_locks x) (tx_rest x)" if "i < length ths" "ths ! i = Inside x" for i x
    using lreach_poised [OF assms(3)] assms(4) that by (auto simp: all_poised_def in_set_conv_nth)
  show ?thesis
  proof (cases "\<exists>i < length ths. locks_of (ths ! i) \<noteq> {}")
    case True
    then obtain i where i: "i < length ths" "locks_of (ths ! i) \<noteq> {}" by blast
    then obtain x where x: "ths ! i = Inside x" by (cases "ths ! i") simp_all
    from poised_moves [OF i(1) x poised [OF i(1) x]] excl [OF i(1)] i(2) x show ?thesis by simp
  next
    case False
    then have free: "locked_by_others i ths = {}" for i by (auto simp: locked_by_others_def)
    obtain i where i: "i < length ths" "ths ! i = th" using assms(5) by (auto simp: in_set_conv_nth)
    show ?thesis
    proof (cases th)
      case (Inside x)
      with i poised_moves [OF i(1) _ poised [OF i(1)]] excl [OF i(1)] free show ?thesis by simp
    next
      case (Outside p)
      with assms(6) obtain f g where p: "p = Stmt f g" by (cases p) auto
      obtain q d2 where "f d' = (q, d2)" by fastforce
      moreover have "keeps_rows (locked_by_others i ths) d' d2" by (simp add: free keeps_rows_def)
      ultimately show ?thesis using i Outside p by (blast intro: lmove.runs)
    qed
  qed
qed

section \<open>The theorems at work\<close>

lemma commit_body_committed:
  assumes "commit_tx ns t req now d = (Inr (Committed loc m), d1)" "sql_table ns t d = Some row"
  shows "commit_body req now row = UpdateTable (it_id row) loc (encode (GObj m)) (it_loc row)
      (LogCommit (it_id row) loc (Finish (Inr (Committed loc m)))) \<and>
    d1 = sql_log_commit (it_id row) loc (sql_update_table (it_id row) loc (encode (GObj m)) (it_loc row) d)"
proof -
  have "updated_metadata us m' \<noteq> Inl (Committed loc m)" for us m'
    by (auto simp: updated_metadata_def split: prod.splits option.splits apply_result.splits)
  with assms show ?thesis
    by (auto simp: commit_tx_def commit_row_def commit_body_def Let_def simp del: encode.simps split: option.splits sum.splits)
qed

lemma writes_and_commits:
  assumes "j < length ths" "ths ! j = Inside x" "tx_writes x = []" "TableRow i \<notin> locked_by_others j ths"
    "tx_rest x = map_txn k (UpdateTable i loc meta prev (LogCommit i loc (Finish (Inr y))))"
  shows "lreach (ths, d) (ths[j := Outside (k y)], sql_log_commit i loc (sql_update_table i loc meta prev d))"
proof -
  define x1 where "x1 = x\<lparr>tx_rest := LogCommit i loc (Finish (Inr (k y))), tx_writes := tx_writes x @ [sql_update_table i loc meta prev],
    tx_locks := tx_locks x \<union> set [TableRow i]\<rparr>"
  define x2 where "x2 = x1\<lparr>tx_rest := Finish (Inr (k y)), tx_writes := tx_writes x1 @ [sql_log_commit i loc],
    tx_locks := tx_locks x1 \<union> set [TableRow i]\<rparr>"
  have m1: "lmove (ths, d) (ths[j := Inside x1], d)"
    unfolding x1_def by (rule lmove.executes [OF assms(1,2)]) (use assms in simp_all)
  have m2: "lmove (ths[j := Inside x1], d) (ths[j := Inside x1, j := Inside x2], d)"
    unfolding x2_def
    by (rule lmove.executes) (use assms in \<open>simp_all add: x1_def locked_by_others_update\<close>)
  have m3: "lmove (ths[j := Inside x1, j := Inside x2], d)
      (ths[j := Inside x1, j := Inside x2, j := Outside (k y)], apply_writes (tx_writes x2) d)"
    by (rule lmove.commits) (use assms(1) in \<open>simp_all add: x2_def\<close>)
  have w: "apply_writes (tx_writes x2) d = sql_log_commit i loc (sql_update_table i loc meta prev d)"
    using assms(3) by (simp add: x2_def x1_def apply_writes_def)
  from lreach_step [OF lreach_step [OF lreach_step [OF lreach.start m1] m2] m3] show ?thesis by (simp only: list_update_overwrite w)
qed

lemma CommitTable_begins:
  assumes "0 \<le> lc_max_retries (cc_lock cfg)"
  shows "\<exists>f g. CommitTable cfg now p t (Some req) =
    tx_stmt (map_txn (commit_answer (parseNamespace p) t) (commit_txn (parseNamespace p) t req now)) f g"
  unfolding CommitTable_tx using WithLock_tx [OF assms] by blast

text \<open>A commit locks its row, another request reads the namespace, the commit writes and commits.\<close>

lemma sample_locks:
  "\<exists>x out. lreach ([Outside (CommitTable sample_cfg 1700 ''a'' ''t'' (Some sample_writer)), Outside (GetNamespace ''a'')], sample_db)
      ([Inside x, Outside (Done out)], sample_db) \<and>
    tx_rest x = map_txn (commit_answer [''a''] ''t'') (commit_body sample_writer 1700 sample_row) \<and> tx_writes x = [] \<and>
    tx_locks x = {TableRow 1} \<and> succeeded out \<and>
    tx_start x = map_txn (commit_answer [''a''] ''t'') (commit_txn [''a''] ''t'' sample_writer 1700)"
proof -
  let ?k = "commit_answer [''a''] ''t''" and ?t = "commit_txn [''a''] ''t'' sample_writer 1700"
  obtain f g where begins: "CommitTable sample_cfg 1700 ''a'' ''t'' (Some sample_writer) = tx_stmt (map_txn ?k ?t) f g"
    using CommitTable_begins [OF sample_retries, of 1700 "''a''" "''t''" sample_writer] by (auto simp: sample_names)
  define G where "G = GetNamespace ''a''"
  define x0 where "x0 = begun (map_txn ?k ?t) f g"
  define x where "x = x0\<lparr>tx_rest := map_txn ?k (commit_body sample_writer 1700 sample_row), tx_locks := tx_locks x0 \<union> set [TableRow 1]\<rparr>"
  have "exec_stmt ?t sample_db = (commit_body sample_writer 1700 sample_row, [TableRow 1], [])"
    by (simp add: commit_txn_def sample_table found_lock_def) (simp add: sample_row_def)
  then have l: "lmove ([Inside x0, Outside G], sample_db) ([Inside x, Outside G], sample_db)"
    using go_on [of 0 "[Inside x0, Outside G]" x0 ?k ?t sample_db _ "[TableRow 1]"]
    by (simp add: x_def x0_def begun_def locked_by_others_two commit_txn_def)
  have b: "lmove ([Outside (tx_stmt (map_txn ?k ?t) f g), Outside G], sample_db) ([Inside x0, Outside G], sample_db)"
    using lmove.begins [of 0 "[Outside (tx_stmt (map_txn ?k ?t) f g), Outside G]"] code_txn.commit
    by (fastforce simp: x0_def begun_def)
  obtain h g' out where G: "G = Stmt h g'" "h sample_db = (Done out, sample_db)" "succeeded out"
    by (auto simp: G_def GetNamespace_def query_def sample_names sql_namespace_def sample_db_def empty_db_def Let_def)
  have "lmove ([Inside x, Outside G], sample_db) ([Inside x, Outside (Done out)], sample_db)"
    using lmove.runs [of 1 "[Inside x, Outside G]" h g' sample_db "Done out" sample_db] G(1,2) by simp
  with b l have "lreach ([Outside (tx_stmt (map_txn ?k ?t) f g), Outside G], sample_db) ([Inside x, Outside (Done out)], sample_db)"
    by (blast intro: lreach_step lreach.start)
  with G(3) show ?thesis
    by (intro exI [of _ x] exI [of _ out]) (simp add: begins G_def x_def x0_def begun_def)
qed

definition sample_pair :: "(call \<times> request) list" where
  "sample_pair = [(sample_call\<lparr>ca_now := 1700000000\<rparr>, QCommitTable ''a'' ''t'' (Some sample_writer)), (sample_call, QGetNamespace ''a'')]"

lemma sample_pair_ok: "requests_ok sample_pair" "\<forall>(ca, req) \<in> set sample_pair. atomic_request req"
  by (simp_all add: sample_pair_def requests_ok_def call_ok_def request_ok_def sample_call_def now_ms_def in_int64_def
      min_int64_def max_int64_def atomic_request_def)

lemma sample_pair_handlers: "map (\<lambda>(ca, req). Outside (handler sample_env ca None req)) sample_pair =
    [Outside (CommitTable sample_cfg 1700 ''a'' ''t'' (Some sample_writer)), Outside (GetNamespace ''a'')]"
  by (simp add: sample_pair_def sample_env_def now_ms_def)

lemma sample_pair_serve: "map Outside (serve_all sample_env sample_pair) =
    [Outside (CommitTable sample_cfg 1700 ''a'' ''t'' (Some sample_writer)), Outside (GetNamespace ''a'')]"
proof -
  have "serve sample_env (sample_call\<lparr>ca_now := t\<rparr>) req = handler sample_env (sample_call\<lparr>ca_now := t\<rparr>) None req" for t req
    by (simp add: serve_def guarded_def sample_env_def)
  then show ?thesis by (simp add: serve_all_def sample_pair_def serve_sample) (simp add: sample_env_def now_ms_def)
qed

text \<open>While the commit holds its lock, the other request is answered, and nothing has happened to the database.\<close>

theorem interleaved_transactions_refine_witness:
  "\<exists>x out. lreach (map Outside (serve_all sample_env sample_pair), sample_db) ([Inside x, Outside (Done out)], sample_db) \<and>
    tx_locks x = {TableRow 1} \<and> answered out \<and>
    areach (serve_all sample_env sample_pair, sample_db)
      ([tx_stmt (tx_start x) (tx_failed x) (tx_aborted x), Done out], sample_db)"
proof -
  obtain x out where x: "lreach (map Outside (serve_all sample_env sample_pair), sample_db) ([Inside x, Outside (Done out)], sample_db)"
      "tx_locks x = {TableRow 1}"
    using sample_locks unfolding sample_pair_serve by blast
  from interleaved_transactions_refine [OF sample_db_ok sample_pair_ok(1) x(1)]
  have "answered out" "areach (serve_all sample_env sample_pair, sample_db)
      ([tx_stmt (tx_start x) (tx_failed x) (tx_aborted x), Done out], sample_db)" by simp_all
  with x show ?thesis by blast
qed

text \<open>Then it writes and commits, and both have succeeded.\<close>

theorem interleaved_requests_serialize_witness:
  "\<exists>ths d' order outs. lreach (map (\<lambda>(ca, req). Outside (handler sample_env ca None req)) sample_pair, sample_db) (ths, d') \<and>
    set order = {0, 1} \<and> length (d_log d') = 1 \<and>
    run_serial (map (\<lambda>i. case sample_pair ! i of (ca, req) \<Rightarrow> handler sample_env ca None req) order) sample_db = (outs, d')"
proof -
  obtain x out where x: "lreach (map (\<lambda>(ca, req). Outside (handler sample_env ca None req)) sample_pair, sample_db)
        ([Inside x, Outside (Done out)], sample_db)"
      "tx_rest x = map_txn (commit_answer [''a''] ''t'') (commit_body sample_writer 1700 sample_row)" "tx_writes x = []" "succeeded out"
    using sample_locks unfolding sample_pair_handlers by blast
  obtain loc m d1 where "commit_tx [''a''] ''t'' sample_writer 1700 sample_db = (Inr (Committed loc m), d1)"
    using sample_writer_commit by blast
  note c = commit_body_committed [OF this sample_table]
  define d' where "d' = sql_log_commit 1 loc (sql_update_table 1 loc (encode (GObj m)) (it_loc sample_row) sample_db)"
  let ?out = "commit_answer [''a''] ''t'' (Committed loc m)"
  have "lreach ([Inside x, Outside (Done out)], sample_db) ([Outside ?out, Outside (Done out)], d')"
    using writes_and_commits [of 0 "[Inside x, Outside (Done out)]" x 1 _ loc _ _ "Committed loc m"] x(2,3) c
    by (simp add: locked_by_others_two d'_def sample_row_def del: encode.simps)
  from lreach_trans [OF this x(1)] have r: "lreach (map (\<lambda>(ca, req). Outside (handler sample_env ca None req)) sample_pair, sample_db)
      ([Outside ?out, Outside (Done out)], d')" .
  have "0 \<le> lc_max_retries (cc_lock (en_catalog sample_env))" by (simp add: sample_env_def sample_retries)
  from interleaved_requests_serialize [OF sample_db_ok sample_pair_ok(1) this sample_pair_ok(2) r]
  obtain order outs where o: "set order = {i. i < length sample_pair \<and>
        (\<exists>out'. [Outside ?out, Outside (Done out)] ! i = Outside (Done out') \<and> succeeded out')}"
      "run_serial (map (\<lambda>i. case sample_pair ! i of (ca, req) \<Rightarrow> handler sample_env ca None req) order) sample_db = (outs, d')"
    by blast
  have "?out = Done (load_response loc m, [Metric ''table_commit'' [dotted [''a''], ''t'']])" by (simp add: commit_answer_def Let_def)
  then have "set order = {0, 1}"
    unfolding o(1) using x(4) by (cases out) (auto simp: sample_pair_def less_Suc_eq)
  moreover have "length (d_log d') = 1" by (simp add: d'_def sql_log_commit_def sql_update_table_def sample_db_def empty_db_def)
  ultimately show ?thesis using r o(2) by blast
qed

text \<open>A second table beside that of \<open>sample_db\<close>.\<close>

theorem transactions_deadlock_witness:
  "\<exists>d x y. catalog_ok d \<and> lreach
      ([Outside (CommitTransaction sample_cfg (Some [plain_change [''a''] ''t'' [], plain_change [''a''] ''u'' []])),
        Outside (CommitTransaction sample_cfg (Some [plain_change [''a''] ''u'' [], plain_change [''a''] ''t'' []]))], d)
      ([Inside x, Inside y], d) \<and> \<not> (\<exists>s. lmove ([Inside x, Inside y], d) s)"
proof -
  let ?q = "sample_row\<lparr>it_id := 2, it_name := ''u''\<rparr>"
  define d where "d = sample_db\<lparr>d_next := 3, d_tables := [sample_row, ?q]\<rparr>"
  have "sql_ns_id [''a''] d = Some 0" "find_key 0 ''t'' (d_tables d) = Some sample_row" "find_key 0 ''u'' (d_tables d) = Some ?q"
      "it_id sample_row \<noteq> it_id ?q"
    by (simp_all add: d_def sql_ns_id_def sql_namespace_def sample_db_def empty_db_def find_key_def sample_row_def)
  moreover have "load_meta (it_meta ?q) = load_meta (it_meta sample_row)" by simp
  moreover note sample_meta_row
  moreover have "catalog_ok d"
    using sample_db_ok
    by (simp add: d_def catalog_ok_def db_ok_def sample_db_def empty_db_def items_ok_def item_key_of_def)
      (simp add: sample_row_def)
  ultimately show ?thesis
    using transactions_deadlock [of "[''a'']" d 0 "''t''" sample_row "''u''" ?q _ _ sample_cfg "[]" "[]" "[]" "[]"] sample_retries by metis
qed

theorem single_commits_go_on_witness:
  "\<exists>x out s. lreach (map Outside (serve_all sample_env sample_pair), sample_db) ([Inside x, Outside (Done out)], sample_db) \<and>
    lmove ([Inside x, Outside (Done out)], sample_db) s"
proof -
  obtain x out where x: "lreach (map Outside (serve_all sample_env sample_pair), sample_db) ([Inside x, Outside (Done out)], sample_db)"
      "tx_start x = map_txn (commit_answer [''a''] ''t'') (commit_txn [''a''] ''t'' sample_writer 1700)"
    using sample_locks unfolding sample_pair_serve by blast
  have "\<forall>y. Inside y \<in> set [Inside x, Outside (Done out)] \<longrightarrow> single_item y" using x(2) by (auto simp: single_item_def)
  from single_commits_go_on [OF sample_db_ok sample_pair_ok(1) x(1) this, of "Inside x"]
  have "\<exists>s. lmove ([Inside x, Outside (Done out)], sample_db) s" by simp
  with x(1) show ?thesis by blast
qed

end
