(* ===== verification/Events.thy ===== *)
theory Events
  imports Keys
begin

text \<open>
  \<open>internal/events\<close> and \<open>internal/api/handlers/events.go\<close>: events, the broker with its subscriptions, the
  audit log, and the opening of an event stream.

  A channel is a number, the index of its buffer in the list of all channels made so far.  Sending to a
  closed channel and closing one twice panic: the operations that may do so return \<open>Inl\<close> with Go's text.
  \<open>Subscribe\<close>, \<open>unsubscribe\<close> and \<open>Close\<close> hold the broker's lock; publishers share it, so between the
  sends of one the sends of others, and receivers, may come: \<open>bstep\<close> is one such step.
\<close>

section \<open>Events\<close>

record catalog_event =
  ev_id :: string
  ev_type :: string
  ev_time :: int
  ev_namespace :: string
  ev_table :: string
  ev_view :: string
  ev_actor :: string
  ev_metadata :: "gobj option"

definition NewEvent :: "string \<Rightarrow> int \<Rightarrow> string \<Rightarrow> catalog_event" where
  "NewEvent uuid now ty =
     \<lparr>ev_id = uuid, ev_type = ty, ev_time = now, ev_namespace = [], ev_table = [], ev_view = [], ev_actor = [],
      ev_metadata = Some []\<rparr>"

definition WithNamespace :: "string \<Rightarrow> catalog_event \<Rightarrow> catalog_event" where
  "WithNamespace ns e = e\<lparr>ev_namespace := ns\<rparr>"

definition WithTable :: "string \<Rightarrow> catalog_event \<Rightarrow> catalog_event" where
  "WithTable t e = e\<lparr>ev_table := t\<rparr>"

definition WithView :: "string \<Rightarrow> catalog_event \<Rightarrow> catalog_event" where
  "WithView v e = e\<lparr>ev_view := v\<rparr>"

definition WithActor :: "string \<Rightarrow> catalog_event \<Rightarrow> catalog_event" where
  "WithActor a e = e\<lparr>ev_actor := a\<rparr>"

text \<open>Writing to a nil map panics.\<close>

definition WithMetadata :: "string \<Rightarrow> gval \<Rightarrow> catalog_event \<Rightarrow> string + catalog_event" where
  "WithMetadata key v e =
     (case ev_metadata e of
        None \<Rightarrow> Inl ''assignment to entry in nil map''
      | Some m \<Rightarrow> Inr (e\<lparr>ev_metadata := Some (mput m key v)\<rparr>))"

definition Topic :: "catalog_event \<Rightarrow> string" where
  "Topic e =
     (if ev_table e \<noteq> [] then ev_namespace e @ ''/'' @ ev_table e
      else if ev_view e \<noteq> [] then ev_namespace e @ ''/'' @ ev_view e
      else if ev_namespace e \<noteq> [] then ev_namespace e
      else ''*'')"

definition determineTopic :: "string \<Rightarrow> string \<Rightarrow> string" where
  "determineTopic ns tab =
     (if ns \<noteq> [] \<and> tab \<noteq> [] then ns @ ''/'' @ tab
      else if ns \<noteq> [] then ns else ''*'')"

section \<open>The broker\<close>

record channel =
  ch_queue :: "catalog_event list"
  ch_closed :: bool

record broker =
  br_subs :: "(string, nat list) gomap"
  br_chans :: "channel list"
  br_closed :: bool

definition bufferSize :: nat where
  "bufferSize = 16"

definition NewBroker :: broker where
  "NewBroker = \<lparr>br_subs = [], br_chans = [], br_closed = False\<rparr>"

text \<open>The channels subscribed to a topic.\<close>

definition subs_of :: "broker \<Rightarrow> string \<Rightarrow> nat list" where
  "subs_of b topic = (case mget (br_subs b) topic of None \<Rightarrow> [] | Some cs \<Rightarrow> cs)"

definition Subscribe :: "string \<Rightarrow> broker \<Rightarrow> nat option \<times> broker" where
  "Subscribe topic b =
     (if br_closed b then (None, b)
      else
        let ch = length (br_chans b) in
        (Some ch, b\<lparr>br_subs := mput (br_subs b) topic (subs_of b topic @ [ch]),
                    br_chans := br_chans b @ [\<lparr>ch_queue = [], ch_closed = False\<rparr>]\<rparr>))"

definition close_chan :: "nat \<Rightarrow> channel list \<Rightarrow> string + channel list" where
  "close_chan c cs =
     (if ch_closed (cs ! c) then Inl ''close of closed channel''
      else Inr (cs[c := (cs ! c)\<lparr>ch_closed := True\<rparr>]))"

fun close_all :: "nat list \<Rightarrow> channel list \<Rightarrow> string + channel list" where
  "close_all [] cs = Inr cs"
| "close_all (c # rest) cs = (case close_chan c cs of Inl p \<Rightarrow> Inl p | Inr cs' \<Rightarrow> close_all rest cs')"

definition unsubscribe :: "string \<Rightarrow> nat \<Rightarrow> broker \<Rightarrow> string + broker" where
  "unsubscribe topic ch b =
     (case mget (br_subs b) topic of
        None \<Rightarrow> Inr b
      | Some subs \<Rightarrow>
          (let cleaned = (\<lambda>subs' b'.
                 b'\<lparr>br_subs := (if subs' = [] then mdel (br_subs b') topic else mput (br_subs b') topic subs')\<rparr>)
           in if ch \<in> set subs
              then map_sum id (\<lambda>cs. cleaned (filter (\<lambda>c. c \<noteq> ch) subs) (b\<lparr>br_chans := cs\<rparr>))
                     (close_chan ch (br_chans b))
              else Inr (cleaned subs b)))"

text \<open>The channels \<open>Publish\<close> collects, and one non-blocking send.\<close>

definition matching :: "broker \<Rightarrow> catalog_event \<Rightarrow> nat list" where
  "matching b e =
     (let topic = Topic e; ns = ev_namespace e in
      subs_of b topic @
      (if ns \<noteq> [] \<and> topic \<noteq> ns then subs_of b ns else []) @
      subs_of b ''*'')"

definition send :: "catalog_event \<Rightarrow> nat \<Rightarrow> channel list \<Rightarrow> string + channel list" where
  "send e c cs =
     (if ch_closed (cs ! c) then Inl ''send on closed channel''
      else if length (ch_queue (cs ! c)) < bufferSize
      then Inr (cs[c := (cs ! c)\<lparr>ch_queue := ch_queue (cs ! c) @ [e]\<rparr>])
      else Inr cs)"

fun send_all :: "catalog_event \<Rightarrow> nat list \<Rightarrow> channel list \<Rightarrow> string + channel list" where
  "send_all e [] cs = Inr cs"
| "send_all e (c # rest) cs = (case send e c cs of Inl p \<Rightarrow> Inl p | Inr cs' \<Rightarrow> send_all e rest cs')"

definition Publish :: "catalog_event \<Rightarrow> broker \<Rightarrow> string + broker" where
  "Publish e b =
     (if br_closed b then Inr b
      else map_sum id (\<lambda>cs. b\<lparr>br_chans := cs\<rparr>) (send_all e (matching b e) (br_chans b)))"

definition CloseBroker :: "broker \<Rightarrow> string + broker" where
  "CloseBroker b =
     map_sum id (\<lambda>cs. b\<lparr>br_closed := True, br_subs := [], br_chans := cs\<rparr>)
       (close_all (concat (map snd (br_subs b))) (br_chans b))"

definition BrokerStats :: "broker \<Rightarrow> (string, int) gomap" where
  "BrokerStats b = map (map_prod id (\<lambda>cs. int (length cs))) (br_subs b)"

text \<open>\<open><-sub.Events()\<close> when it does not block: an event, or \<open>None\<close> for a closed and empty channel.\<close>

definition receive :: "nat \<Rightarrow> channel list \<Rightarrow> (catalog_event option \<times> channel list) option" where
  "receive c cs =
     (case ch_queue (cs ! c) of
        e # es \<Rightarrow> Some (Some e, cs[c := (cs ! c)\<lparr>ch_queue := es\<rparr>])
      | [] \<Rightarrow> if ch_closed (cs ! c) then Some (None, cs) else None)"

section \<open>The audit log\<close>

record audit_event =
  ae_event :: catalog_event
  ae_actor_type :: string
  ae_ip :: string
  ae_agent :: string
  ae_request :: string
  ae_code :: int

definition NewAuditEvent :: "catalog_event \<Rightarrow> audit_event" where
  "NewAuditEvent e =
     \<lparr>ae_event = e, ae_actor_type = ''anonymous'', ae_ip = [], ae_agent = [], ae_request = [], ae_code = 0\<rparr>"

definition WithActorType :: "string \<Rightarrow> audit_event \<Rightarrow> audit_event" where
  "WithActorType actor a = a\<lparr>ae_actor_type := actor\<rparr>"

definition WithIPAddress :: "string \<Rightarrow> audit_event \<Rightarrow> audit_event" where
  "WithIPAddress ip a = a\<lparr>ae_ip := ip\<rparr>"

definition WithUserAgent :: "string \<Rightarrow> audit_event \<Rightarrow> audit_event" where
  "WithUserAgent agent a = a\<lparr>ae_agent := agent\<rparr>"

definition WithRequestID :: "string \<Rightarrow> audit_event \<Rightarrow> audit_event" where
  "WithRequestID i a = a\<lparr>ae_request := i\<rparr>"

definition WithResponseCode :: "int \<Rightarrow> audit_event \<Rightarrow> audit_event" where
  "WithResponseCode code a = a\<lparr>ae_code := code\<rparr>"

definition nullIfEmpty :: "string \<Rightarrow> string option" where
  "nullIfEmpty s = (if s = [] then None else Some s)"

definition nullIfZero :: "int \<Rightarrow> int option" where
  "nullIfZero i = (if i = 0 then None else Some i)"

definition audit_row_of :: "audit_event \<Rightarrow> audit_row" where
  "audit_row_of a =
     (let e = ae_event a in
      \<lparr>au_type = ev_type e, au_id = ev_id e, au_time = to_us (ev_time e),
       au_namespace = nullIfEmpty (ev_namespace e), au_table = nullIfEmpty (ev_table e),
       au_view = nullIfEmpty (ev_view e), au_actor = ev_actor e, au_actor_type = ae_actor_type a,
       au_ip = nullIfEmpty (ae_ip a), au_agent = nullIfEmpty (ae_agent a), au_request = nullIfEmpty (ae_request a),
       au_code = nullIfZero (ae_code a),
       au_metadata = (case ev_metadata e of None \<Rightarrow> JNull | Some m \<Rightarrow> encode (GObj m))\<rparr>)"

text \<open>\<open>AuditLogger.Log\<close>: it ends with the event it publishes, if it has a broker, and never with an error.\<close>

definition Log :: "bool \<Rightarrow> bool \<Rightarrow> audit_event \<Rightarrow> catalog_event option prog" where
  "Log enabled has_broker a =
     (let publish = Done (if has_broker then Some (ae_event a) else None) in
      if \<not> enabled then publish
      else exec (\<lambda>d. Inr ((), d\<lparr>d_audit := d_audit d @ [audit_row_of a]\<rparr>)) (\<lambda>e. publish) (\<lambda>_. publish))"

section \<open>Opening a stream\<close>

text \<open>\<open>authenticateWebSocket\<close>: \<open>None\<close> for a client let in, or the code of the message it gets.\<close>

definition authenticateWebSocket ::
    "(string \<Rightarrow> string) \<Rightarrow> int \<Rightarrow> string \<Rightarrow> (int option \<Rightarrow> 'r prog) \<Rightarrow> 'r prog" where
  "authenticateWebSocket H now token k =
     (if token = [] then k (Some 401)
      else
        let tok = trim_prefix ''Bearer '' (trim_prefix ''Bearer_'' token);
            oauth = query (\<lambda>d. sql_token (H tok) (to_us now) d \<noteq> None) (\<lambda>e. k (Some 403))
              (\<lambda>found. if found then k None else k (Some 403))
        in query (\<lambda>d. list_ex (\<lambda>r. kr_hash r = H tok \<and>
                     (case kr_expires r of None \<Rightarrow> True | Some e \<Rightarrow> to_us now < e)) (d_keys d))
             (\<lambda>e. oauth) (\<lambda>found. if found then k None else oauth))"

text \<open>\<open>EventStream\<close> up to its loop: the code sent to a client not let in, or the topic it subscribes to.\<close>

definition EventStream ::
    "auth_config \<Rightarrow> (string \<Rightarrow> string) \<Rightarrow> int \<Rightarrow> string \<Rightarrow> string \<Rightarrow> string \<Rightarrow> (int + string) prog" where
  "EventStream cfg H now token ns tab =
     (let go = Done (Inr (determineTopic ns tab)) in
      if au_enabled cfg
      then authenticateWebSocket H now token (\<lambda>r. case r of Some code \<Rightarrow> Done (Inl code) | None \<Rightarrow> go)
      else go)"

section \<open>The broker at work\<close>

text \<open>The broker and its publishers at work: the events being sent, with the channels still to send to.\<close>

type_synonym bstate = "broker \<times> (catalog_event \<times> nat list) list"

definition lift_broker :: "string + broker \<Rightarrow> (catalog_event \<times> nat list) list \<Rightarrow> string + bstate" where
  "lift_broker r ps = map_sum id (\<lambda>b. (b, ps)) r"

inductive bstep :: "bstate \<Rightarrow> string + bstate \<Rightarrow> bool" where
  subscribe: "bstep (b, []) (Inr (snd (Subscribe topic b), []))"
| unsubscribe: "bstep (b, []) (lift_broker (unsubscribe topic ch b) [])"
| close: "bstep (b, []) (lift_broker (CloseBroker b) [])"
| publish: "\<not> br_closed b \<Longrightarrow> bstep (b, ps) (Inr (b, ps @ [(e, matching b e)]))"
| sending: "bstep (b, ps @ (e, c # cs) # qs)
    (map_sum id (\<lambda>chs. (b\<lparr>br_chans := chs\<rparr>, ps @ (e, cs) # qs)) (send e c (br_chans b)))"
| sent: "bstep (b, ps @ (e, []) # qs) (Inr (b, ps @ qs))"
| receive: "receive c (br_chans b) = Some (r, chs) \<Longrightarrow> c < length (br_chans b) \<Longrightarrow>
    bstep (b, ps) (Inr (b\<lparr>br_chans := chs\<rparr>, ps))"

inductive breach :: "bstate \<Rightarrow> bool" where
  start: "breach (NewBroker, [])"
| more: "breach s \<Longrightarrow> bstep s (Inr s') \<Longrightarrow> breach s'"

section \<open>The invariant of the broker\<close>

definition open_in :: "channel list \<Rightarrow> nat \<Rightarrow> bool" where
  "open_in cs c \<longleftrightarrow> c < length cs \<and> \<not> ch_closed (cs ! c)"

abbreviation open_chan :: "broker \<Rightarrow> nat \<Rightarrow> bool" where
  "open_chan b \<equiv> open_in (br_chans b)"

definition broker_ok :: "broker \<Rightarrow> bool" where
  "broker_ok b \<longleftrightarrow>
     wf_gomap (br_subs b) \<and> (\<forall>t. distinct (subs_of b t)) \<and>
     (\<forall>t t' c. c \<in> set (subs_of b t) \<longrightarrow> c \<in> set (subs_of b t') \<longrightarrow> t = t') \<and>
     (\<forall>t. \<forall>c \<in> set (subs_of b t). open_chan b c) \<and>
     (\<forall>ch \<in> set (br_chans b). length (ch_queue ch) \<le> bufferSize) \<and>
     (br_closed b \<longrightarrow> br_subs b = [])"

definition bstate_ok :: "bstate \<Rightarrow> bool" where
  "bstate_ok s \<longleftrightarrow> broker_ok (fst s) \<and> (\<forall>(e, cs) \<in> set (snd s). \<forall>c \<in> set cs. open_chan (fst s) c)"

lemma subs_of_simps [simp]:
  "subs_of (b\<lparr>br_subs := S, br_chans := cs\<rparr>) t = subs_of (b\<lparr>br_subs := S\<rparr>) t"
  "subs_of (b\<lparr>br_chans := cs\<rparr>) t = subs_of b t" "subs_of (b\<lparr>br_closed := x\<rparr>) t = subs_of b t"
  "subs_of (b\<lparr>br_subs := []\<rparr>) t = []"
  "subs_of (b\<lparr>br_subs := mput (br_subs b') t' xs\<rparr>) t = (if t = t' then xs else subs_of b' t)"
  "subs_of (b\<lparr>br_subs := mdel (br_subs b') t'\<rparr>) t = (if t = t' then [] else subs_of b' t)"
  by (simp_all add: subs_of_def)

text \<open>Sending keeps every channel open or closed as it is, and the buffers in their bounds.\<close>

definition same_shape :: "channel list \<Rightarrow> channel list \<Rightarrow> bool" where
  "same_shape cs cs' \<longleftrightarrow> map ch_closed cs' = map ch_closed cs \<and>
     ((\<forall>ch \<in> set cs. length (ch_queue ch) \<le> bufferSize) \<longrightarrow> (\<forall>ch \<in> set cs'. length (ch_queue ch) \<le> bufferSize))"

lemma same_shape_nth: "same_shape cs cs' \<Longrightarrow> length cs' = length cs \<and> (c < length cs \<longrightarrow> ch_closed (cs' ! c) = ch_closed (cs ! c))"
  unfolding same_shape_def by (metis length_map nth_map)

lemma same_shape_upd:
  assumes "ch_closed x = ch_closed (cs ! c)" "length (ch_queue x) \<le> bufferSize" "c < length cs"
  shows "same_shape cs (cs[c := x])"
proof -
  have "map ch_closed (cs[c := x]) = map ch_closed cs"
    using assms(1,3) by (simp add: map_update list_update_same_conv)
  with assms(2) show ?thesis by (auto simp: same_shape_def dest!: set_update_subset_insert [THEN subsetD])
qed

lemma same_shape_refl [simp]: "same_shape cs cs" by (simp add: same_shape_def)

lemma same_shape_trans: "same_shape a b \<Longrightarrow> same_shape b c \<Longrightarrow> same_shape a c" by (simp add: same_shape_def)

lemma send_open:
  assumes "c < length cs" "\<not> ch_closed (cs ! c)"
  shows "\<exists>cs'. send e c cs = Inr cs' \<and> same_shape cs cs'"
  using assms same_shape_upd [of "(cs ! c)\<lparr>ch_queue := ch_queue (cs ! c) @ [e]\<rparr>" cs c]
  by (auto simp: send_def)

lemma broker_ok_shape:
  assumes "broker_ok b" "same_shape (br_chans b) cs"
  shows "broker_ok (b\<lparr>br_chans := cs\<rparr>)" "open_chan b c \<Longrightarrow> open_chan (b\<lparr>br_chans := cs\<rparr>) c"
proof -
  show o: "open_chan b c \<Longrightarrow> open_chan (b\<lparr>br_chans := cs\<rparr>) c" for c
    using same_shape_nth [OF assms(2), of c] by (auto simp: open_in_def)
  show "broker_ok (b\<lparr>br_chans := cs\<rparr>)"
    using assms o by (simp add: broker_ok_def same_shape_def)
qed

lemma matching_open: "broker_ok b \<Longrightarrow> c \<in> set (matching b e) \<Longrightarrow> open_chan b c"
  by (auto simp: matching_def Let_def broker_ok_def split: if_splits)

lemma distinct_concat_subs:
  "wf_gomap m \<Longrightarrow> (\<And>t cs. (t, cs) \<in> set m \<Longrightarrow> distinct cs) \<Longrightarrow>
   (\<And>t cs t' cs'. (t, cs) \<in> set m \<Longrightarrow> (t', cs') \<in> set m \<Longrightarrow> t \<noteq> t' \<Longrightarrow> set cs \<inter> set cs' = {}) \<Longrightarrow>
   distinct (concat (map snd m))"
proof (induction m)
  case (Cons x m)
  obtain t cs where x: "x = (t, cs)" by (cases x)
  have "set cs \<inter> set cs' = {}" if "(t', cs') \<in> set m" for t' cs'
    using Cons.prems(1) that by (intro Cons.prems(3) [of t cs t']) (auto simp: x wf_gomap_def mkeys_def image_iff)
  moreover have "distinct (concat (map snd m))"
  proof (rule Cons.IH)
    show "wf_gomap m" using Cons.prems(1) by (simp add: wf_gomap_def mkeys_def)
  qed (use Cons.prems(2,3) in \<open>blast intro: list.set_intros\<close>)+
  ultimately show ?case using Cons.prems(2) [of t cs] by (fastforce simp: x)
qed simp

lemma close_all_open:
  "distinct xs \<Longrightarrow> \<forall>c \<in> set xs. c < length cs \<and> \<not> ch_closed (cs ! c) \<Longrightarrow>
   \<exists>cs'. close_all xs cs = Inr cs' \<and> map ch_queue cs' = map ch_queue cs"
proof (induction xs arbitrary: cs)
  case (Cons c xs)
  then have "close_chan c cs = Inr (cs[c := (cs ! c)\<lparr>ch_closed := True\<rparr>])" by (simp add: close_chan_def)
  moreover have "map ch_queue (cs[c := (cs ! c)\<lparr>ch_closed := True\<rparr>]) = map ch_queue cs"
    using Cons.prems by (simp add: map_update list_update_same_conv)
  moreover have "\<exists>cs'. close_all xs (cs[c := (cs ! c)\<lparr>ch_closed := True\<rparr>]) = Inr cs' \<and>
      map ch_queue cs' = map ch_queue (cs[c := (cs ! c)\<lparr>ch_closed := True\<rparr>])"
    using Cons.prems by (intro Cons.IH) (auto simp: nth_list_update)
  ultimately show ?case by simp
qed simp

lemma queue_bound: "(\<forall>ch \<in> set cs. length (ch_queue ch) \<le> n) \<longleftrightarrow> (\<forall>q \<in> set (map ch_queue cs). length q \<le> n)"
  by simp

lemma broker_ok_new: "broker_ok NewBroker"
  by (simp add: broker_ok_def NewBroker_def subs_of_def)

lemma broker_ok_Subscribe: "broker_ok b \<Longrightarrow> broker_ok (snd (Subscribe topic b))"
proof -
  assume ok: "broker_ok b"
  let ?b = "snd (Subscribe topic b)" and ?n = "length (br_chans b)"
  have fresh: "?n \<notin> set (subs_of b t)" for t using ok by (auto simp: broker_ok_def open_in_def)
  have o: "open_chan b c \<Longrightarrow> open_chan (b\<lparr>br_chans := br_chans b @ [x]\<rparr>) c" for c x
    by (simp add: open_in_def nth_append)
  have n: "open_chan (b\<lparr>br_chans := br_chans b @ [\<lparr>ch_queue = [], ch_closed = False\<rparr>]\<rparr>) ?n"
    by (simp add: open_in_def)
  show ?thesis
  proof (cases "br_closed b")
    case False
    with ok fresh o n show ?thesis
      unfolding Subscribe_def broker_ok_def Let_def by (auto simp: bufferSize_def) 
  qed (use ok in \<open>simp add: Subscribe_def\<close>)
qed

lemma broker_ok_unsubscribe:
  assumes "broker_ok b"
  shows "\<exists>b'. unsubscribe topic ch b = Inr b' \<and> broker_ok b'"
proof (cases "mget (br_subs b) topic")
  case None
  with assms show ?thesis by (simp add: unsubscribe_def)
next
  case (Some subs)
  then have subs: "subs_of b topic = subs" by (simp add: subs_of_def)
  have open_br: "\<not> br_closed b" using assms Some by (auto simp: broker_ok_def)
  show ?thesis
  proof (cases "ch \<in> set subs")
    case False
    with Some assms subs open_br show ?thesis
      by (auto simp: unsubscribe_def broker_ok_def split: if_splits)
  next
    case True
    with assms subs have o: "open_chan b ch" by (auto simp: broker_ok_def)
    let ?cs = "(br_chans b)[ch := (br_chans b ! ch)\<lparr>ch_closed := True\<rparr>]"
    have c: "close_chan ch (br_chans b) = Inr ?cs" using o by (simp add: close_chan_def open_in_def)
    have "map ch_queue ?cs = map ch_queue (br_chans b)"
      using o by (simp add: map_update list_update_same_conv open_in_def)
    then have q: "\<forall>x \<in> set ?cs. length (ch_queue x) \<le> bufferSize"
      using assms unfolding broker_ok_def queue_bound by simp
    have other: "open_chan (b\<lparr>br_chans := ?cs\<rparr>) d" if "open_chan b d" "d \<noteq> ch" for d
      using that by (auto simp: open_in_def)
    have "ch \<notin> set (subs_of b t)" if "t \<noteq> topic" for t
      using True that assms subs by (auto simp: broker_ok_def)
    then have rest: "open_in ?cs d" if "t \<noteq> topic" "d \<in> set (subs_of b t)" for t d
      using that assms other [of d] by (auto simp: broker_ok_def)
    have "open_in ?cs d" if "d \<noteq> ch" "d \<in> set (subs_of b topic)" for d
      using that assms other [of d] by (auto simp: broker_ok_def)
    with Some True c q rest assms subs open_br show ?thesis
      by (auto simp: unsubscribe_def broker_ok_def Let_def)
  qed
qed

lemma broker_ok_Close:
  assumes "broker_ok b"
  shows "\<exists>b'. CloseBroker b = Inr b' \<and> broker_ok b'"
proof -
  have in_subs: "(t, cs) \<in> set (br_subs b) \<Longrightarrow> cs = subs_of b t" for t cs
    using assms by (simp add: broker_ok_def subs_of_def mget_in_set [symmetric])
  have "distinct (concat (map snd (br_subs b)))"
    by (rule distinct_concat_subs) (use assms in_subs in \<open>auto simp: broker_ok_def\<close>)
  moreover have "\<forall>c \<in> set (concat (map snd (br_subs b))). open_chan b c"
    using assms in_subs by (fastforce simp: broker_ok_def)
  ultimately obtain cs where cs: "close_all (concat (map snd (br_subs b))) (br_chans b) = Inr cs"
      "map ch_queue cs = map ch_queue (br_chans b)"
    using close_all_open [of "concat (map snd (br_subs b))" "br_chans b"] by (auto simp: open_in_def)
  have "\<forall>x \<in> set cs. length (ch_queue x) \<le> bufferSize"
    using assms unfolding broker_ok_def queue_bound cs(2) by simp
  with cs show ?thesis by (simp add: CloseBroker_def broker_ok_def)
qed

lemma send_in_state:
  assumes "broker_ok b" "open_chan b c"
  shows "\<exists>cs. send e c (br_chans b) = Inr cs \<and> broker_ok (b\<lparr>br_chans := cs\<rparr>) \<and> (\<forall>d. open_chan b d \<longrightarrow> open_in cs d)"
proof -
  obtain cs where cs: "send e c (br_chans b) = Inr cs" "same_shape (br_chans b) cs"
    using send_open [of c "br_chans b" e] assms(2) by (auto simp: open_in_def)
  with broker_ok_shape [OF assms(1) cs(2)] show ?thesis by auto
qed

lemma receive_in_state:
  assumes "broker_ok b" "receive c (br_chans b) = Some (r, cs)" "c < length (br_chans b)"
  shows "broker_ok (b\<lparr>br_chans := cs\<rparr>) \<and> (\<forall>d. open_chan b d \<longrightarrow> open_in cs d)"
proof -
  have "same_shape (br_chans b) cs"
  proof (cases "ch_queue (br_chans b ! c)")
    case (Cons e es)
    have "length (ch_queue (br_chans b ! c)) \<le> bufferSize" using assms(1,3) by (auto simp: broker_ok_def)
    with Cons have "length es \<le> bufferSize" by simp
    with Cons assms(2,3) show ?thesis by (auto simp: receive_def intro!: same_shape_upd)
  qed (use assms(2) in \<open>auto simp: receive_def split: if_splits\<close>)
  with broker_ok_shape [OF assms(1)] show ?thesis by auto
qed

text \<open>Every step of the broker goes well and keeps the invariant.\<close>

lemma bstep_ok:
  assumes "bstep s r" "bstate_ok s"
  shows "\<exists>s'. r = Inr s' \<and> bstate_ok s'"
  using assms
proof (cases rule: bstep.cases)
  case (subscribe b topic)
  with assms(2) show ?thesis by (simp add: bstate_ok_def broker_ok_Subscribe)
next
  case (unsubscribe b topic ch)
  with assms(2) obtain b' where "Events.unsubscribe topic ch b = Inr b'" "broker_ok b'"
    using broker_ok_unsubscribe [of b topic ch] by (auto simp: bstate_ok_def)
  with unsubscribe show ?thesis by (simp add: lift_broker_def bstate_ok_def)
next
  case (close b)
  with assms(2) obtain b' where "CloseBroker b = Inr b'" "broker_ok b'"
    using broker_ok_Close [of b] by (auto simp: bstate_ok_def)
  with close show ?thesis by (simp add: lift_broker_def bstate_ok_def)
next
  case (publish b ps e)
  with assms(2) show ?thesis using matching_open [of b _ e] by (auto simp: bstate_ok_def)
next
  case (sending b ps e c cs qs)
  with assms(2) have "broker_ok b" "open_chan b c" by (auto simp: bstate_ok_def)
  from send_in_state [OF this, of e] assms(2) sending show ?thesis by (fastforce simp: bstate_ok_def)
next
  case (sent b ps e qs)
  with assms(2) show ?thesis by (auto simp: bstate_ok_def)
next
  case (receive c b r chs ps)
  with assms(2) receive_in_state [of b c r chs] show ?thesis by (auto simp: bstate_ok_def)
qed

lemma breach_ok: "breach s \<Longrightarrow> bstate_ok s"
proof (induction rule: breach.induct)
  case start
  show ?case by (simp add: bstate_ok_def broker_ok_new)
next
  case (more s s')
  then show ?case using bstep_ok [of s "Inr s'"] by auto
qed

text \<open>C32: however subscribers come and go, events are published (also at the same time), read, and the
  broker is closed: no operation of the broker panics, since a channel that is subscribed to or still to be
  sent to is open; no subscriber has more than 16 events waiting; and no operation blocks, a publisher's
  next send is always possible.\<close>

theorem broker_never_panics:
  assumes "breach (b, ps)"
  shows "\<not> bstep (b, ps) (Inl msg) \<and> (\<forall>ch \<in> set (br_chans b). length (ch_queue ch) \<le> 16) \<and>
    (\<forall>t. \<forall>c \<in> set (subs_of b t). c < length (br_chans b) \<and> \<not> ch_closed (br_chans b ! c)) \<and>
    (br_closed b \<longrightarrow> br_subs b = []) \<and>
    (ps \<noteq> [] \<longrightarrow> (\<exists>s'. bstep (b, ps) (Inr s') \<and> s' \<noteq> (b, ps)))"
proof (intro conjI)
  have ok: "bstate_ok (b, ps)" by (rule breach_ok [OF assms])
  then show "\<not> bstep (b, ps) (Inl msg)" using bstep_ok by fastforce
  from ok show "\<forall>ch \<in> set (br_chans b). length (ch_queue ch) \<le> 16"
    "\<forall>t. \<forall>c \<in> set (subs_of b t). c < length (br_chans b) \<and> \<not> ch_closed (br_chans b ! c)"
    "br_closed b \<longrightarrow> br_subs b = []"
    by (auto simp: bstate_ok_def broker_ok_def bufferSize_def open_in_def)
  show "ps \<noteq> [] \<longrightarrow> (\<exists>s'. bstep (b, ps) (Inr s') \<and> s' \<noteq> (b, ps))"
  proof
    assume "ps \<noteq> []"
    then obtain e cs qs where ps: "ps = (e, cs) # qs" by (cases ps) auto
    show "\<exists>s'. bstep (b, ps) (Inr s') \<and> s' \<noteq> (b, ps)"
    proof (cases cs)
      case Nil
      with sent [of b "[]" e qs] ps show ?thesis by (intro exI [of _ "(b, qs)"]) simp
    next
      case (Cons c rest)
      with ok ps obtain chs where "send e c (br_chans b) = Inr chs"
        using send_in_state [of b c e] by (auto simp: bstate_ok_def)
      with sending [of b "[]" e c rest qs] Cons ps show ?thesis
        by (intro exI [of _ "(b\<lparr>br_chans := chs\<rparr>, (e, rest) # qs)"]) simp
    qed
  qed
qed

theorem broker_never_panics_witness:
  "\<not> bstep (snd (Subscribe ''*'' NewBroker), [(NewEvent ''u'' 0 ''t'', matching (snd (Subscribe ''*'' NewBroker)) (NewEvent ''u'' 0 ''t''))]) (Inl ''send on closed channel'')"
proof -
  have "breach (snd (Subscribe ''*'' NewBroker), [])" by (rule breach.more [OF breach.start bstep.subscribe])
  moreover have "\<not> br_closed (snd (Subscribe ''*'' NewBroker))" by (simp add: Subscribe_def NewBroker_def)
  ultimately have "breach (snd (Subscribe ''*'' NewBroker), [] @ [(NewEvent ''u'' 0 ''t'', matching (snd (Subscribe ''*'' NewBroker)) (NewEvent ''u'' 0 ''t''))])"
    by (blast intro: breach.more bstep.publish)
  from broker_never_panics [OF this [simplified append_Nil]] show ?thesis by blast
qed

section \<open>Delivery\<close>

text \<open>How many copies of an event a subscriber to a topic is sent.\<close>

definition copies :: "string \<Rightarrow> catalog_event \<Rightarrow> nat" where
  "copies topic e =
     of_bool (topic = Topic e) + of_bool (ev_namespace e \<noteq> [] \<and> topic \<noteq> Topic e \<and> topic = ev_namespace e) +
     of_bool (topic = ''*'')"

lemma count_distinct: "distinct xs \<Longrightarrow> x \<in> set xs \<Longrightarrow> count_list xs x = 1"
  by (induction xs) auto

lemma count_subs:
  assumes "broker_ok b" "c \<in> set (subs_of b t)"
  shows "count_list (subs_of b t') c = of_bool (t' = t)"
proof (cases "t' = t")
  case True
  with assms show ?thesis by (simp add: broker_ok_def count_distinct)
next
  case False
  with assms have "c \<notin> set (subs_of b t')" by (auto simp: broker_ok_def)
  with False show ?thesis by (simp add: count_list_0_iff)
qed

lemma count_matching:
  "broker_ok b \<Longrightarrow> c \<in> set (subs_of b t) \<Longrightarrow> count_list (matching b e) c = copies t e"
  by (auto simp: matching_def Let_def count_subs copies_def)

lemma send_queue:
  assumes "c < length cs" "\<not> ch_closed (cs ! c)" "length (ch_queue (cs ! d)) \<le> bufferSize" "d < length cs"
  shows "\<exists>cs'. send e c cs = Inr cs' \<and> map ch_closed cs' = map ch_closed cs \<and>
    ch_queue (cs' ! d) = ch_queue (cs ! d) @ replicate (min (of_bool (c = d)) (bufferSize - length (ch_queue (cs ! d)))) e"
  using assms by (auto simp: send_def map_update list_update_same_conv nth_list_update)

lemma send_all_queue:
  assumes "\<forall>c \<in> set xs. open_in cs c" "length (ch_queue (cs ! d)) \<le> bufferSize" "d < length cs"
  shows "\<exists>cs'. send_all e xs cs = Inr cs' \<and> map ch_closed cs' = map ch_closed cs \<and>
    ch_queue (cs' ! d) = ch_queue (cs ! d) @ replicate (min (count_list xs d) (bufferSize - length (ch_queue (cs ! d)))) e"
  using assms
proof (induction xs arbitrary: cs)
  case (Cons c xs)
  then obtain cs1 where cs1: "send e c cs = Inr cs1" "map ch_closed cs1 = map ch_closed cs"
      "ch_queue (cs1 ! d) = ch_queue (cs ! d) @ replicate (min (of_bool (c = d)) (bufferSize - length (ch_queue (cs ! d)))) e"
    using send_queue [of c cs d e] by (auto simp: open_in_def)
  have len: "length cs1 = length cs" using cs1(2) by (metis length_map)
  have "open_in cs1 c' = open_in cs c'" for c'
    unfolding open_in_def using cs1(2) len by (metis nth_map)
  then have "\<forall>c \<in> set xs. open_in cs1 c" using Cons.prems(1) by simp
  moreover have "length (ch_queue (cs1 ! d)) \<le> bufferSize" using Cons.prems(2) by (simp add: cs1(3))
  moreover have "d < length cs1" using Cons.prems(3) len by simp
  ultimately obtain cs2 where cs2: "send_all e xs cs1 = Inr cs2" "map ch_closed cs2 = map ch_closed cs1"
      "ch_queue (cs2 ! d) = ch_queue (cs1 ! d) @ replicate (min (count_list xs d) (bufferSize - length (ch_queue (cs1 ! d)))) e"
    using Cons.IH [of cs1] by blast
  let ?q = "length (ch_queue (cs ! d))"
  have "min (of_bool (c = d)) (bufferSize - ?q) + min (count_list xs d) (bufferSize - (?q + min (of_bool (c = d)) (bufferSize - ?q))) =
      min (count_list (c # xs) d) (bufferSize - ?q)"
    by auto
  with cs1 cs2 show ?case by (simp flip: replicate_add)
qed simp

text \<open>C33: delivery.  On an open broker \<open>Publish\<close> appends the event to the buffer of each subscriber to its
  topic, to its namespace or to \<open>*\<close>, as long as there is room, drops what does not fit, and leaves the
  buffers of all others alone.  A subscriber gets one copy, except that subscribers to \<open>*\<close> get two
  of an event whose topic or namespace is \<open>*\<close>, as that of an event without a namespace is.\<close>

theorem Publish_delivers:
  assumes "breach (b, ps)" "\<not> br_closed b"
  shows "\<exists>b'. Publish e b = Inr b' \<and> br_subs b' = br_subs b \<and>
    (\<forall>topic. \<forall>c \<in> set (subs_of b topic). ch_queue (br_chans b' ! c) = ch_queue (br_chans b ! c) @
        replicate (min (copies topic e) (16 - length (ch_queue (br_chans b ! c)))) e) \<and>
    (\<forall>c < length (br_chans b). (\<forall>topic. c \<notin> set (subs_of b topic)) \<longrightarrow>
        ch_queue (br_chans b' ! c) = ch_queue (br_chans b ! c)) \<and>
    (copies topic e = (if topic = ''*'' \<and> (Topic e = ''*'' \<or> ev_namespace e = ''*'') then 2
       else if topic \<in> {Topic e, ''*''} \<or> topic = ev_namespace e \<and> topic \<noteq> [] then 1 else 0))"
proof -
  have ok: "broker_ok b" using breach_ok [OF assms(1)] by (simp add: bstate_ok_def)
  have queue: "length (ch_queue (br_chans b ! c)) \<le> bufferSize" if "c < length (br_chans b)" for c
    using ok that by (simp add: broker_ok_def)
  have open_all: "\<forall>c \<in> set (matching b e). open_chan b c" using matching_open [OF ok] by blast
  have sent: "\<exists>cs. send_all e (matching b e) (br_chans b) = Inr cs \<and> ch_queue (cs ! c) = ch_queue (br_chans b ! c) @
      replicate (min (count_list (matching b e) c) (16 - length (ch_queue (br_chans b ! c)))) e"
    if "c < length (br_chans b)" for c
    using send_all_queue [OF open_all queue [OF that] that] by (auto simp: bufferSize_def)
  have "\<exists>cs. send_all e xs cs0 = Inr cs" if "\<forall>c \<in> set xs. open_in cs0 c" for xs cs0
    using that
  proof (induction xs arbitrary: cs0)
    case (Cons c xs)
    then obtain cs1 where "send e c cs0 = Inr cs1" "same_shape cs0 cs1"
      using send_open [of c cs0 e] by (auto simp: open_in_def)
    with Cons show ?case using same_shape_nth [of cs0 cs1] by (auto simp: open_in_def)
  qed simp
  from this [OF open_all] obtain cs where cs: "send_all e (matching b e) (br_chans b) = Inr cs" by blast
  have new: "ch_queue (cs ! c) = ch_queue (br_chans b ! c) @
      replicate (min (count_list (matching b e) c) (16 - length (ch_queue (br_chans b ! c)))) e"
    if "c < length (br_chans b)" for c
    using sent [OF that] cs by auto
  have sub: "c < length (br_chans b)" if "c \<in> set (subs_of b t)" for c t
    using ok that by (auto simp: broker_ok_def open_in_def)
  have none: "count_list (matching b e) c = 0" if "\<forall>t. c \<notin> set (subs_of b t)" for c
    using that by (auto simp: matching_def Let_def count_list_0_iff)
  have "Topic e \<noteq> []" by (auto simp: Topic_def)
  then have "copies topic e = (if topic = ''*'' \<and> (Topic e = ''*'' \<or> ev_namespace e = ''*'') then 2
       else if topic \<in> {Topic e, ''*''} \<or> topic = ev_namespace e \<and> topic \<noteq> [] then 1 else 0)"
    by (auto simp: copies_def)
  with assms(2) cs new sub none show ?thesis
    by (intro exI [of _ "b\<lparr>br_chans := cs\<rparr>"]) (auto simp: Publish_def count_matching [OF ok])
qed

theorem Publish_delivers_witness:
  "\<exists>b'. Publish (NewEvent ''u'' 0 ''t'') (snd (Subscribe ''*'' NewBroker)) = Inr b' \<and>
     ch_queue (br_chans b' ! 0) = [NewEvent ''u'' 0 ''t'', NewEvent ''u'' 0 ''t'']"
proof -
  have r: "breach (snd (Subscribe ''*'' NewBroker), [])" by (rule breach.more [OF breach.start bstep.subscribe])
  have c: "\<not> br_closed (snd (Subscribe ''*'' NewBroker))" by (simp add: Subscribe_def NewBroker_def)
  have "0 \<in> set (subs_of (snd (Subscribe ''*'' NewBroker)) ''*'')"
    by (simp add: Subscribe_def NewBroker_def subs_of_def mput_def mget_def)
  moreover have "copies ''*'' (NewEvent ''u'' 0 ''t'') = 2" by (simp add: copies_def NewEvent_def Topic_def)
  moreover have "ch_queue (br_chans (snd (Subscribe ''*'' NewBroker)) ! 0) = []" by (simp add: Subscribe_def NewBroker_def)
  ultimately show ?thesis using Publish_delivers [OF r c, of "NewEvent ''u'' 0 ''t''" "''*''"]
    by (fastforce simp: numeral_2_eq_2)
qed

end
