(* ===== verification/Announce.thy ===== *)
theory Announce
  imports Events Catalog
begin

text \<open>
  \<open>internal/events/types.go\<close>: the types of events, and what the requests of the catalog publish of them.
\<close>

datatype event_type =
    NamespaceCreated | NamespaceUpdated | NamespaceDropped
  | TableCreated | TableUpdated | TableDropped | TableRenamed | TableCommitted
  | ViewCreated | ViewReplaced | ViewDropped | ViewRenamed
  | TransactionCommitted | TransactionFailed
  | ScanPlanSubmitted | ScanPlanCompleted | ScanPlanCancelled

primrec event_type_text :: "event_type \<Rightarrow> string" where
  "event_type_text NamespaceCreated = ''namespace.created''"
| "event_type_text NamespaceUpdated = ''namespace.updated''"
| "event_type_text NamespaceDropped = ''namespace.dropped''"
| "event_type_text TableCreated = ''table.created''"
| "event_type_text TableUpdated = ''table.updated''"
| "event_type_text TableDropped = ''table.dropped''"
| "event_type_text TableRenamed = ''table.renamed''"
| "event_type_text TableCommitted = ''table.committed''"
| "event_type_text ViewCreated = ''view.created''"
| "event_type_text ViewReplaced = ''view.replaced''"
| "event_type_text ViewDropped = ''view.dropped''"
| "event_type_text ViewRenamed = ''view.renamed''"
| "event_type_text TransactionCommitted = ''transaction.committed''"
| "event_type_text TransactionFailed = ''transaction.failed''"
| "event_type_text ScanPlanSubmitted = ''scan.plan.submitted''"
| "event_type_text ScanPlanCompleted = ''scan.plan.completed''"
| "event_type_text ScanPlanCancelled = ''scan.plan.cancelled''"

text \<open>The event that a handler publishes, see \<open>CreateNamespace\<close> and \<open>DeleteNamespace\<close>.\<close>

definition published :: "string \<Rightarrow> int \<Rightarrow> effect \<Rightarrow> catalog_event option" where
  "published uuid now eff =
     (case eff of Metric name labels \<Rightarrow> None | Event ty ns \<Rightarrow> Some (WithNamespace ns (NewEvent uuid now ty)))"

text \<open>An outcome that publishes nothing but the creation or deletion of a namespace.\<close>

definition announces :: "outcome \<Rightarrow> bool" where
  "announces out \<longleftrightarrow> (\<forall>eff \<in> set (snd out). case eff of
     Metric name labels \<Rightarrow> True
   | Event ty ns \<Rightarrow> ty \<in> {event_type_text NamespaceCreated, event_type_text NamespaceDropped})"

lemma announces_simps [simp]:
  "announces (r, [])" "announces (r, Metric n ls # effs) \<longleftrightarrow> announces (r, effs)"
  "announces (r, Event ''namespace.created'' ns # effs) \<longleftrightarrow> announces (r, effs)"
  "announces (r, Event ''namespace.dropped'' ns # effs) \<longleftrightarrow> announces (r, effs)"
  by (simp_all add: announces_def)

abbreviation quiet_prog :: "outcome prog \<Rightarrow> bool" where
  "quiet_prog \<equiv> safe (\<lambda>d. True) announces"

lemma quiet_missing_or: "quiet_prog (missing_or ns r)"
  by (auto simp: missing_or_def intro!: safe_query safe_Done)

lemma quiet_apiError: "quiet_prog (apiError code m t)" "quiet_prog unauthorized"
  by (simp_all add: apiError_def unauthorized_def safe_Done_iff)

lemmas quiet_rules = safe_Done safe_query safe_exec quiet_missing_or quiet_apiError

lemma quiet_namespaces:
  "quiet_prog (ListNamespaces coll got parent tok n)" "quiet_prog (GetNamespace p)" "quiet_prog (NamespaceExists p)"
  "quiet_prog (UpdateNamespaceProperties visit p ubody)" "quiet_prog (DeleteNamespace b p)" "quiet_prog (CreateNamespace b cbody)"
  by (auto simp: ListNamespaces_def GetNamespace_def NamespaceExists_def UpdateNamespaceProperties_def DeleteNamespace_def
      CreateNamespace_def Let_def split: option.splits prod.splits intro!: quiet_rules)

lemma quiet_tables:
  "quiet_prog (ListTables coll got p tok n)" "quiet_prog (LoadTable p t)" "quiet_prog (TableExists p t)"
  "quiet_prog (DropTable p t)" "quiet_prog (RenameTable rbody)"
  by (auto simp: ListTables_def LoadTable_def TableExists_def DropTable_def RenameTable_def Let_def
      split: option.splits prod.splits intro!: quiet_rules)

lemma quiet_new_items:
  "quiet_prog (CreateTable cfg uuid now p body)" "quiet_prog (RegisterTable uuid now p rbody)" "quiet_prog (CreateView cfg uuid now p vbody)"
  by (auto simp: CreateTable_def RegisterTable_def CreateView_def load_response_def Let_def simp del: encode.simps
      split: option.splits intro!: quiet_rules)

lemma quiet_views:
  "quiet_prog (ListViews coll got p tok n)" "quiet_prog (LoadView p t)" "quiet_prog (ViewExists p t)"
  "quiet_prog (DropView p t)" "quiet_prog (RenameView rbody)"
  by (auto simp: ListViews_def LoadView_def ViewExists_def DropView_def RenameView_def Let_def
      split: option.splits prod.splits intro!: quiet_rules)

lemma quiet_commits:
  "quiet_prog (CommitTable cfg now p t body)" "quiet_prog (ReplaceView cfg now p t vbody)" "quiet_prog (CommitTransaction cfg tbody)"
  by (auto simp: CommitTable_def ReplaceView_def CommitTransaction_def Let_def
      split: option.splits lock_error.splits commit_result.splits sum.splits prod.splits intro!: safe_WithLock safe_Done)

lemma quiet_scans:
  "quiet_prog (SubmitScanPlan u planID now p t body)" "quiet_prog (GetScanPlan u p t i)"
  "quiet_prog (CancelScanPlan u p t i)" "quiet_prog (FetchPlanTasks u p t fbody)"
  by (auto simp: SubmitScanPlan_def GetScanPlan_def CancelScanPlan_def FetchPlanTasks_def Let_def with_uuid_Inr
      simp del: encode.simps split: option.splits intro!: quiet_rules)

lemma quiet_keys:
  "quiet_prog (ListAPIKeys got ut fmt now who)" "quiet_prog (CreateAPIKey H u fmt random uuid now who body)"
  "quiet_prog (RotateAPIKey H u fmt random now who keyID)" "quiet_prog (DeleteAPIKey u who keyID)"
  by (auto simp: ListAPIKeys_def CreateAPIKey_def RotateAPIKey_def DeleteAPIKey_def Let_def with_uuid_Inr
      split: option.splits intro!: quiet_rules)

lemma quiet_others:
  "quiet_prog (LoadCredentials sts iam pt now sto delegation)" "quiet_prog (ReportMetrics mbody)"
  by (auto simp: LoadCredentials_def ReportMetrics_def Let_def split: sum.splits intro!: quiet_rules)

lemma quiet_handler: "quiet_prog (handler en ca who req)"
  by (cases req)
    (simp_all add: quiet_namespaces quiet_tables quiet_new_items quiet_views quiet_commits quiet_scans quiet_keys quiet_others)

lemma quiet_Authz: "quiet_prog inner \<Longrightarrow> quiet_prog (Authz cfg required path who inner)"
  by (auto simp: Authz_def checkPermission_def Let_def forbiddenError_def split: option.splits intro!: quiet_rules)

lemma quiet_validate:
  assumes "\<And>x. quiet_prog (k x)"
  shows "quiet_prog (validateBearerToken H now token k)" "quiet_prog (validateAPIKey H ut now token k)"
  using assms
  by (auto simp: validateBearerToken_def validateAPIKey_def accept_key_def Let_def split: option.splits intro!: quiet_rules)

lemma quiet_serve: "quiet_prog (serve en ca req)"
proof -
  have f: "quiet_prog (case r of Inl err \<Rightarrow> unauthorizedError err | Inr who \<Rightarrow> Authz cfg q p (Some who) (handler en ca (Some who) req))"
    "quiet_prog (case r of Inl err \<Rightarrow> unauthorizedError err | Inr who \<Rightarrow> handler en ca (Some who) req)" for r cfg q p
    by (auto simp: unauthorizedError_def quiet_handler split: sum.splits intro!: quiet_rules quiet_Authz)
  show ?thesis unfolding serve_def guarded_def Let_def Auth_def
    by (auto simp: unauthorizedError_def quiet_handler split: option.splits prod.splits
        intro!: quiet_rules quiet_Authz quiet_validate f)
qed

text \<open>
  Whatever the requests do, commits to tables among them, the events they publish are the creation and the deletion of
  namespaces, and their topic is a namespace: of the other types of events a client of the event stream sees none.
\<close>

lemma only_namespaces_announced:
  assumes "creach (serve_all en rs, d) (ps, d')" "Done out \<in> set ps" "eff \<in> set (snd out)" "published uuid now eff = Some e"
  shows "ev_type e \<in> {event_type_text NamespaceCreated, event_type_text NamespaceDropped} \<and>
    Topic e \<in> {ev_namespace e, ''*''}"
proof -
  have "list_all quiet_prog (serve_all en rs)" by (auto simp: serve_all_def list_all_iff quiet_serve)
  from safe_creach [OF assms(1) this] have "announces out" using assms(2) by (auto simp: list_all_iff safe_Done_iff)
  from assms(4) obtain ty ns where "eff = Event ty ns" and e: "e = WithNamespace ns (NewEvent uuid now ty)"
    by (cases eff) (simp_all add: published_def)
  with assms(3) have "Event ty ns \<in> set (snd out)" by simp
  from \<open>announces out\<close> [unfolded announces_def, THEN bspec, OF this]
  have "ty \<in> {event_type_text NamespaceCreated, event_type_text NamespaceDropped}" by (simp only: effect.case)
  then show ?thesis
    by (simp add: e NewEvent_def WithNamespace_def Topic_def del: event_type_text.simps)
qed

end
