(* ===== verification/Pool.thy ===== *)
theory Pool
  imports GoJson "HOL-Library.Word"
begin

text \<open>
  \<open>internal/pool\<close>: the pools of buffers and byte slices and their metrics.  Of a buffer its contents and
  capacity count, of a slice its bytes.  \<open>sync.Pool\<close> gives any of the items put into it, or makes a new
  one when it likes: which, is an argument (an index into the items, or \<open>None\<close>).  The counters are 64-bit
  words that wrap around.
\<close>

section \<open>Metrics\<close>

record metrics =
  me_gets :: "64 word"
  me_returns :: "64 word"
  me_discards :: "64 word"
  me_misses :: "64 word"

definition NewPoolMetrics :: metrics where
  "NewPoolMetrics = \<lparr>me_gets = 0, me_returns = 0, me_discards = 0, me_misses = 0\<rparr>"

definition RecordGet :: "metrics \<Rightarrow> metrics" where
  "RecordGet m = m\<lparr>me_gets := me_gets m + 1\<rparr>"

definition RecordReturn :: "metrics \<Rightarrow> metrics" where
  "RecordReturn m = m\<lparr>me_returns := me_returns m + 1\<rparr>"

definition RecordDiscard :: "metrics \<Rightarrow> metrics" where
  "RecordDiscard m = m\<lparr>me_discards := me_discards m + 1\<rparr>"

definition RecordMiss :: "metrics \<Rightarrow> metrics" where
  "RecordMiss m = m\<lparr>me_misses := me_misses m + 1\<rparr>"

text \<open>The quotient of two \<open>float64\<close>s, the second not 0.\<close>

definition f64_div :: "f64 \<Rightarrow> f64 \<Rightarrow> f64 option" where
  "f64_div x y =
     (case (x, y) of (F64 m e, F64 n g) \<Rightarrow>
        let k = e - g in f64_of_ratio (m * 2 ^ nat k * sgn n) (\<bar>n\<bar> * 2 ^ nat (- k)))"

text \<open>The numerator and the denominator of \<open>HitRate\<close>, as the code computes them, and the rate.\<close>

definition hit_ratio :: "metrics \<Rightarrow> int \<times> int" where
  "hit_ratio m = (uint (me_gets m - me_misses m), uint (me_gets m))"

definition HitRate :: "metrics \<Rightarrow> f64 option" where
  "HitRate m =
     (if me_gets m = 0 then Some (F64 0 0)
      else (case (f64_of_int (fst (hit_ratio m)), f64_of_int (snd (hit_ratio m))) of
              (Some h, Some g) \<Rightarrow> f64_div h g | _ \<Rightarrow> None))"

section \<open>Pools\<close>

definition TokenSize :: nat where
  "TokenSize = 32"

definition MaxBufferSize :: nat where
  "MaxBufferSize = 65536"

definition DefaultBufferSize :: nat where
  "DefaultBufferSize = 4096"

record buffer =
  bu_data :: "nat list"
  bu_cap :: nat

text \<open>An item taken out of the pool, and the pool without it.\<close>

definition pool_take :: "'a \<Rightarrow> nat option \<Rightarrow> 'a list \<Rightarrow> 'a \<times> 'a list" where
  "pool_take new choice items =
     (case choice of
        None \<Rightarrow> (new, items)
      | Some i \<Rightarrow> if i < length items then (items ! i, take i items @ drop (Suc i) items) else (new, items))"

definition with_metrics :: "(metrics \<Rightarrow> metrics) \<Rightarrow> metrics option \<Rightarrow> metrics option" where
  "with_metrics f m = map_option f m"

text \<open>\<open>BytePool\<close> of a size: \<open>Get\<close> and \<open>Put\<close>; a sl that is nil is \<open>None\<close>.\<close>

definition BytePoolGet ::
    "nat \<Rightarrow> nat option \<Rightarrow> nat list list \<times> metrics option \<Rightarrow> nat list \<times> nat list list \<times> metrics option" where
  "BytePoolGet sz choice s =
     (case s of (items, m) \<Rightarrow>
        if sz \<noteq> TokenSize then (replicate sz 0, items, with_metrics RecordMiss m)
        else (case pool_take (replicate TokenSize 0) choice items of
                (sl, rest) \<Rightarrow> (sl, rest, with_metrics RecordGet m)))"

definition BytePoolPut ::
    "nat list option \<Rightarrow> nat list list \<times> metrics option \<Rightarrow> nat list list \<times> metrics option" where
  "BytePoolPut sl s =
     (case s of (items, m) \<Rightarrow>
        (case sl of
           None \<Rightarrow> (items, m)
         | Some bs \<Rightarrow>
             if length bs \<noteq> TokenSize then (items, with_metrics RecordDiscard m)
             else (bs # items, with_metrics RecordReturn m)))"

definition GetBytes :: "nat option \<Rightarrow> nat list list \<Rightarrow> nat list \<times> nat list list" where
  "GetBytes choice items = pool_take (replicate TokenSize 0) choice items"

definition PutBytes :: "nat list option \<Rightarrow> nat list list \<Rightarrow> nat list list" where
  "PutBytes sl items =
     (case sl of None \<Rightarrow> items | Some bs \<Rightarrow> if length bs \<noteq> TokenSize then items else bs # items)"

definition BufferPoolGet :: "nat option \<Rightarrow> buffer list \<times> metrics option \<Rightarrow> buffer \<times> buffer list \<times> metrics option" where
  "BufferPoolGet choice s =
     (case s of (items, m) \<Rightarrow>
        (case pool_take \<lparr>bu_data = [], bu_cap = DefaultBufferSize\<rparr> choice items of
           (buf, rest) \<Rightarrow> (buf\<lparr>bu_data := []\<rparr>, rest, with_metrics RecordGet m)))"

definition BufferPoolPut :: "buffer option \<Rightarrow> buffer list \<times> metrics option \<Rightarrow> buffer list \<times> metrics option" where
  "BufferPoolPut buf s =
     (case s of (items, m) \<Rightarrow>
        (case buf of
           None \<Rightarrow> (items, m)
         | Some b \<Rightarrow>
             if MaxBufferSize < bu_cap b then (items, with_metrics RecordDiscard m)
             else (b\<lparr>bu_data := []\<rparr> # items, with_metrics RecordReturn m)))"

definition GetBuffer :: "nat option \<Rightarrow> buffer list \<Rightarrow> buffer \<times> buffer list" where
  "GetBuffer choice items =
     (case pool_take \<lparr>bu_data = [], bu_cap = DefaultBufferSize\<rparr> choice items of
        (buf, rest) \<Rightarrow> (buf\<lparr>bu_data := []\<rparr>, rest))"

definition PutBuffer :: "buffer option \<Rightarrow> buffer list \<Rightarrow> buffer list" where
  "PutBuffer buf items =
     (case buf of None \<Rightarrow> items | Some b \<Rightarrow> if MaxBufferSize < bu_cap b then items else b\<lparr>bu_data := []\<rparr> # items)"

section \<open>Any use of the pools\<close>

text \<open>Everything that can be done to the buffers and slices shared by all pools, and to one set of metrics.\<close>

type_synonym pstate = "buffer list \<times> nat list list \<times> metrics"

inductive pool_reach :: "pstate \<Rightarrow> bool" where
  start: "pool_reach ([], [], NewPoolMetrics)"
| get_bytes: "pool_reach (bufs, slices, m) \<Longrightarrow> BytePoolGet sz choice (slices, Some m) = (bs, slices', Some m') \<Longrightarrow>
    pool_reach (bufs, slices', m')"
| put_bytes: "pool_reach (bufs, slices, m) \<Longrightarrow> BytePoolPut sl (slices, Some m) = (slices', Some m') \<Longrightarrow>
    pool_reach (bufs, slices', m')"
| get_bytes_plain: "pool_reach (bufs, slices, m) \<Longrightarrow> GetBytes choice slices = (bs, slices') \<Longrightarrow>
    pool_reach (bufs, slices', m)"
| put_bytes_plain: "pool_reach (bufs, slices, m) \<Longrightarrow> pool_reach (bufs, PutBytes sl slices, m)"
| get_buffer: "pool_reach (bufs, slices, m) \<Longrightarrow> BufferPoolGet choice (bufs, Some m) = (b, bufs', Some m') \<Longrightarrow>
    pool_reach (bufs', slices, m')"
| put_buffer: "pool_reach (bufs, slices, m) \<Longrightarrow> BufferPoolPut buf (bufs, Some m) = (bufs', Some m') \<Longrightarrow>
    pool_reach (bufs', slices, m')"
| get_buffer_plain: "pool_reach (bufs, slices, m) \<Longrightarrow> GetBuffer choice bufs = (b, bufs') \<Longrightarrow>
    pool_reach (bufs', slices, m)"
| put_buffer_plain: "pool_reach (bufs, slices, m) \<Longrightarrow> pool_reach (PutBuffer buf bufs, slices, m)"

definition pool_ok :: "pstate \<Rightarrow> bool" where
  "pool_ok s \<longleftrightarrow> (case s of (bufs, slices, m) \<Rightarrow>
     (\<forall>b \<in> set bufs. bu_data b = [] \<and> bu_cap b \<le> MaxBufferSize) \<and> (\<forall>bs \<in> set slices. length bs = TokenSize))"

lemma pool_take_set: "pool_take new choice items = (x, rest) \<Longrightarrow> (x = new \<or> x \<in> set items) \<and> set rest \<subseteq> set items"
  by (auto simp: pool_take_def split: option.splits if_splits dest: in_set_takeD in_set_dropD)

lemma pool_reach_ok: "pool_reach s \<Longrightarrow> pool_ok s"
proof (induction rule: pool_reach.induct)
  case start
  show ?case by (simp add: pool_ok_def)
next
  case (get_bytes bufs slices m sz choice bs slices' m')
  then show ?case using pool_take_set [of "replicate TokenSize 0" choice slices]
    by (auto simp: pool_ok_def BytePoolGet_def split: if_splits prod.splits)
next
  case (put_bytes bufs slices m sl slices' m')
  then show ?case by (auto simp: pool_ok_def BytePoolPut_def split: if_splits option.splits)
next
  case (get_bytes_plain bufs slices m choice bs slices')
  then show ?case using pool_take_set [of "replicate TokenSize 0" choice slices]
    by (auto simp: pool_ok_def GetBytes_def)
next
  case (put_bytes_plain bufs slices m sl)
  then show ?case by (auto simp: pool_ok_def PutBytes_def split: option.splits)
next
  case (get_buffer bufs slices m choice b bufs' m')
  then show ?case using pool_take_set [of "\<lparr>bu_data = [], bu_cap = DefaultBufferSize\<rparr>" choice bufs]
    by (auto simp: pool_ok_def BufferPoolGet_def split: prod.splits)
next
  case (put_buffer bufs slices m buf bufs' m')
  then show ?case by (auto simp: pool_ok_def BufferPoolPut_def split: if_splits option.splits)
next
  case (get_buffer_plain bufs slices m choice b bufs')
  then show ?case using pool_take_set [of "\<lparr>bu_data = [], bu_cap = DefaultBufferSize\<rparr>" choice bufs]
    by (auto simp: pool_ok_def GetBuffer_def split: prod.splits)
next
  case (put_buffer_plain bufs slices m buf)
  then show ?case by (auto simp: pool_ok_def PutBuffer_def split: option.splits)
qed

text \<open>Whatever was put back before, \<open>GetBuffer\<close> gives an empty buffer of a capacity of at most 64 KB, and
  \<open>GetBytes\<close> a slice of exactly 32 bytes (with the bytes of its last use): no pooled item is oversized.\<close>

theorem pools_give_clean_items:
  assumes "pool_reach (bufs, slices, m)"
  shows "bu_data (fst (GetBuffer choice bufs)) = [] \<and> bu_cap (fst (GetBuffer choice bufs)) \<le> 65536 \<and>
    length (fst (GetBytes choice slices)) = 32"
proof -
  have ok: "pool_ok (bufs, slices, m)" by (rule pool_reach_ok [OF assms])
  obtain b rest where b: "pool_take \<lparr>bu_data = [], bu_cap = DefaultBufferSize\<rparr> choice bufs = (b, rest)" by fastforce
  obtain bs rest' where bs: "pool_take (replicate TokenSize 0) choice slices = (bs, rest')" by fastforce
  from pool_take_set [OF b] pool_take_set [OF bs] ok b bs show ?thesis
    by (auto simp: pool_ok_def GetBuffer_def GetBytes_def DefaultBufferSize_def MaxBufferSize_def TokenSize_def)
qed

theorem pools_give_clean_items_witness:
  "bu_cap (fst (GetBuffer (Some 0) [\<lparr>bu_data = [], bu_cap = 5000\<rparr>])) \<le> 65536"
proof -
  have "pool_reach (PutBuffer (Some \<lparr>bu_data = [1, 2], bu_cap = 5000\<rparr>) [], [], NewPoolMetrics)"
    by (rule pool_reach.put_buffer_plain [OF pool_reach.start])
  then have "pool_reach ([\<lparr>bu_data = [], bu_cap = 5000\<rparr>], [], NewPoolMetrics)"
    by (simp add: PutBuffer_def MaxBufferSize_def)
  from pools_give_clean_items [OF this, of "Some 0"] show ?thesis by blast
qed

text \<open>The rate of hits is a proportion only while there are no more misses than gets.  The misses of a pool
  of another size are not gets, so with metrics that two pools share \<open>gets - misses\<close> wraps around: the
  numerator of the rate is then at least \<open>2^64\<close> less the misses, far above the gets.\<close>

theorem HitRate_wraps:
  "(if me_misses m \<le> me_gets m then fst (hit_ratio m) = uint (me_gets m) - uint (me_misses m) \<and> fst (hit_ratio m) \<le> snd (hit_ratio m)
    else fst (hit_ratio m) = 2 ^ 64 + uint (me_gets m) - uint (me_misses m) \<and> snd (hit_ratio m) < fst (hit_ratio m))"
proof (cases "me_misses m \<le> me_gets m")
  case True
  then have "uint (me_gets m - me_misses m) = uint (me_gets m) - uint (me_misses m)"
    by (simp add: uint_minus_simple_alt word_le_def)
  with True show ?thesis by (simp add: hit_ratio_def)
next
  case False
  then have lt: "uint (me_gets m) < uint (me_misses m)" by (simp add: word_le_def)
  have b: "0 \<le> uint (me_gets m)" "uint (me_misses m) < 2 ^ 64" using uint_lt2p [of "me_misses m"] by simp_all
  have "uint (me_gets m - me_misses m) = (uint (me_gets m) - uint (me_misses m)) mod 2 ^ 64"
    by (simp add: uint_word_ariths)
  also have "\<dots> = 2 ^ 64 + uint (me_gets m) - uint (me_misses m)"
  proof -
    let ?x = "uint (me_gets m) - uint (me_misses m)"
    have "?x mod 2 ^ 64 = (?x + 2 ^ 64) mod 2 ^ 64" by simp
    also have "\<dots> = ?x + 2 ^ 64" by (rule mod_pos_pos_trivial, use lt b in linarith, use lt in linarith)
    finally show ?thesis by simp
  qed
  finally show ?thesis using False b by (simp add: hit_ratio_def)
qed

end
