(* ===== verification/Streams.thy ===== *)
theory Streams
  imports Events
begin

text \<open>
  The event stream of \<open>internal/api/handlers/events.go\<close> at work: \<open>WebSocketUpgrade\<close>, and \<open>EventStream\<close> from the
  subscription of an admitted client to the end of its connection, for any number of clients beside the
  publishers.  Every connection has a channel of its own, and its number is that of the channel.  \<open>wt_hist\<close> is
  not part of the program: it records the events that each channel has accepted.
\<close>

section \<open>Connections\<close>

text \<open>The middleware before the stream.\<close>

definition WebSocketUpgrade :: "bool \<Rightarrow> outcome prog \<Rightarrow> outcome prog" where
  "WebSocketUpgrade is_upgrade next_handler =
     (if is_upgrade then next_handler else reply (errorHandler 426 ''Upgrade Required''))"

datatype message = Connected string | EventMessage catalog_event

datatype stream_phase = Confirming | Streaming | Leaving | Finished

text \<open>\<open>ws_gone\<close>: the goroutine that reads from the client has closed \<open>done\<close>.\<close>

record stream =
  ws_topic :: string
  ws_phase :: stream_phase
  ws_sent :: "message list"
  ws_gone :: bool

record wstate =
  wt_broker :: broker
  wt_sending :: "(catalog_event \<times> nat list) list"
  wt_streams :: "stream list"
  wt_hist :: "catalog_event list list"

definition no_streams :: wstate where
  "no_streams = \<lparr>wt_broker = NewBroker, wt_sending = [], wt_streams = [], wt_hist = []\<rparr>"

abbreviation chans :: "wstate \<Rightarrow> channel list" where
  "chans s \<equiv> br_chans (wt_broker s)"

definition set_stream :: "nat \<Rightarrow> (stream \<Rightarrow> stream) \<Rightarrow> wstate \<Rightarrow> wstate" where
  "set_stream i f s = s\<lparr>wt_streams := (wt_streams s)[i := f (wt_streams s ! i)]\<rparr>"

definition set_chans :: "channel list \<Rightarrow> wstate \<Rightarrow> wstate" where
  "set_chans cs s = s\<lparr>wt_broker := (wt_broker s)\<lparr>br_chans := cs\<rparr>\<rparr>"

text \<open>What a send adds to the history of a channel.\<close>

definition accepted :: "catalog_event \<Rightarrow> nat \<Rightarrow> wstate \<Rightarrow> catalog_event list list" where
  "accepted e c s =
     (if length (ch_queue (chans s ! c)) < bufferSize then (wt_hist s)[c := wt_hist s ! c @ [e]] else wt_hist s)"

text \<open>
  \<open>opens\<close>: a client is let in and subscribes.  \<open>confirms\<close>, \<open>confirm_fails\<close>: the first message.  \<open>forwards\<close>,
  \<open>forward_fails\<close>, \<open>channel_ends\<close>: the branch of the loop that receives; \<open>hangs_up\<close>, \<open>sees\<close>: the client goes, and the
  branch that notices.  \<open>finishes\<close>: the deferred \<open>Unsubscribe\<close>.  The others are the publishers and \<open>Close\<close>.  An
  operation under the write lock needs that nobody is sending.
\<close>

inductive wstep :: "wstate \<Rightarrow> wstate \<Rightarrow> bool" where
  opens: "wt_sending s = [] \<Longrightarrow> Subscribe topic (wt_broker s) = (Some ch, b) \<Longrightarrow>
    wstep s (s\<lparr>wt_broker := b, wt_hist := wt_hist s @ [[]],
      wt_streams := wt_streams s @ [\<lparr>ws_topic = topic, ws_phase = Confirming, ws_sent = [], ws_gone = False\<rparr>]\<rparr>)"
| confirms: "i < length (wt_streams s) \<Longrightarrow> ws_phase (wt_streams s ! i) = Confirming \<Longrightarrow>
    wstep s (set_stream i (\<lambda>w. w\<lparr>ws_phase := Streaming, ws_sent := [Connected (ws_topic w)]\<rparr>) s)"
| confirm_fails: "i < length (wt_streams s) \<Longrightarrow> ws_phase (wt_streams s ! i) = Confirming \<Longrightarrow>
    wstep s (set_stream i (\<lambda>w. w\<lparr>ws_phase := Leaving\<rparr>) s)"
| forwards: "i < length (wt_streams s) \<Longrightarrow> ws_phase (wt_streams s ! i) = Streaming \<Longrightarrow>
    receive i (chans s) = Some (Some e, cs) \<Longrightarrow>
    wstep s (set_stream i (\<lambda>w. w\<lparr>ws_sent := ws_sent w @ [EventMessage e]\<rparr>) (set_chans cs s))"
| forward_fails: "i < length (wt_streams s) \<Longrightarrow> ws_phase (wt_streams s ! i) = Streaming \<Longrightarrow>
    receive i (chans s) = Some (Some e, cs) \<Longrightarrow>
    wstep s (set_stream i (\<lambda>w. w\<lparr>ws_phase := Leaving\<rparr>) (set_chans cs s))"
| channel_ends: "i < length (wt_streams s) \<Longrightarrow> ws_phase (wt_streams s ! i) = Streaming \<Longrightarrow>
    receive i (chans s) = Some (None, cs) \<Longrightarrow>
    wstep s (set_stream i (\<lambda>w. w\<lparr>ws_phase := Leaving\<rparr>) (set_chans cs s))"
| hangs_up: "i < length (wt_streams s) \<Longrightarrow> ws_phase (wt_streams s ! i) = Streaming \<Longrightarrow>
    wstep s (set_stream i (\<lambda>w. w\<lparr>ws_gone := True\<rparr>) s)"
| sees: "i < length (wt_streams s) \<Longrightarrow> ws_phase (wt_streams s ! i) = Streaming \<Longrightarrow> ws_gone (wt_streams s ! i) \<Longrightarrow>
    wstep s (set_stream i (\<lambda>w. w\<lparr>ws_phase := Leaving\<rparr>) s)"
| finishes: "i < length (wt_streams s) \<Longrightarrow> ws_phase (wt_streams s ! i) = Leaving \<Longrightarrow> wt_sending s = [] \<Longrightarrow>
    unsubscribe (ws_topic (wt_streams s ! i)) i (wt_broker s) = Inr b \<Longrightarrow>
    wstep s (set_stream i (\<lambda>w. w\<lparr>ws_phase := Finished\<rparr>) (s\<lparr>wt_broker := b\<rparr>))"
| publishes: "\<not> br_closed (wt_broker s) \<Longrightarrow>
    wstep s (s\<lparr>wt_sending := wt_sending s @ [(e, matching (wt_broker s) e)]\<rparr>)"
| sends: "wt_sending s = ps @ (e, c # cs) # qs \<Longrightarrow> send e c (chans s) = Inr cs' \<Longrightarrow>
    wstep s (set_chans cs' s\<lparr>wt_sending := ps @ (e, cs) # qs, wt_hist := accepted e c s\<rparr>)"
| has_sent: "wt_sending s = ps @ (e, []) # qs \<Longrightarrow> wstep s (s\<lparr>wt_sending := ps @ qs\<rparr>)"
| closes: "wt_sending s = [] \<Longrightarrow> CloseBroker (wt_broker s) = Inr b \<Longrightarrow> wstep s (s\<lparr>wt_broker := b\<rparr>)"

inductive wreach :: "wstate \<Rightarrow> bool" where
  start: "wreach no_streams"
| more: "wreach s \<Longrightarrow> wstep s t \<Longrightarrow> wreach t"

section \<open>The broker underneath\<close>

abbreviation bpart :: "wstate \<Rightarrow> bstate" where
  "bpart s \<equiv> (wt_broker s, wt_sending s)"

lemma set_stream_simps [simp]:
  "wt_broker (set_stream i f s) = wt_broker s" "wt_sending (set_stream i f s) = wt_sending s"
  "wt_hist (set_stream i f s) = wt_hist s" "wt_streams (set_stream i f s) = (wt_streams s)[i := f (wt_streams s ! i)]"
  by (simp_all add: set_stream_def)

lemma set_chans_simps [simp]:
  "wt_broker (set_chans cs s) = (wt_broker s)\<lparr>br_chans := cs\<rparr>" "wt_sending (set_chans cs s) = wt_sending s"
  "wt_hist (set_chans cs s) = wt_hist s" "wt_streams (set_chans cs s) = wt_streams s"
  by (simp_all add: set_chans_def)

text \<open>A step of the streams is a step of the broker, or leaves it alone.\<close>

lemma wstep_bstep:
  assumes "wstep s t" "length (wt_streams s) = length (chans s)"
  shows "bpart t = bpart s \<or> bstep (bpart s) (Inr (bpart t))"
  using assms(1)
proof cases
  case (opens topic ch b)
  with bstep.subscribe [of "wt_broker s" topic] show ?thesis by simp
next
  case (forwards i e cs)
  with assms(2) bstep.receive [of i "wt_broker s" "Some e" cs "wt_sending s"] show ?thesis by simp
next
  case (forward_fails i e cs)
  with assms(2) bstep.receive [of i "wt_broker s" "Some e" cs "wt_sending s"] show ?thesis by simp
next
  case (channel_ends i cs)
  with assms(2) bstep.receive [of i "wt_broker s" None cs "wt_sending s"] show ?thesis by simp
next
  case (finishes i b)
  with bstep.unsubscribe [of "wt_broker s" "ws_topic (wt_streams s ! i)" i] show ?thesis by (simp add: lift_broker_def)
next
  case (publishes e)
  with bstep.publish [of "wt_broker s" "wt_sending s" e] show ?thesis by simp
next
  case (sends ps e c cs qs cs')
  with bstep.sending [of "wt_broker s" ps e c cs qs] show ?thesis by simp
next
  case (has_sent ps e qs)
  with bstep.sent [of "wt_broker s" ps e qs] show ?thesis by simp
next
  case (closes b)
  with bstep.close [of "wt_broker s"] show ?thesis by (simp add: lift_broker_def)
qed simp_all

section \<open>What the operations of the broker change\<close>

lemma Subscribe_effect:
  assumes "Subscribe topic b = (Some ch, b')"
  shows "ch = length (br_chans b)" "br_chans b' = br_chans b @ [\<lparr>ch_queue = [], ch_closed = False\<rparr>]"
    "subs_of b' t = subs_of b t @ (if t = topic then [ch] else [])" "br_closed b' = br_closed b"
  using assms by (auto simp: Subscribe_def Let_def split: if_splits)

lemma unsubscribe_effect:
  assumes "unsubscribe topic ch b = Inr b'"
  shows "set (subs_of b' t) = set (subs_of b t) - (if t = topic then {ch} else {})"
    "br_chans b' = (if ch \<in> set (subs_of b topic) then (br_chans b)[ch := (br_chans b ! ch)\<lparr>ch_closed := True\<rparr>] else br_chans b)"
    "br_closed b' = br_closed b"
proof -
  have "set (subs_of b' t) = set (subs_of b t) - (if t = topic then {ch} else {}) \<and>
    br_chans b' = (if ch \<in> set (subs_of b topic) then (br_chans b)[ch := (br_chans b ! ch)\<lparr>ch_closed := True\<rparr>] else br_chans b) \<and>
    br_closed b' = br_closed b"
  proof (cases "mget (br_subs b) topic")
    case None
    then have "subs_of b topic = []" by (simp add: subs_of_def)
    with None assms show ?thesis by (auto simp: unsubscribe_def)
  next
    case (Some subs)
    then have so: "subs_of b topic = subs" by (simp add: subs_of_def)
    have c: "subs_of (b0\<lparr>br_subs := if xs = [] then mdel (br_subs b0) topic else mput (br_subs b0) topic xs\<rparr>) t =
        (if t = topic then xs else subs_of b0 t)" for b0 xs by simp
    show ?thesis
    proof (cases "ch \<in> set subs")
      case True
      with Some assms obtain cs where cc: "close_chan ch (br_chans b) = Inr cs"
        by (cases "close_chan ch (br_chans b)") (simp_all add: unsubscribe_def Let_def)
      define b0 where "b0 = b\<lparr>br_chans := cs\<rparr>"
      have cs: "b' = b0\<lparr>br_subs := if filter (\<lambda>c. c \<noteq> ch) subs = [] then mdel (br_subs b0) topic
             else mput (br_subs b0) topic (filter (\<lambda>c. c \<noteq> ch) subs)\<rparr>"
        by (rule sym) (use assms in \<open>simp only: unsubscribe_def Some option.case Let_def True if_True cc map_sum.simps sum.inject b0_def\<close>)
      have "subs_of b' t = (if t = topic then filter (\<lambda>c. c \<noteq> ch) subs else subs_of b t)"
        using c [of _ b0] unfolding cs by (simp add: b0_def)
      moreover have "br_chans b' = (br_chans b)[ch := (br_chans b ! ch)\<lparr>ch_closed := True\<rparr>]"
        using cc cs by (simp add: close_chan_def b0_def split: if_splits)
      ultimately show ?thesis using True so cs by (auto simp: b0_def)
    next
      case False
      with Some assms have "b' = b\<lparr>br_subs := if subs = [] then mdel (br_subs b) topic else mput (br_subs b) topic subs\<rparr>"
        by (simp add: unsubscribe_def Let_def)
      with c [of subs b] False so show ?thesis by simp
    qed
  qed
  then show "set (subs_of b' t) = set (subs_of b t) - (if t = topic then {ch} else {})"
    "br_chans b' = (if ch \<in> set (subs_of b topic) then (br_chans b)[ch := (br_chans b ! ch)\<lparr>ch_closed := True\<rparr>] else br_chans b)"
    "br_closed b' = br_closed b" by blast+
qed

lemma nth_upd: "c < length xs \<Longrightarrow> xs[x := y] ! c = (if c = x then y else xs ! c)"
  by (simp add: nth_list_update)

lemma close_all_effect:
  "close_all xs cs = Inr cs' \<Longrightarrow> length cs' = length cs \<and>
   (\<forall>c < length cs. ch_queue (cs' ! c) = ch_queue (cs ! c) \<and> (ch_closed (cs' ! c) \<longleftrightarrow> ch_closed (cs ! c) \<or> c \<in> set xs))"
proof (induction xs arbitrary: cs)
  case (Cons x xs)
  obtain cs1 where c: "close_chan x cs = Inr cs1" "close_all xs cs1 = Inr cs'"
    using Cons.prems by (cases "close_chan x cs") auto
  from c(1) have cs1: "cs1 = cs[x := (cs ! x)\<lparr>ch_closed := True\<rparr>]" by (auto simp: close_chan_def split: if_splits)
  from Cons.IH [OF c(2)] show ?case unfolding cs1 by (auto simp: nth_upd)
qed simp

lemma CloseBroker_effect:
  assumes "CloseBroker b = Inr b'" "broker_ok b"
  shows "subs_of b' t = []" "length (br_chans b') = length (br_chans b)"
    "c < length (br_chans b) \<Longrightarrow> ch_queue (br_chans b' ! c) = ch_queue (br_chans b ! c) \<and>
       (ch_closed (br_chans b' ! c) \<longleftrightarrow> ch_closed (br_chans b ! c) \<or> (\<exists>u. c \<in> set (subs_of b u)))"
proof -
  obtain cs where cs: "close_all (concat (map snd (br_subs b))) (br_chans b) = Inr cs"
      "b' = b\<lparr>br_closed := True, br_subs := [], br_chans := cs\<rparr>"
    using assms(1) by (auto simp: CloseBroker_def map_sum_def split: sum.splits)
  have "c \<in> set (concat (map snd (br_subs b))) \<longleftrightarrow> (\<exists>u. c \<in> set (subs_of b u))"
  proof
    assume "c \<in> set (concat (map snd (br_subs b)))"
    then obtain u xs where "(u, xs) \<in> set (br_subs b)" "c \<in> set xs" by auto
    moreover from this assms(2) have "subs_of b u = xs" by (simp add: broker_ok_def subs_of_def mget_in_set [symmetric])
    ultimately show "\<exists>u. c \<in> set (subs_of b u)" by blast
  next
    assume "\<exists>u. c \<in> set (subs_of b u)"
    then obtain u where u: "c \<in> set (subs_of b u)" by blast
    then have "mget (br_subs b) u = Some (subs_of b u)" by (cases "mget (br_subs b) u") (simp_all add: subs_of_def)
    then have "(u, subs_of b u) \<in> set (br_subs b)" using assms(2) by (simp add: broker_ok_def mget_in_set)
    with u show "c \<in> set (concat (map snd (br_subs b)))" by force
  qed
  with close_all_effect [OF cs(1)] cs(2)
  show "subs_of b' t = []" "length (br_chans b') = length (br_chans b)"
    "c < length (br_chans b) \<Longrightarrow> ch_queue (br_chans b' ! c) = ch_queue (br_chans b ! c) \<and>
       (ch_closed (br_chans b' ! c) \<longleftrightarrow> ch_closed (br_chans b ! c) \<or> (\<exists>u. c \<in> set (subs_of b u)))"
    by (simp_all add: subs_of_def)
qed

lemma receive_effect:
  assumes "receive i cs = Some (r, cs')" "i < length cs"
  shows "length cs' = length cs" "ch_closed (cs' ! c) = ch_closed (cs ! c)"
    "ch_queue (cs ! c) = (if c = i then (case r of Some e \<Rightarrow> [e] | None \<Rightarrow> []) else []) @ ch_queue (cs' ! c)"
  using assms by (auto simp: receive_def nth_list_update split: list.splits if_splits)

lemma send_effect:
  assumes "send e i cs = Inr cs'" "i < length cs"
  shows "length cs' = length cs" "ch_closed (cs' ! c) = ch_closed (cs ! c)"
    "ch_queue (cs' ! c) = ch_queue (cs ! c) @ (if c = i \<and> length (ch_queue (cs ! i)) < bufferSize then [e] else [])"
  using assms by (auto simp: send_def nth_list_update split: if_splits)

section \<open>The invariant\<close>

text \<open>An event is for the subscribers of a topic.\<close>

definition hears :: "string \<Rightarrow> catalog_event \<Rightarrow> bool" where
  "hears t e \<longleftrightarrow> t = Topic e \<or> (ev_namespace e \<noteq> [] \<and> t = ev_namespace e) \<or> t = ''*''"

text \<open>What was accepted for a client was sent to it, is lost with the connection, or waits.\<close>

definition told :: "stream \<Rightarrow> catalog_event list \<Rightarrow> catalog_event list \<Rightarrow> bool" where
  "told w h q \<longleftrightarrow>
     (\<exists>evs lost. h = evs @ lost @ q \<and>
        (ws_sent w = [] \<and> evs = [] \<and> ws_phase w \<noteq> Streaming \<or>
         ws_sent w = Connected (ws_topic w) # map EventMessage evs \<and> ws_phase w \<noteq> Confirming) \<and>
        (ws_phase w = Confirming \<or> ws_phase w = Streaming \<longrightarrow> lost = [])) \<and>
     (\<forall>e \<in> set h. hears (ws_topic w) e)"

definition placed :: "(string \<Rightarrow> nat list) \<Rightarrow> bool \<Rightarrow> stream \<Rightarrow> nat \<Rightarrow> bool" where
  "placed subs closed w i \<longleftrightarrow>
     (\<forall>t. i \<in> set (subs t) \<longrightarrow> t = ws_topic w \<and> ws_phase w \<noteq> Finished) \<and> (closed \<or> i \<in> set (subs (ws_topic w)))"

definition wstate_ok :: "wstate \<Rightarrow> bool" where
  "wstate_ok s \<longleftrightarrow>
     bstate_ok (bpart s) \<and> length (wt_streams s) = length (chans s) \<and> length (wt_hist s) = length (chans s) \<and>
     (\<forall>i < length (chans s). told (wt_streams s ! i) (wt_hist s ! i) (ch_queue (chans s ! i)) \<and>
        placed (subs_of (wt_broker s)) (ch_closed (chans s ! i)) (wt_streams s ! i) i) \<and>
     (\<forall>(e, cs) \<in> set (wt_sending s). \<forall>c \<in> set cs. hears (ws_topic (wt_streams s ! c)) e)"

lemma no_streams_ok: "wstate_ok no_streams"
  by (simp add: wstate_ok_def no_streams_def bstate_ok_def broker_ok_new) (simp add: NewBroker_def)

lemma matching_hears: "broker_ok b \<Longrightarrow> c \<in> set (matching b e) \<Longrightarrow> \<exists>t. c \<in> set (subs_of b t) \<and> hears t e"
  by (auto simp: matching_def hears_def Let_def split: if_splits)

text \<open>The parts of the invariant beside the broker.\<close>

definition streams_ok :: "wstate \<Rightarrow> bool" where
  "streams_ok s \<longleftrightarrow>
     (\<forall>i < length (chans s). told (wt_streams s ! i) (wt_hist s ! i) (ch_queue (chans s ! i)) \<and>
        placed (subs_of (wt_broker s)) (ch_closed (chans s ! i)) (wt_streams s ! i) i) \<and>
     (\<forall>(e, cs) \<in> set (wt_sending s). \<forall>c \<in> set cs. hears (ws_topic (wt_streams s ! c)) e)"

lemma subs_of_chans [simp]: "subs_of (b\<lparr>br_chans := cs\<rparr>) = subs_of b"
  by (rule ext) simp

lemma wstate_ok_streams:
  "wstate_ok s \<longleftrightarrow> bstate_ok (bpart s) \<and> length (wt_streams s) = length (chans s) \<and> length (wt_hist s) = length (chans s) \<and>
     streams_ok s"
  by (simp add: wstate_ok_def streams_ok_def)

text \<open>A step that changes one stream, and of the broker at most queues.\<close>

lemma streams_ok_set:
  fixes f
  assumes "wstate_ok s" "i < length (wt_streams s)"
  defines "w \<equiv> f (wt_streams s ! i)"
  assumes "ws_topic w = ws_topic (wt_streams s ! i)" "told w (wt_hist s ! i) (ch_queue (cs ! i))"
    "ws_phase w \<noteq> Finished \<or> ws_phase (wt_streams s ! i) = Finished"
    "\<And>c. c < length cs \<Longrightarrow> ch_closed (cs ! c) = ch_closed (chans s ! c)" "length cs = length (chans s)"
    "\<And>c. c < length cs \<Longrightarrow> c \<noteq> i \<Longrightarrow> ch_queue (cs ! c) = ch_queue (chans s ! c)"
  shows "streams_ok (set_stream i f (set_chans cs s))"
proof -
  have "hears (ws_topic ((wt_streams s)[i := w] ! c)) e = hears (ws_topic (wt_streams s ! c)) e" for c e
    using assms(2,4) by (cases "c = i") simp_all
  moreover have "told ((wt_streams s)[i := w] ! j) (wt_hist s ! j) (ch_queue (cs ! j)) \<and>
      placed (subs_of (wt_broker s)) (ch_closed (cs ! j)) ((wt_streams s)[i := w] ! j) j" if "j < length cs" for j
  proof (cases "j = i")
    case True
    have "placed (subs_of (wt_broker s)) (ch_closed (chans s ! i)) (wt_streams s ! i) i"
      using assms(1,8) that True by (simp add: wstate_ok_def)
    with True that assms show ?thesis by (auto simp: placed_def)
  next
    case False
    with that assms show ?thesis by (simp add: wstate_ok_def)
  qed
  ultimately show ?thesis using assms(1) by (simp add: streams_ok_def wstate_ok_def w_def)
qed

lemma streams_ok_here:
  assumes "wstate_ok s" "i < length (wt_streams s)" "ws_topic (f (wt_streams s ! i)) = ws_topic (wt_streams s ! i)"
    "told (f (wt_streams s ! i)) (wt_hist s ! i) (ch_queue (chans s ! i))"
    "ws_phase (f (wt_streams s ! i)) \<noteq> Finished \<or> ws_phase (wt_streams s ! i) = Finished"
  shows "streams_ok (set_stream i f s)"
proof -
  have "set_chans (chans s) s = s" by (simp add: set_chans_def)
  with streams_ok_set [where f = f and cs = "chans s", OF assms(1-5)] show ?thesis by simp
qed

text \<open>A step that changes the broker, and of the streams at most the phase of one that unsubscribes.\<close>

lemma streams_ok_frame:
  assumes "wstate_ok s" "length (br_chans b) = length (chans s)" "wt_streams t = wt_streams s" "wt_hist t = wt_hist s"
    "wt_broker t = b" "set (wt_sending t) \<subseteq> set (wt_sending s)"
    "\<And>c. c < length (chans s) \<Longrightarrow> ch_queue (br_chans b ! c) = ch_queue (chans s ! c)"
    "\<And>c. c < length (chans s) \<Longrightarrow>
       placed (subs_of (wt_broker s)) (ch_closed (chans s ! c)) (wt_streams s ! c) c \<Longrightarrow>
       placed (subs_of b) (ch_closed (br_chans b ! c)) (wt_streams s ! c) c"
  shows "streams_ok t"
  using assms unfolding streams_ok_def wstate_ok_def by (fastforce dest: subsetD)

lemma told_send: "told w h q \<Longrightarrow> hears (ws_topic w) e \<Longrightarrow> told w (h @ [e]) (q @ [e])"
  unfolding told_def by auto

lemma told_phase:
  assumes "told w h q" "p = Leaving \<or> p = Finished" "ws_phase w \<noteq> Confirming \<or> ws_sent w = []"
  shows "told (w\<lparr>ws_phase := p\<rparr>) h q"
  using assms unfolding told_def by auto

lemma told_StreamingE:
  assumes "told w h q" "ws_phase w = Streaming"
  obtains evs where "h = evs @ q" "ws_sent w = Connected (ws_topic w) # map EventMessage evs"
    "\<forall>e \<in> set h. hears (ws_topic w) e"
  using assms unfolding told_def by auto

lemma told_forward:
  assumes "told w h (e # q)" "ws_phase w = Streaming"
  shows "told (w\<lparr>ws_sent := ws_sent w @ [EventMessage e]\<rparr>) h q"
proof -
  obtain evs where e: "h = evs @ e # q" "ws_sent w = Connected (ws_topic w) # map EventMessage evs"
      "\<forall>e \<in> set h. hears (ws_topic w) e"
    using assms by (rule told_StreamingE)
  then have "h = (evs @ [e]) @ [] @ q \<and> ws_sent w @ [EventMessage e] = Connected (ws_topic w) # map EventMessage (evs @ [e])" by simp
  with e(3) assms(2) show ?thesis unfolding told_def
    by (intro conjI exI [of _ "evs @ [e]"] exI [of _ "[]"]) simp_all
qed

lemma told_lose:
  assumes "told w h (e # q)" "ws_phase w = Streaming"
  shows "told (w\<lparr>ws_phase := Leaving\<rparr>) h q"
proof -
  obtain evs where e: "h = evs @ e # q" "ws_sent w = Connected (ws_topic w) # map EventMessage evs"
      "\<forall>e \<in> set h. hears (ws_topic w) e"
    using assms by (rule told_StreamingE)
  then show ?thesis unfolding told_def by (intro conjI exI [of _ evs] exI [of _ "[e]"]) simp_all
qed

lemma told_confirm:
  "told w h q \<Longrightarrow> ws_phase w = Confirming \<Longrightarrow> told (w\<lparr>ws_phase := Streaming, ws_sent := [Connected (ws_topic w)]\<rparr>) h q"
  unfolding told_def by auto

lemma lengths_step:
  assumes "wstep s t" "wstate_ok s"
  shows "length (wt_streams t) = length (chans t) \<and> length (wt_hist t) = length (chans t)"
  using assms(1)
proof cases
  case (opens topic ch b)
  with assms(2) Subscribe_effect [OF opens(3)] show ?thesis by (simp add: wstate_ok_def)
next
  case (forwards i e cs)
  with assms(2) receive_effect(1) [OF forwards(4)] show ?thesis by (simp add: wstate_ok_def)
next
  case (forward_fails i e cs)
  with assms(2) receive_effect(1) [OF forward_fails(4)] show ?thesis by (simp add: wstate_ok_def)
next
  case (channel_ends i cs)
  with assms(2) receive_effect(1) [OF channel_ends(4)] show ?thesis by (simp add: wstate_ok_def)
next
  case (finishes i b)
  with assms(2) unsubscribe_effect(2) [OF finishes(5)] show ?thesis by (simp add: wstate_ok_def)
next
  case (sends ps e c cs qs cs')
  then have "c < length (chans s)" using assms(2) by (auto simp: wstate_ok_def bstate_ok_def open_in_def)
  with sends assms(2) send_effect(1) [OF sends(3)] show ?thesis by (simp add: wstate_ok_def accepted_def)
next
  case (closes b)
  with assms(2) CloseBroker_effect(2) [OF closes(3)] show ?thesis by (simp add: wstate_ok_def bstate_ok_def)
qed (use assms(2) in \<open>simp_all add: wstate_ok_def\<close>)

lemma told_at: "wstate_ok s \<Longrightarrow> i < length (wt_streams s) \<Longrightarrow> told (wt_streams s ! i) (wt_hist s ! i) (ch_queue (chans s ! i))"
  by (simp add: wstate_ok_def)

lemma streams_ok_receive:
  assumes "wstate_ok s" "i < length (wt_streams s)" "receive i (chans s) = Some (r, cs)"
    "ws_topic (f (wt_streams s ! i)) = ws_topic (wt_streams s ! i)"
    "told (f (wt_streams s ! i)) (wt_hist s ! i) (ch_queue (cs ! i))" "ws_phase (f (wt_streams s ! i)) \<noteq> Finished"
  shows "streams_ok (set_stream i f (set_chans cs s))"
proof -
  have i: "i < length (chans s)" using assms(1,2) by (simp add: wstate_ok_def)
  note r = receive_effect [OF assms(3) i]
  show ?thesis
  proof (rule streams_ok_set [where f = f and cs = cs, OF assms(1,2,4,5)])
    show "ch_queue (cs ! c) = ch_queue (chans s ! c)" if "c \<noteq> i" for c using r(3) [of c] that by simp
  qed (use r(1,2) assms(6) in simp_all)
qed

lemma streams_ok_opens:
  assumes "wstate_ok s" "Subscribe topic (wt_broker s) = (Some ch, b)" "wt_sending s = []"
  shows "streams_ok (s\<lparr>wt_broker := b, wt_hist := wt_hist s @ [[]],
      wt_streams := wt_streams s @ [\<lparr>ws_topic = topic, ws_phase = Confirming, ws_sent = [], ws_gone = False\<rparr>]\<rparr>)"
proof -
  note e = Subscribe_effect [OF assms(2)]
  have fresh: "length (chans s) \<notin> set (subs_of (wt_broker s) t)" for t
    using assms(1) by (auto simp: wstate_ok_def bstate_ok_def broker_ok_def open_in_def)
  have "told \<lparr>ws_topic = topic, ws_phase = Confirming, ws_sent = [], ws_gone = False\<rparr> [] []" by (simp add: told_def)
  with assms(1,3) e fresh show ?thesis
    by (auto simp: streams_ok_def wstate_ok_def placed_def nth_append less_Suc_eq)
qed

lemma streams_ok_sends:
  assumes "wstate_ok s" "wt_sending s = ps @ (e, c # cs) # qs" "send e c (chans s) = Inr cs'"
  shows "streams_ok (set_chans cs' s\<lparr>wt_sending := ps @ (e, cs) # qs, wt_hist := accepted e c s\<rparr>)"
proof -
  have c: "c < length (chans s)" "hears (ws_topic (wt_streams s ! c)) e"
    using assms(1,2) by (auto simp: wstate_ok_def bstate_ok_def open_in_def)
  note f = send_effect [OF assms(3) c(1)]
  have "told (wt_streams s ! i) (accepted e c s ! i) (ch_queue (cs' ! i))" if "i < length (chans s)" for i
    using assms(1) that c f(3) [of i] told_send [of "wt_streams s ! c" "wt_hist s ! c" "ch_queue (chans s ! c)" e]
    by (cases "i = c") (simp_all add: wstate_ok_def accepted_def)
  with assms f(1,2) show ?thesis by (fastforce simp: streams_ok_def wstate_ok_def)
qed

lemma streams_ok_finishes:
  assumes "wstate_ok s" "i < length (wt_streams s)" "ws_phase (wt_streams s ! i) = Leaving"
    "unsubscribe (ws_topic (wt_streams s ! i)) i (wt_broker s) = Inr b"
  shows "streams_ok (set_stream i (\<lambda>w. w\<lparr>ws_phase := Finished\<rparr>) (s\<lparr>wt_broker := b\<rparr>))"
proof -
  note u = unsubscribe_effect [OF assms(4)]
  have len: "length (br_chans b) = length (chans s)" using u(2) by simp
  have q: "ch_queue (br_chans b ! c) = ch_queue (chans s ! c)"
    "ch_closed (br_chans b ! c) \<longleftrightarrow> ch_closed (chans s ! c) \<or> c = i \<and> i \<in> set (subs_of (wt_broker s) (ws_topic (wt_streams s ! i)))"
    if "c < length (chans s)" for c using u(2) that by (auto simp: nth_upd)
  have t: "told ((wt_streams s ! i)\<lparr>ws_phase := Finished\<rparr>) (wt_hist s ! i) (ch_queue (chans s ! i))"
    by (rule told_phase [OF told_at [OF assms(1,2)]]) (use assms(3) in simp_all)
  have "ws_topic ((wt_streams s)[i := (wt_streams s ! i)\<lparr>ws_phase := Finished\<rparr>] ! c) = ws_topic (wt_streams s ! c)" for c
    using assms(2) by (cases "c = i") simp_all
  moreover have "placed (subs_of b) (ch_closed (br_chans b ! c)) ((wt_streams s)[i := (wt_streams s ! i)\<lparr>ws_phase := Finished\<rparr>] ! c) c"
    if "c < length (chans s)" for c
  proof -
    have "placed (subs_of (wt_broker s)) (ch_closed (chans s ! c)) (wt_streams s ! c) c"
      using assms(1) that by (simp add: wstate_ok_def)
    then show ?thesis using assms(2) unfolding placed_def q(2) [OF that] u(1)
      by (cases "c = i") (auto split: if_splits)
  qed
  moreover have "told ((wt_streams s)[i := (wt_streams s ! i)\<lparr>ws_phase := Finished\<rparr>] ! c) (wt_hist s ! c) (ch_queue (br_chans b ! c))"
    if "c < length (chans s)" for c
    using t assms(1,2) that q(1) [OF that] by (cases "c = i") (simp_all add: wstate_ok_def)
  ultimately show ?thesis using assms(1) len by (simp add: streams_ok_def wstate_ok_def)
qed

lemma wstate_ok_step:
  assumes "wstep s t" "wstate_ok s"
  shows "wstate_ok t"
proof -
  have b: "bstate_ok (bpart t)"
    using wstep_bstep [OF assms(1)] assms(2) bstep_ok [of "bpart s" "Inr (bpart t)"] by (auto simp: wstate_ok_def)
  have "streams_ok t"
    using assms(1)
  proof cases
    case (opens topic ch b)
    with streams_ok_opens [OF assms(2) opens(3,2)] show ?thesis by simp
  next
    case (confirms i)
    show ?thesis unfolding confirms(1)
      by (rule streams_ok_here [OF assms(2) confirms(2)]) (use told_confirm [OF told_at [OF assms(2) confirms(2)]] confirms(3) in simp_all)
  next
    case (confirm_fails i)
    have "ws_sent (wt_streams s ! i) = []" using told_at [OF assms(2) confirm_fails(2)] confirm_fails(3) by (auto simp: told_def)
    with told_phase [OF told_at [OF assms(2) confirm_fails(2)]] show ?thesis unfolding confirm_fails(1)
      by (intro streams_ok_here [OF assms(2) confirm_fails(2)]) simp_all
  next
    case (forwards i e cs)
    have i: "i < length (chans s)" using assms(2) forwards(2) by (simp add: wstate_ok_def)
    have "told (wt_streams s ! i) (wt_hist s ! i) (e # ch_queue (cs ! i))"
      using told_at [OF assms(2) forwards(2)] receive_effect(3) [OF forwards(4) i, of i] by simp
    from told_forward [OF this forwards(3)] show ?thesis
      unfolding forwards(1)
      by (intro streams_ok_receive [OF assms(2) forwards(2,4)]) (use forwards(3) in simp_all)
  next
    case (forward_fails i e cs)
    have i: "i < length (chans s)" using assms(2) forward_fails(2) by (simp add: wstate_ok_def)
    have "told (wt_streams s ! i) (wt_hist s ! i) (e # ch_queue (cs ! i))"
      using told_at [OF assms(2) forward_fails(2)] receive_effect(3) [OF forward_fails(4) i, of i] by simp
    from told_lose [OF this forward_fails(3)] show ?thesis
      unfolding forward_fails(1)
      by (intro streams_ok_receive [OF assms(2) forward_fails(2,4)]) simp_all
  next
    case (channel_ends i cs)
    have i: "i < length (chans s)" using assms(2) channel_ends(2) by (simp add: wstate_ok_def)
    have "told (wt_streams s ! i) (wt_hist s ! i) (ch_queue (cs ! i))"
      using told_at [OF assms(2) channel_ends(2)] receive_effect(3) [OF channel_ends(4) i, of i] by simp
    from told_phase [OF this, of Leaving] show ?thesis
      unfolding channel_ends(1)
      by (intro streams_ok_receive [OF assms(2) channel_ends(2,4)]) (use channel_ends(3) in simp_all)
  next
    case (hangs_up i)
    have "told ((wt_streams s ! i)\<lparr>ws_gone := True\<rparr>) (wt_hist s ! i) (ch_queue (chans s ! i))"
      using told_at [OF assms(2) hangs_up(2)] by (simp add: told_def)
    then show ?thesis unfolding hangs_up(1)
      by (intro streams_ok_here [OF assms(2) hangs_up(2)]) simp_all
  next
    case (sees i)
    with told_phase [OF told_at [OF assms(2) sees(2)], of Leaving] show ?thesis unfolding sees(1)
      by (intro streams_ok_here [OF assms(2) sees(2)]) simp_all
  next
    case (finishes i b)
    with streams_ok_finishes [OF assms(2) finishes(2,3,5)] show ?thesis by simp
  next
    case (publishes e)
    have "broker_ok (wt_broker s)" using assms(2) by (simp add: wstate_ok_def bstate_ok_def)
    then have "hears (ws_topic (wt_streams s ! c)) e" if "c \<in> set (matching (wt_broker s) e)" for c
      using matching_hears [OF _ that] matching_open [OF _ that] assms(2) by (fastforce simp: wstate_ok_def placed_def open_in_def)
    with publishes assms(2) show ?thesis by (auto simp: streams_ok_def wstate_ok_def)
  next
    case (sends ps e c cs qs cs')
    with streams_ok_sends [OF assms(2) sends(2,3)] show ?thesis by simp
  next
    case (has_sent ps e qs)
    with assms(2) show ?thesis by (auto simp: streams_ok_def wstate_ok_def)
  next
    case (closes b)
    have ok: "broker_ok (wt_broker s)" using assms(2) by (simp add: wstate_ok_def bstate_ok_def)
    note c = CloseBroker_effect [OF closes(3) ok]
    have "placed (subs_of b) (ch_closed (br_chans b ! c)) (wt_streams s ! c) c"
      if "c < length (chans s)" "placed (subs_of (wt_broker s)) (ch_closed (chans s ! c)) (wt_streams s ! c) c" for c
      using that c(1) c(3) [OF that(1)] by (auto simp: placed_def)
    with closes c show ?thesis by (intro streams_ok_frame [OF assms(2), where b = b]) simp_all
  qed
  with b lengths_step [OF assms] show ?thesis by (simp add: wstate_ok_streams)
qed

lemma wreach_ok: "wreach s \<Longrightarrow> wstate_ok s"
  by (induction rule: wreach.induct) (use no_streams_ok wstate_ok_step in blast)+

text \<open>C28: the event stream.  However clients come, hang up and stop reading while events are published and the broker is
  closed: what a client was sent is the confirmation and then the events that its channel accepted, in their
  order and without a gap, all of them for the topic it asked for; at most 16 wait; as long as the stream runs none
  is lost; and when a connection has ended, its channel is closed and in no topic any more.  Giving up a
  subscription never panics.\<close>

theorem stream_delivers:
  assumes "wreach s" "i < length (wt_streams s)"
  shows "\<exists>evs lost. wt_hist s ! i = evs @ lost @ ch_queue (chans s ! i) \<and>
      (ws_sent (wt_streams s ! i) = [] \<and> evs = [] \<or>
       ws_sent (wt_streams s ! i) = Connected (ws_topic (wt_streams s ! i)) # map EventMessage evs) \<and>
      list_all (hears (ws_topic (wt_streams s ! i))) evs \<and>
      (ws_phase (wt_streams s ! i) = Streaming \<longrightarrow> lost = []) \<and> length (ch_queue (chans s ! i)) \<le> 16 \<and>
      (ws_phase (wt_streams s ! i) = Finished \<longrightarrow>
         ch_closed (chans s ! i) \<and> (\<forall>t. i \<notin> set (subs_of (wt_broker s) t))) \<and>
      unsubscribe t i (wt_broker s) \<noteq> Inl msg"
proof -
  note ok = wreach_ok [OF assms(1)]
  have i: "i < length (chans s)" using ok assms(2) by (simp add: wstate_ok_def)
  have b: "broker_ok (wt_broker s)" using ok by (simp add: wstate_ok_def bstate_ok_def)
  with i have q: "length (ch_queue (chans s ! i)) \<le> 16" by (simp add: broker_ok_def bufferSize_def)
  have u: "unsubscribe t i (wt_broker s) \<noteq> Inl msg" using broker_ok_unsubscribe [OF b, of t i] by auto
  have p: "placed (subs_of (wt_broker s)) (ch_closed (chans s ! i)) (wt_streams s ! i) i"
    using ok i by (simp add: wstate_ok_def)
  then have f: "ws_phase (wt_streams s ! i) = Finished \<longrightarrow> ch_closed (chans s ! i) \<and> (\<forall>t. i \<notin> set (subs_of (wt_broker s) t))"
    by (auto simp: placed_def)
  from told_at [OF ok assms(2)] obtain evs lost where
    "wt_hist s ! i = evs @ lost @ ch_queue (chans s ! i)"
    "ws_sent (wt_streams s ! i) = [] \<and> evs = [] \<or>
       ws_sent (wt_streams s ! i) = Connected (ws_topic (wt_streams s ! i)) # map EventMessage evs"
    "ws_phase (wt_streams s ! i) = Streaming \<longrightarrow> lost = []" "\<forall>e \<in> set (wt_hist s ! i). hears (ws_topic (wt_streams s ! i)) e"
    unfolding told_def by blast
  with q u f show ?thesis by (intro exI [of _ evs] exI [of _ lost]) (simp add: list_all_iff)
qed

text \<open>A client subscribes to everything and is sent the creation of a table.\<close>

definition sample_event :: catalog_event where
  "sample_event = WithTable ''t'' (WithNamespace ''a'' (NewEvent ''u'' 0 ''table.created''))"

definition sample_stream :: wstate where
  "sample_stream =
     \<lparr>wt_broker = \<lparr>br_subs = [(''*'', [0])], br_chans = [\<lparr>ch_queue = [], ch_closed = False\<rparr>], br_closed = False\<rparr>,
      wt_sending = [],
      wt_streams = [\<lparr>ws_topic = ''*'', ws_phase = Streaming, ws_sent = [Connected ''*''], ws_gone = False\<rparr>],
      wt_hist = [[]]\<rparr>"

lemma sample_stream_reached: "wreach sample_stream"
proof -
  let ?w = "\<lparr>ws_topic = ''*'', ws_phase = Confirming, ws_sent = [], ws_gone = False\<rparr>"
  let ?s = "sample_stream\<lparr>wt_streams := [?w]\<rparr>"
  have "wstep no_streams ?s"
    using wstep.opens [of no_streams "''*''" 0 "wt_broker ?s"]
    by (simp add: no_streams_def sample_stream_def Subscribe_def NewBroker_def subs_of_def mget_def mput_def)
  then have "wreach ?s" by (rule wreach.more [OF wreach.start])
  moreover have "wstep ?s sample_stream"
    using wstep.confirms [of 0 ?s] by (simp add: sample_stream_def set_stream_def)
  ultimately show ?thesis by (rule wreach.more)
qed

lemma sample_matching: "matching (wt_broker sample_stream) sample_event = [0]"
  by (simp add: matching_def sample_stream_def sample_event_def Topic_def NewEvent_def WithNamespace_def WithTable_def
      subs_of_def mget_def)

theorem stream_delivers_witness:
  "\<exists>s. wreach s \<and> ws_sent (wt_streams s ! 0) = [Connected ''*'', EventMessage sample_event] \<and>
    wt_hist s ! 0 = [sample_event] \<and> hears ''*'' sample_event"
proof -
  let ?s1 = "sample_stream\<lparr>wt_sending := [(sample_event, [0])]\<rparr>"
  have "wstep sample_stream ?s1"
    using wstep.publishes [of sample_stream sample_event] by (simp add: sample_matching) (simp add: sample_stream_def)
  with sample_stream_reached have r1: "wreach ?s1" by (rule wreach.more)
  let ?s2 = "sample_stream\<lparr>wt_sending := [(sample_event, [])], wt_hist := [[sample_event]],
    wt_broker := (wt_broker sample_stream)\<lparr>br_chans := [\<lparr>ch_queue = [sample_event], ch_closed = False\<rparr>]\<rparr>\<rparr>"
  have "wstep ?s1 ?s2"
    using wstep.sends [of ?s1 "[]" sample_event 0 "[]" "[]"]
    by (simp add: send_def accepted_def set_chans_def sample_stream_def bufferSize_def)
  with r1 have r2: "wreach ?s2" by (rule wreach.more)
  let ?s3 = "?s2\<lparr>wt_broker := wt_broker sample_stream,
    wt_streams := [\<lparr>ws_topic = ''*'', ws_phase = Streaming, ws_sent = [Connected ''*'', EventMessage sample_event], ws_gone = False\<rparr>]\<rparr>"
  have "wstep ?s2 ?s3"
    using wstep.forwards [of 0 ?s2 sample_event "[\<lparr>ch_queue = [], ch_closed = False\<rparr>]"]
    by (simp add: receive_def set_stream_def set_chans_def sample_stream_def)
  with r2 have r3: "wreach ?s3" by (rule wreach.more)
  from stream_delivers [OF r3, of 0 "''*''" "[]"] have "hears ''*'' sample_event" by (auto simp: sample_stream_def)
  with r3 show ?thesis by (intro exI [of _ ?s3]) simp
qed

end
