(* ===== verification/Election.thy ===== *)
theory Election
  imports Keys
begin

text \<open>
  \<open>internal/leader/election.go\<close>: leader election by advisory locks of PostgreSQL.

  An advisory lock belongs to a session, that is, to one connection of the pool of one node; a session may
  take it several times and must give it back as often; it is freed when the connection is closed, as the
  pool does with old and idle connections.  Which connection of its pool a statement uses is not up to the
  elector: here it is an argument.  A connection is a pair of its node and a number.
\<close>

section \<open>The elector\<close>

definition LockKeyCleanup :: int where
  "LockKeyCleanup = 1"

definition LockKeyMetrics :: int where
  "LockKeyMetrics = 2"

type_synonym conn = "nat \<times> nat"

text \<open>The server: for each key the session that holds it and how often.\<close>

type_synonym advisory = "int \<rightharpoonup> conn \<times> nat"

definition pg_try_advisory_lock :: "conn \<Rightarrow> int \<Rightarrow> advisory \<Rightarrow> bool \<times> advisory" where
  "pg_try_advisory_lock c key a =
     (case a key of
        None \<Rightarrow> (True, a(key \<mapsto> (c, 1)))
      | Some (c', n) \<Rightarrow> if c' = c then (True, a(key \<mapsto> (c, n + 1))) else (False, a))"

definition pg_advisory_unlock :: "conn \<Rightarrow> int \<Rightarrow> advisory \<Rightarrow> bool \<times> advisory" where
  "pg_advisory_unlock c key a =
     (case a key of
        None \<Rightarrow> (False, a)
      | Some (c', n) \<Rightarrow>
          if c' \<noteq> c then (False, a)
          else (True, a(key := (if n \<le> 1 then None else Some (c, n - 1)))))"

definition end_session :: "conn \<Rightarrow> advisory \<Rightarrow> advisory" where
  "end_session c a = (\<lambda>key. case a key of Some (c', n) \<Rightarrow> if c' = c then None else Some (c', n) | None \<Rightarrow> None)"

text \<open>The field \<open>locks\<close> of an elector: the keys it thinks it holds.  An operation is given the number of
  the connection its statement uses, or \<open>None\<close> where the statement fails.  \<open>TryAcquire\<close> returns \<open>None\<close>
  for an error; \<open>Release\<close> returns whether it did.\<close>

definition TryAcquire :: "nat \<Rightarrow> nat option \<Rightarrow> int \<Rightarrow> int set \<Rightarrow> advisory \<Rightarrow> bool option \<times> int set \<times> advisory" where
  "TryAcquire node conn key locks a =
     (if key \<in> locks then (Some True, locks, a)
      else (case conn of
        None \<Rightarrow> (None, locks, a)
      | Some c \<Rightarrow>
          (case pg_try_advisory_lock (node, c) key a of
             (acquired, a') \<Rightarrow> (Some acquired, if acquired then insert key locks else locks, a'))))"

definition Release :: "nat \<Rightarrow> nat option \<Rightarrow> int \<Rightarrow> int set \<Rightarrow> advisory \<Rightarrow> bool \<times> int set \<times> advisory" where
  "Release node conn key locks a =
     (if key \<notin> locks then (True, locks, a)
      else (case conn of
        None \<Rightarrow> (False, locks, a)
      | Some c \<Rightarrow> (True, locks - {key}, snd (pg_advisory_unlock (node, c) key a))))"

text \<open>\<open>ReleaseAll\<close>, the keys in the order of the iteration, each with the connection of its statement.\<close>

fun release_each :: "nat \<Rightarrow> (int \<times> nat option) list \<Rightarrow> advisory \<Rightarrow> advisory" where
  "release_each node [] a = a"
| "release_each node ((key, conn) # rest) a =
     release_each node rest
       (case conn of None \<Rightarrow> a | Some c \<Rightarrow> snd (pg_advisory_unlock (node, c) key a))"

definition ReleaseAll :: "nat \<Rightarrow> (int \<times> nat option) list \<Rightarrow> advisory \<Rightarrow> int set \<times> advisory" where
  "ReleaseAll node keys a = ({}, release_each node keys a)"

definition IsLeader :: "int \<Rightarrow> int set \<Rightarrow> bool" where
  "IsLeader key locks = (key \<in> locks)"

section \<open>The cluster\<close>

text \<open>
  The electors of all nodes and the server.  \<open>estep closing\<close> is a step of one of them; connections are
  closed only if \<open>closing\<close>.
\<close>

type_synonym cluster = "(nat \<Rightarrow> int set) \<times> advisory"

inductive estep :: "bool \<Rightarrow> cluster \<Rightarrow> cluster \<Rightarrow> bool" for closing where
  acquire: "TryAcquire node conn key (L node) a = (r, l, a') \<Longrightarrow> estep closing (L, a) (L(node := l), a')"
| release: "Release node conn key (L node) a = (r, l, a') \<Longrightarrow> estep closing (L, a) (L(node := l), a')"
| release_all: "ReleaseAll node keys a = (l, a') \<Longrightarrow> set (map fst keys) = L node \<Longrightarrow>
    estep closing (L, a) (L(node := l), a')"
| close: "closing \<Longrightarrow> estep closing (L, a) (L, end_session c a)"

inductive ereach :: "bool \<Rightarrow> cluster \<Rightarrow> bool" for closing where
  start: "ereach closing (\<lambda>_. {}, Map.empty)"
| more: "ereach closing s \<Longrightarrow> estep closing s s' \<Longrightarrow> ereach closing s'"

text \<open>Who thinks it leads holds the lock, on one of its connections.\<close>

definition led :: "cluster \<Rightarrow> bool" where
  "led s \<longleftrightarrow> (\<forall>node key. key \<in> fst s node \<longrightarrow> (\<exists>c n. snd s key = Some ((node, c), n)))"

lemma unlock_other: "node \<noteq> node' \<Longrightarrow> a key' = Some ((node', c'), n) \<Longrightarrow>
    snd (pg_advisory_unlock (node, c) key a) key' = Some ((node', c'), n)"
  by (auto simp: pg_advisory_unlock_def split: option.splits)

lemma unlock_other_key: "key' \<noteq> key \<Longrightarrow> snd (pg_advisory_unlock c key a) key' = a key'"
  by (auto simp: pg_advisory_unlock_def split: option.splits)

lemma release_each_other:
  "node \<noteq> node' \<Longrightarrow> a key' = Some ((node', c'), n) \<Longrightarrow> release_each node keys a key' = Some ((node', c'), n)"
  by (induction node keys a rule: release_each.induct) (auto simp: unlock_other split: option.splits)

lemma ledD: "led (L, a) \<Longrightarrow> key \<in> L m \<Longrightarrow> \<exists>c n. a key = Some ((m, c), n)"
  by (simp add: led_def)

lemma led_update:
  assumes "led (L, a)"
    "\<And>m d n key'. m \<noteq> node \<Longrightarrow> a key' = Some ((m, d), n) \<Longrightarrow> a' key' = Some ((m, d), n)"
    "\<And>key'. key' \<in> l \<Longrightarrow> \<exists>c n. a' key' = Some ((node, c), n)"
  shows "led (L(node := l), a')"
  unfolding led_def fst_conv snd_conv
proof (intro allI impI)
  fix m key' assume m: "key' \<in> (L(node := l)) m"
  show "\<exists>c n. a' key' = Some ((m, c), n)"
  proof (cases "m = node")
    case False
    with m ledD [OF assms(1)] obtain c n where "a key' = Some ((m, c), n)" by fastforce
    from assms(2) [OF False this] show ?thesis by blast
  qed (use m assms(3) in simp)
qed

lemma led_TryAcquire:
  assumes "led (L, a)" "TryAcquire node conn key (L node) a = (r, l, a')"
  shows "led (L(node := l), a')"
proof (rule led_update [OF assms(1)])
  have mine: "\<exists>c n. a key' = Some ((node, c), n)" if "key' \<in> L node" for key'
    using assms(1) that by (simp add: led_def)
  show "a' key' = Some ((m, d), n)" if "m \<noteq> node" "a key' = Some ((m, d), n)" for m d n key'
    using assms(2) that
    by (auto simp: TryAcquire_def pg_try_advisory_lock_def split: if_splits option.splits)
  show "\<exists>c n. a' key' = Some ((node, c), n)" if "key' \<in> l" for key'
  proof (cases "key \<in> L node \<or> conn = None")
    case True
    with assms(2) that mine show ?thesis by (auto simp: TryAcquire_def split: if_splits option.splits)
  next
    case False
    then obtain c where c: "conn = Some c" "key \<notin> L node" by auto
    show ?thesis
    proof (cases "key' = key")
      case True
      with c assms(2) that show ?thesis
        by (auto simp: TryAcquire_def pg_try_advisory_lock_def split: option.splits if_splits)
    next
      case False
      with c assms(2) that have "key' \<in> L node" by (auto simp: TryAcquire_def split: prod.splits if_splits)
      with mine False c assms(2) show ?thesis
        by (auto simp: TryAcquire_def pg_try_advisory_lock_def split: option.splits if_splits)
    qed
  qed
qed

lemma led_Release:
  assumes "led (L, a)" "Release node conn key (L node) a = (r, l, a')"
  shows "led (L(node := l), a')"
proof (rule led_update [OF assms(1)])
  show "a' key' = Some ((m, d), n)" if "m \<noteq> node" "a key' = Some ((m, d), n)" for m d n key'
    using assms(2) that unlock_other [of node m a key' d n]
    by (auto simp: Release_def split: if_splits option.splits)
  show "\<exists>c n. a' key' = Some ((node, c), n)" if "key' \<in> l" for key'
    using assms that unlock_other_key [of key' key]
    by (auto simp: Release_def led_def split: if_splits option.splits)
qed

lemma estep_led: "estep False s s' \<Longrightarrow> led s \<Longrightarrow> led s'"
proof (induction rule: estep.induct)
  case (acquire node conn key L a r l a')
  then show ?case by (blast intro: led_TryAcquire)
next
  case (release node conn key L a r l a')
  then show ?case by (blast intro: led_Release)
next
  case (release_all node keys a l a' L)
  then show ?case
    by (intro led_update [where a = a]) (auto simp: ReleaseAll_def release_each_other)
qed simp

lemma ereach_led: "ereach False s \<Longrightarrow> led s"
proof (induction rule: ereach.induct)
  case start
  show ?case by (simp add: led_def)
qed (rule estep_led)

text \<open>C34: mutual exclusion of the leaders, as long as no connection is closed: whatever connections the
  statements of the electors use, at most one elector thinks that it holds a key.\<close>

theorem one_leader_while_connected:
  assumes "ereach False (L, a)"
  shows "\<exists>m. {n. IsLeader key (L n)} \<subseteq> {m}"
proof (cases "\<exists>m. key \<in> L m")
  case True
  then obtain m where "key \<in> L m" ..
  then have "n = m" if "key \<in> L n" for n
    using ledD [OF ereach_led [OF assms], of key m] ledD [OF ereach_led [OF assms] that] by auto
  then show ?thesis by (auto simp: IsLeader_def)
qed (simp add: IsLeader_def)

lemma first_leader: "ereach closing ((\<lambda>_. {})(0 := {LockKeyCleanup}), [LockKeyCleanup \<mapsto> ((0, 0), 1)])"
  by (rule ereach.more [OF ereach.start], rule estep.acquire [where conn = "Some 0" and key = LockKeyCleanup])
    (simp add: TryAcquire_def pg_try_advisory_lock_def)

theorem one_leader_while_connected_witness:
  "\<exists>m. {n. IsLeader LockKeyCleanup (((\<lambda>_. {})(0 := {LockKeyCleanup})) n)} \<subseteq> {m :: nat}"
  by (rule one_leader_while_connected [OF first_leader])

text \<open>
  With connections being closed, as the pool does by its configuration after five minutes, the elector is
  not told that it lost its lock, and two nodes lead.
\<close>

theorem two_leaders:
  "\<exists>L a. ereach True (L, a) \<and> IsLeader LockKeyCleanup (L 0) \<and> IsLeader LockKeyCleanup (L 1)"
proof -
  let ?k = LockKeyCleanup
  let ?L1 = "(\<lambda>_. {})(0 := {?k})"
  have "ereach True (?L1, end_session (0, 0) [?k \<mapsto> ((0, 0), 1)])"
    by (rule ereach.more [OF first_leader]) (rule estep.close, simp)
  moreover have "end_session (0, 0) [?k \<mapsto> ((0, 0), 1)] = Map.empty" by (auto simp: end_session_def)
  ultimately have "ereach True (?L1, Map.empty)" by simp
  then have "ereach True (?L1(1 := {?k}), [?k \<mapsto> ((1, 0), 1)])"
    by (rule ereach.more, intro estep.acquire [where conn = "Some 0" and key = ?k])
      (simp add: TryAcquire_def pg_try_advisory_lock_def)
  then show ?thesis by (intro exI conjI) (auto simp: IsLeader_def)
qed

text \<open>
  And \<open>Release\<close> on another connection than the one that took the lock frees nothing: nobody leads, and no
  other node can.
\<close>

theorem lost_lock:
  "\<exists>L a. ereach False (L, a) \<and> L = (\<lambda>_. {}) \<and> (\<forall>node c. node \<noteq> 0 \<longrightarrow>
     TryAcquire node (Some c) LockKeyCleanup (L node) a = (Some False, {}, a))"
proof -
  let ?a = "[LockKeyCleanup \<mapsto> ((0 :: nat, 0 :: nat), 1 :: nat)]"
  have "ereach False (((\<lambda>_. {})(0 := {LockKeyCleanup}))(0 := {}), ?a)"
    by (rule ereach.more [OF first_leader], rule estep.release [where conn = "Some 1" and key = LockKeyCleanup])
      (simp add: Release_def pg_advisory_unlock_def)
  moreover have "((\<lambda>_. {})(0 := {LockKeyCleanup}))(0 := {}) = (\<lambda>_ :: nat. {} :: int set)" by auto
  ultimately have "ereach False (\<lambda>_. {}, ?a)" by simp
  then show ?thesis
    by (intro exI [of _ "\<lambda>_. {}"] exI [of _ ?a]) (simp add: TryAcquire_def pg_try_advisory_lock_def)
qed

end
