(* ===== verification/AuthProps.thy ===== *)
theory AuthProps
  imports Auth
begin

text \<open>
  Properties of keys, tokens and the two middlewares: who gets through, for how long, and with which
  permissions.
\<close>

section \<open>Who gets through\<close>

text \<open>
  The credentials a principal stands for: a token or key of the database whose hash is that of the
  presented text and that has not expired, or a key rotated from it less than 24 hours ago.
\<close>

definition token_principal :: "(string \<Rightarrow> string) \<Rightarrow> int \<Rightarrow> string \<Rightarrow> principal \<Rightarrow> db \<Rightarrow> bool" where
  "token_principal H now tok who d \<longleftrightarrow>
     (\<exists>t \<in> set (d_tokens d). tk_hash t = H tok \<and> to_us now < tk_expires t \<and>
        who = \<lparr>pc_id = tk_client t, pc_type = ''oauth2'', pc_scopes = tk_scopes t, pc_client = tk_client t\<rparr>)"

definition key_principal :: "(string \<Rightarrow> string) \<Rightarrow> (nat \<Rightarrow> string) \<Rightarrow> int \<Rightarrow> string \<Rightarrow> principal \<Rightarrow> db \<Rightarrow> bool" where
  "key_principal H uuid_text now tok who d \<longleftrightarrow>
     (\<exists>r \<in> set (d_keys d).
        (kr_hash r = H tok \<and> pc_type who = ''api_key'' \<or>
         kr_prev r = Some (H tok) \<and> pc_type who = ''api_key_rotated'' \<and>
         (case kr_rotated r of None \<Rightarrow> False | Some t \<Rightarrow> to_us (now - RotationGracePeriod) < t)) \<and>
        (case kr_expires r of None \<Rightarrow> True | Some e \<Rightarrow> now \<le> from_us e) \<and>
        pc_id who = uuid_text (kr_id r) \<and> pc_scopes who = kr_scopes r)"

text \<open>Only the time a key was last used differs.\<close>

definition same_but_used :: "db \<Rightarrow> db \<Rightarrow> bool" where
  "same_but_used d d' \<longleftrightarrow> d\<lparr>d_keys := map (\<lambda>r. r\<lparr>kr_used := None\<rparr>) (d_keys d)\<rparr> =
     d'\<lparr>d_keys := map (\<lambda>r. r\<lparr>kr_used := None\<rparr>) (d_keys d')\<rparr>"

lemma same_but_used_touch: "same_but_used d (sql_touch_key t i d)"
  by (cases d) (auto simp: same_but_used_def sql_touch_key_def update_key_def)

lemma same_but_used_refl: "same_but_used d d"
  by (simp add: same_but_used_def)

lemma run_validateBearerToken:
  "(\<exists>err. run (validateBearerToken H now tok k) d = run (k (Inl err)) d) \<or>
   (\<exists>who. token_principal H now tok who d \<and> run (validateBearerToken H now tok k) d = run (k (Inr who)) d)"
proof (cases "sql_token (H tok) (to_us now) d")
  case None
  then show ?thesis by (auto simp: validateBearerToken_def)
next
  case (Some t)
  then have "t \<in> set (d_tokens d)" "tk_hash t = H tok" "to_us now < tk_expires t"
    by (auto simp: sql_token_def dest: find_SomeD)
  with Some show ?thesis by (auto simp: validateBearerToken_def token_principal_def)
qed

lemma run_accept_key:
  "run (accept_key ut now b row k) d =
     (if (case kr_expires row of None \<Rightarrow> False | Some e \<Rightarrow> from_us e < now) then run (k (Inl ''API key expired'')) d
      else run (k (Inr \<lparr>pc_id = ut (kr_id row), pc_type = (if b then ''api_key_rotated'' else ''api_key''),
             pc_scopes = kr_scopes row, pc_client = kr_name row\<rparr>)) (sql_touch_key (to_us now) (kr_id row) d))"
  by (simp add: accept_key_def Let_def)

lemma run_validateAPIKey:
  "run (validateAPIKey H ut now tok k) d =
     (case sql_current_key (H tok) d of
        Some row \<Rightarrow> run (accept_key ut now False row k) d
      | None \<Rightarrow>
          (case sql_previous_key (H tok) (to_us (now - RotationGracePeriod)) d of
             Some row \<Rightarrow> run (accept_key ut now True row k) d
           | None \<Rightarrow> run (k (Inl ''invalid API key'')) d))"
  by (simp add: validateAPIKey_def Let_def split: option.splits)

lemma run_validateAPIKey_cases:
  "(\<exists>err. run (validateAPIKey H ut now tok k) d = run (k (Inl err)) d) \<or>
   (\<exists>who d1. key_principal H ut now tok who d \<and> same_but_used d d1 \<and>
      run (validateAPIKey H ut now tok k) d = run (k (Inr who)) d1)"
proof -
  have accept: "(\<exists>err. run (accept_key ut now b row k) d = run (k (Inl err)) d) \<or>
      (\<exists>who d1. key_principal H ut now tok who d \<and> same_but_used d d1 \<and>
        run (accept_key ut now b row k) d = run (k (Inr who)) d1)"
    if "row \<in> set (d_keys d)" "\<not> b \<Longrightarrow> kr_hash row = H tok"
      "b \<Longrightarrow> kr_prev row = Some (H tok) \<and>
        (case kr_rotated row of None \<Rightarrow> False | Some t \<Rightarrow> to_us (now - RotationGracePeriod) < t)" for b row
  proof (cases "case kr_expires row of None \<Rightarrow> False | Some e \<Rightarrow> from_us e < now")
    case False
    let ?who = "\<lparr>pc_id = ut (kr_id row), pc_type = (if b then ''api_key_rotated'' else ''api_key''),
             pc_scopes = kr_scopes row, pc_client = kr_name row\<rparr>"
    have "key_principal H ut now tok ?who d" unfolding key_principal_def
      by (rule bexI [OF _ that(1)]) (use that(2,3) False in \<open>auto split: option.splits\<close>)
    moreover have "run (accept_key ut now b row k) d =
        run (k (Inr ?who)) (sql_touch_key (to_us now) (kr_id row) d)" using False by (simp add: run_accept_key)
    ultimately show ?thesis using same_but_used_touch [of d] by blast
  qed (auto simp: run_accept_key)
  show ?thesis
  proof (cases "sql_current_key (H tok) d")
    case (Some row)
    then have "row \<in> set (d_keys d)" "kr_hash row = H tok" by (auto simp: sql_current_key_def dest: find_SomeD)
    with accept [of row False] Some show ?thesis by (simp add: run_validateAPIKey)
  next
    case None
    show ?thesis
    proof (cases "sql_previous_key (H tok) (to_us (now - RotationGracePeriod)) d")
      case (Some row)
      then have "row \<in> set (d_keys d)" "kr_prev row = Some (H tok) \<and>
          (case kr_rotated row of None \<Rightarrow> False | Some t \<Rightarrow> to_us (now - RotationGracePeriod) < t)"
        by (auto simp: sql_previous_key_def dest: find_SomeD)
      with accept [of row True] Some None show ?thesis by (simp add: run_validateAPIKey)
    qed (use None in \<open>auto simp: run_validateAPIKey\<close>)
  qed
qed

text \<open>The ways a request can take.\<close>

lemma Auth_ways:
  assumes "\<not> shouldSkipAuth path (buildSkipPaths (au_polaris cfg))"
  obtains (out) msg where "Auth cfg H ut now path header inner = unauthorizedError msg"
    | (bearer) s tok where "split_space header = Some (s, tok)" "au_oauth2 cfg"
        "Auth cfg H ut now path header inner = validateBearerToken H now tok
           (\<lambda>r. case r of Inl err \<Rightarrow> unauthorizedError err | Inr who \<Rightarrow> inner (Some who))"
    | (key) s tok where "split_space header = Some (s, tok)" "au_api_key cfg"
        "Auth cfg H ut now path header inner = validateAPIKey H ut now tok
           (\<lambda>r. case r of Inl err \<Rightarrow> unauthorizedError err | Inr who \<Rightarrow> inner (Some who))"
proof (cases "header = [] \<or> split_space header = None")
  case True
  with assms have "\<exists>msg. Auth cfg H ut now path header inner = unauthorizedError msg" by (auto simp: Auth_def)
  with out show thesis by blast
next
  case False
  then obtain s tok where h: "header \<noteq> []" "split_space header = Some (s, tok)" by auto
  note A = Auth_def [of cfg H ut now path header inner, unfolded h(2) option.case prod.case Let_def]
  consider "to_lower s = ''bearer''" | "to_lower s \<noteq> ''bearer''" "to_lower s = ''x-api-key''"
    | "to_lower s \<noteq> ''bearer''" "to_lower s \<noteq> ''x-api-key''" by blast
  then show thesis
  proof cases
    case 1
    with assms h show thesis
      by (cases "au_oauth2 cfg"; cases "au_api_key cfg") (simp_all add: A out bearer [OF h(2)] key [OF h(2)])
  next
    case 2
    with assms h show thesis by (cases "au_api_key cfg") (simp_all add: A out key [OF h(2)])
  next
    case 3
    with assms h show thesis by (simp add: A out)
  qed
qed

text \<open>C11: where authentication applies, it is complete mediation: a request on a path that is not skipped
  either ends with a 401 and no change of the database, or its handler runs for a principal whose
  credential, the text after the scheme of its header, is in the database and valid now: a token not
  expired, or a key not expired that is current or was rotated away less than 24 hours ago, of a kind
  that is enabled.  On the way only the time of last use of a key is written.\<close>

theorem Auth_mediates:
  assumes "\<not> shouldSkipAuth path (buildSkipPaths (au_polaris cfg))"
  shows "(\<exists>msg. run (Auth cfg H ut now path header inner) d = run (unauthorizedError msg) d) \<or>
    (\<exists>scheme tok who d1. split_space header = Some (scheme, tok) \<and> same_but_used d d1 \<and>
       (au_oauth2 cfg \<and> token_principal H now tok who d \<or> au_api_key cfg \<and> key_principal H ut now tok who d) \<and>
       run (Auth cfg H ut now path header inner) d = run (inner (Some who)) d1)"
  using assms
proof (cases rule: Auth_ways [where H = H and ut = ut and now = now and header = header and inner = inner,
    case_names out bearer key])
  case (bearer s tok)
  with run_validateBearerToken [of H now tok "\<lambda>r. case r of Inl err \<Rightarrow> unauthorizedError err | Inr who \<Rightarrow> inner (Some who)" d]
    same_but_used_refl [of d] show ?thesis by auto
next
  case (key s tok)
  with run_validateAPIKey_cases [of H ut now tok "\<lambda>r. case r of Inl err \<Rightarrow> unauthorizedError err | Inr who \<Rightarrow> inner (Some who)" d]
  show ?thesis by auto
qed auto

definition sample_key :: key_row where
  "sample_key = \<lparr>kr_id = 3, kr_hash = ''h:k'', kr_name = ''n'', kr_scopes = [''catalog''], kr_created = 0,
     kr_expires = None, kr_used = None, kr_prev = None, kr_rotated = None\<rparr>"

definition sample_auth :: auth_config where
  "sample_auth = \<lparr>au_enabled = True, au_oauth2 = False, au_client_id = ''c'', au_client_secret = ''s'',
     au_api_key = True, au_acl = True, au_default = ''none'', au_token_expiry = 3600000000000, au_polaris = False\<rparr>"

definition sample_principal :: principal where
  "sample_principal = \<lparr>pc_id = ''9'', pc_type = ''api_key'', pc_scopes = [], pc_client = ''m''\<rparr>"

lemma scheme_key: "split_space ''X-API-Key k'' = Some (''X-API-Key'', ''k'')" "to_lower ''X-API-Key'' = ''x-api-key''"
  by code_simp+

theorem Auth_mediates_witness:
  "run (Auth sample_auth (\<lambda>s. ''h:'' @ s) (\<lambda>n. ''3'') 5 ''/v1/namespaces'' ''X-API-Key k'' (\<lambda>w. reply (Resp 200 None)))
     (empty_db\<lparr>d_keys := [sample_key]\<rparr>) = ((Resp 200 None, []), empty_db\<lparr>d_keys := [sample_key\<lparr>kr_used := Some 0\<rparr>]\<rparr>) \<and>
   \<not> (\<exists>msg. run (Auth sample_auth (\<lambda>s. ''h:'' @ s) (\<lambda>n. ''3'') 5 ''/v1/namespaces'' ''X-API-Key k'' (\<lambda>w. reply (Resp 200 None)))
     (empty_db\<lparr>d_keys := [sample_key]\<rparr>) = run (unauthorizedError msg) (empty_db\<lparr>d_keys := [sample_key]\<rparr>))"
proof -
  let ?r = "run (Auth sample_auth (\<lambda>s. ''h:'' @ s) (\<lambda>n. ''3'') 5 ''/v1/namespaces'' ''X-API-Key k'' (\<lambda>w. reply (Resp 200 None)))
     (empty_db\<lparr>d_keys := [sample_key]\<rparr>)"
  have r: "?r = ((Resp 200 None, []), empty_db\<lparr>d_keys := [sample_key\<lparr>kr_used := Some 0\<rparr>]\<rparr>)"
    by (simp add: Auth_def sample_auth_def shouldSkipAuth_def buildSkipPaths_def scheme_key Let_def
        del: to_lower.simps split_space.simps add:
        run_validateAPIKey run_accept_key sql_current_key_def sample_key_def empty_db_def sql_touch_key_def
        update_key_def to_us_def)
  have "\<not> shouldSkipAuth ''/v1/namespaces'' (buildSkipPaths (au_polaris sample_auth))"
    by (simp add: shouldSkipAuth_def buildSkipPaths_def sample_auth_def)
  from Auth_mediates [OF this, of "\<lambda>s. ''h:'' @ s" "\<lambda>n. ''3''" 5 "''X-API-Key k''" "\<lambda>w. reply (Resp 200 None)"
      "empty_db\<lparr>d_keys := [sample_key]\<rparr>"] r
  show ?thesis by (auto simp: unauthorizedError_def apiError_def)
qed

section \<open>Permissions\<close>

text \<open>C12: with ACLs on, the up to three queries of \<open>Authz\<close> decide by the order \<open>read < write < manage\<close> of
  permissions: a principal's request on a path with a namespace goes through exactly if some permission
  it has there, by default or by a grant to its id and type on a namespace whose name starts with that
  path segment, is at least the one required; otherwise it ends with a 403.  A path without a namespace
  goes through, and the database stays as it is.\<close>

theorem Authz_decides:
  "run (Authz cfg required path (Some who) inner) d =
     (if au_acl cfg \<and> extractNamespace path \<noteq> [] \<and>
         \<not> allowed required (granted (au_default cfg) (extractNamespace path) (pc_id who) (pc_type who) d)
      then run (forbiddenError ''insufficient permissions for namespace'') d
      else run inner d)"
  by (simp add: Authz_def Let_def run_checkPermission granted_def allowed_Un hasDefaultPermission_iff)

lemma grants_type: "\<forall>np \<in> set (d_perms d). pm_type np \<noteq> ty \<Longrightarrow> grants ns pid ty d = []"
  by (auto simp: grants_def filter_empty_conv)

text \<open>A key loses its grants with its rotation.  Grants name the principal types \<open>api_key\<close> and \<open>oauth2\<close>
  (so the migration says), but for the 24 hours in which the old text of a rotated key is still accepted its
  principal has the type \<open>api_key_rotated\<close>: whatever was granted to it, only the default permission counts,
  and with the default \<open>none\<close> every request on a namespace is a 403.\<close>

theorem rotated_key_loses_grants:
  assumes "\<forall>np \<in> set (d_perms d). pm_type np \<in> {''api_key'', ''oauth2''}" "au_acl cfg"
    "extractNamespace path \<noteq> []" "sql_current_key (H tok) d = None"
    "sql_previous_key (H tok) (to_us (now - RotationGracePeriod)) d = Some row" "kr_expires row = None"
  shows "run (validateAPIKey H ut now tok
           (\<lambda>r. case r of Inl err \<Rightarrow> unauthorizedError err | Inr who \<Rightarrow> Authz cfg required path (Some who) inner)) d =
     run (if hasDefaultPermission (au_default cfg) required then inner
          else forbiddenError ''insufficient permissions for namespace'') (sql_touch_key (to_us now) (kr_id row) d)"
proof -
  have "d_perms (sql_touch_key t i d) = d_perms d" for t i by (simp add: sql_touch_key_def update_key_def)
  then have "grants ns pid ''api_key_rotated'' (sql_touch_key t i d) = []" for ns pid t i
    using assms(1) by (intro grants_type) auto
  with assms(2-6) show ?thesis
    by (simp add: run_validateAPIKey run_accept_key Authz_decides granted_def hasDefaultPermission_iff)
qed

definition rotated_db :: db where
  "rotated_db = empty_db\<lparr>d_namespaces := [\<lparr>ns_id = 0, ns_name = [''a''], ns_props = []\<rparr>],
     d_perms := [\<lparr>pm_ns = 0, pm_principal = ''3'', pm_type = ''api_key'', pm_perms = [''manage'']\<rparr>],
     d_keys := [sample_key\<lparr>kr_hash := ''h:new'', kr_prev := Some ''h:k'', kr_rotated := Some 0\<rparr>]\<rparr>"

lemma segments:
  "extractNamespace ''/v1/namespaces/a/tables'' = ''a''" "extractNamespace ''/v1/namespaces/a.b/tables'' = ''a.b''"
  by code_simp+

theorem rotated_key_loses_grants_witness:
  "fst (run (validateAPIKey (\<lambda>s. ''h:'' @ s) (\<lambda>n. ''3'') 5 ''k''
       (\<lambda>r. case r of Inl err \<Rightarrow> unauthorizedError err
            | Inr who \<Rightarrow> Authz sample_auth Read ''/v1/namespaces/a/tables'' (Some who) (reply (Resp 200 None)))) rotated_db) =
     (Resp 403 (Some (error_body ''insufficient permissions for namespace'' ''ForbiddenException'' 403)), []) \<and>
   fst (run (Authz sample_auth Manage ''/v1/namespaces/a/tables''
       (Some \<lparr>pc_id = ''3'', pc_type = ''api_key'', pc_scopes = [], pc_client = ''n''\<rparr>) (reply (Resp 200 None))) rotated_db) =
     (Resp 200 None, [])"
proof
  let ?row = "sample_key\<lparr>kr_hash := ''h:new'', kr_prev := Some ''h:k'', kr_rotated := Some 0\<rparr>"
  have h: "\<forall>np \<in> set (d_perms rotated_db). pm_type np \<in> {''api_key'', ''oauth2''}" "au_acl sample_auth"
    "extractNamespace ''/v1/namespaces/a/tables'' \<noteq> []" "sql_current_key ((\<lambda>s. ''h:'' @ s) ''k'') rotated_db = None"
    "sql_previous_key ((\<lambda>s. ''h:'' @ s) ''k'') (to_us (5 - RotationGracePeriod)) rotated_db = Some ?row"
    "kr_expires ?row = None" "\<not> hasDefaultPermission (au_default sample_auth) Read"
    by (simp_all add: rotated_db_def sample_auth_def sample_key_def segments sql_current_key_def sql_previous_key_def
      RotationGracePeriod_def hour_ns_def to_us_def hasDefaultPermission_def)
  show "fst (run (validateAPIKey (\<lambda>s. ''h:'' @ s) (\<lambda>n. ''3'') 5 ''k''
       (\<lambda>r. case r of Inl err \<Rightarrow> unauthorizedError err
            | Inr who \<Rightarrow> Authz sample_auth Read ''/v1/namespaces/a/tables'' (Some who) (reply (Resp 200 None)))) rotated_db) =
     (Resp 403 (Some (error_body ''insufficient permissions for namespace'' ''ForbiddenException'' 403)), [])"
    unfolding rotated_key_loses_grants [where H = "\<lambda>s. ''h:'' @ s" and tok = "''k''", OF h(1-6)] using h(7) by (simp add: forbiddenError_def apiError_def)
  show "fst (run (Authz sample_auth Manage ''/v1/namespaces/a/tables''
       (Some \<lparr>pc_id = ''3'', pc_type = ''api_key'', pc_scopes = [], pc_client = ''n''\<rparr>) (reply (Resp 200 None))) rotated_db) =
     (Resp 200 None, [])"
    by (simp add: rotated_db_def sample_auth_def segments empty_db_def Authz_def checkPermission_def
      sql_permission_def grants_def permission_text_def Let_def)
qed

text \<open>A grant on a namespace whose one-part name has a dot opens another namespace: the check compares the
  path segment with the first part of names, while the handlers split the segment at its dots.  For every
  segment with a dot (and no escape) the namespace a handler works on is not the one whose grants were
  looked up, whatever is granted on it.\<close>

theorem dotted_grant_opens_other_namespace:
  assumes "CHR ''.'' \<in> set seg" "CHR ''%'' \<notin> set seg" "CHR 0x1F \<notin> set seg"
    "n \<in> set (d_namespaces d)" "ns_name n = [seg]" "np \<in> set (d_perms d)" "pm_ns np = ns_id n"
    "pm_principal np = pc_id who" "pm_type np = pc_type who" "permission_text required \<in> set (pm_perms np)"
    "extractNamespace path = seg"
  shows "parseNamespace seg \<noteq> ns_name n \<and> 2 \<le> length (parseNamespace seg) \<and>
    run (Authz cfg required path (Some who) inner) d = run inner d"
proof -
  have seg: "parseNamespace seg = split_on (CHR ''.'') seg"
    using assms(2,3) by (simp add: parseNamespace_def unescape_clean)
  have "2 \<le> length (split_on c s)" if "c \<in> set s" for c s
    using that
  proof (induction s)
    case (Cons x xs)
    show ?case
    proof (cases "x = c")
      case True
      then show ?thesis using split_on_nonempty [of c xs] by (cases "split_on c xs") auto
    next
      case False
      with Cons show ?thesis by (cases "split_on c xs") auto
    qed
  qed simp
  from this [OF assms(1)] have two: "2 \<le> length (parseNamespace seg)" by (simp add: seg)
  have "np \<in> set (grants seg (pc_id who) (pc_type who) d)"
    using assms(4-9) by (auto simp: grants_def list_ex_iff)
  then have "allowed required (granted (au_default cfg) seg (pc_id who) (pc_type who) d)"
    using assms(10) by (auto simp: allowed_def granted_def perms_of_def)
  with two assms(5,11) show ?thesis by (auto simp: Authz_decides)
qed

theorem dotted_grant_opens_other_namespace_witness:
  "parseNamespace ''a.b'' \<noteq> [''a.b''] \<and>
   run (Authz sample_auth Manage ''/v1/namespaces/a.b/tables'' (Some sample_principal) (reply (Resp 200 None)))
     (empty_db\<lparr>d_namespaces := [\<lparr>ns_id = 0, ns_name = [''a.b''], ns_props = []\<rparr>, \<lparr>ns_id = 1, ns_name = [''a'', ''b''], ns_props = []\<rparr>],
        d_perms := [\<lparr>pm_ns = 0, pm_principal = ''9'', pm_type = ''api_key'', pm_perms = [''manage'']\<rparr>]\<rparr>) =
   run (reply (Resp 200 None))
     (empty_db\<lparr>d_namespaces := [\<lparr>ns_id = 0, ns_name = [''a.b''], ns_props = []\<rparr>, \<lparr>ns_id = 1, ns_name = [''a'', ''b''], ns_props = []\<rparr>],
        d_perms := [\<lparr>pm_ns = 0, pm_principal = ''9'', pm_type = ''api_key'', pm_perms = [''manage'']\<rparr>]\<rparr>)"
  using dotted_grant_opens_other_namespace [of "''a.b''" "\<lparr>ns_id = 0, ns_name = [''a.b''], ns_props = []\<rparr>"
      "empty_db\<lparr>d_namespaces := [\<lparr>ns_id = 0, ns_name = [''a.b''], ns_props = []\<rparr>, \<lparr>ns_id = 1, ns_name = [''a'', ''b''], ns_props = []\<rparr>],
        d_perms := [\<lparr>pm_ns = 0, pm_principal = ''9'', pm_type = ''api_key'', pm_perms = [''manage'']\<rparr>]\<rparr>"
      "\<lparr>pm_ns = 0, pm_principal = ''9'', pm_type = ''api_key'', pm_perms = [''manage'']\<rparr>" sample_principal Manage
      "''/v1/namespaces/a.b/tables''" sample_auth "reply (Resp 200 None)"]
  by (simp add: sample_principal_def segments permission_text_def)

section \<open>Keys and tokens over time\<close>

lemma find_updated:
  assumes "List.find (\<lambda>r. kr_id r = i) xs = Some row" "\<And>r. r \<in> set xs \<Longrightarrow> kr_id r \<noteq> i \<Longrightarrow> \<not> P r" "P (h row)"
  shows "List.find P (map (\<lambda>r. if kr_id r = i then h r else r) xs) = Some (h row)"
  using assms by (induction xs) auto

lemma key_unique:
  assumes "catalog_ok d" "sql_key i d = Some row" "r \<in> set (d_keys d)" "kr_hash r = kr_hash row \<or> kr_id r = i"
  shows "r = row"
proof -
  have "row \<in> set (d_keys d)" "kr_id row = i" using assms(2) by (auto simp: sql_key_def dest: find_SomeD)
  with catalog_ok_keysD [OF assms(1)] assms(3,4) show ?thesis by (auto simp: distinct_map dest: inj_onD)
qed

text \<open>C36: key rotation.  \<open>RotateAPIKey\<close> by any principal whatever, for any key of the catalog, answers 200
  with a new key, and from then on the new key is accepted as the owner of the old one; the old key is
  accepted as well, with the type \<open>api_key_rotated\<close>, for 24 hours after the rotation and not a
  microsecond longer.  (The key does not expire, and the two hashes are not in use elsewhere.)\<close>

theorem rotation_grace:
  assumes "catalog_ok d" "sql_key i d = Some row" "kr_hash row = H k" "kr_expires row = None"
    "u keyID = Some i" "keyID \<noteq> []" "H (''bingsan_'' @ base64url bs) \<notin> set (map kr_hash (d_keys d))"
    "\<forall>r \<in> set (d_keys d). kr_prev r \<noteq> Some (H k)"
  shows "\<exists>d'. run (RotateAPIKey H u fmt (Some bs) t0 (Some who) keyID) d =
      ((Resp 200 (Some (key_val fmt keyID (kr_name row) (''bingsan_'' @ base64url bs) (kr_scopes row) None
          (from_us (kr_created row)) None (Some t0))), []), d') \<and>
    fst (run (validateAPIKey H ut t (''bingsan_'' @ base64url bs) Done) d') =
      Inr \<lparr>pc_id = ut i, pc_type = ''api_key'', pc_scopes = kr_scopes row, pc_client = kr_name row\<rparr> \<and>
    fst (run (validateAPIKey H ut t k Done) d') =
      (if to_us (t - RotationGracePeriod) < to_us t0
       then Inr \<lparr>pc_id = ut i, pc_type = ''api_key_rotated'', pc_scopes = kr_scopes row, pc_client = kr_name row\<rparr>
       else Inl ''invalid API key'')"
proof -
  let ?k' = "''bingsan_'' @ base64url bs"
  let ?h = "\<lambda>r. r\<lparr>kr_hash := H ?k', kr_prev := Some (H k), kr_rotated := Some (to_us t0)\<rparr>"
  let ?d' = "update_key i ?h d"
  have row: "row \<in> set (d_keys d)" "kr_id row = i" using assms(2) by (auto simp: sql_key_def dest: find_SomeD)
  have free: "\<And>r. r \<in> set (d_keys d) \<Longrightarrow> kr_hash r \<noteq> H ?k'" using assms(7) by (metis imageI set_map)
  then have ne: "H k \<noteq> H ?k'" using row(1) assms(3) by fastforce
  have rotate: "sql_rotate_key (H ?k') (H k) (to_us t0) i d = Inr ?d'"
    using free by (auto simp: sql_rotate_key_def list_ex_iff)
  have new: "sql_current_key (H ?k') ?d' = Some (?h row)"
    unfolding sql_current_key_def update_key_def
    using find_updated [where h = ?h, OF assms(2) [unfolded sql_key_def]] free by simp
  have old: "sql_current_key (H k) ?d' = None"
    unfolding sql_current_key_def update_key_def
    using key_unique [OF assms(1,2)] assms(3) row(2) ne by (auto simp: find_None_iff)
  have prev: "sql_previous_key (H k) since ?d' = (if since < to_us t0 then Some (?h row) else None)" for since
  proof (cases "since < to_us t0")
    case True
    then show ?thesis unfolding sql_previous_key_def update_key_def
      using find_updated [where h = ?h, OF assms(2) [unfolded sql_key_def],
          of "\<lambda>r. kr_prev r = Some (H k) \<and> (case kr_rotated r of None \<Rightarrow> False | Some t \<Rightarrow> since < t)"] assms(8)
      by simp
  next
    case False
    with assms(8) show ?thesis unfolding sql_previous_key_def update_key_def
      by (auto simp: find_None_iff split: if_splits)
  qed
  have answer: "run (RotateAPIKey H u fmt (Some bs) t0 (Some who) keyID) d =
      ((Resp 200 (Some (key_val fmt keyID (kr_name row) ?k' (kr_scopes row) None
          (from_us (kr_created row)) None (Some t0))), []), ?d')"
    using assms(2-6) rotate by (simp add: RotateAPIKey_def Let_def with_uuid_def generateAPIKey_def)
  show ?thesis
    by (rule exI [of _ ?d']) (simp add: answer run_validateAPIKey run_accept_key new old prev assms(4) row(2) del: append.simps)
qed

lemma key_principal_sample: "catalog_ok (empty_db\<lparr>d_keys := [sample_key]\<rparr>)"
  by (simp add: catalog_ok_keys catalog_ok_empty)

theorem rotation_grace_witness:
  "\<exists>d'. snd (run (RotateAPIKey (\<lambda>s. ''h:'' @ s) (\<lambda>s. Some 3) (\<lambda>t. ''t'') (Some [1, 2, 3]) 7000 (Some sample_principal) ''3'')
       (empty_db\<lparr>d_keys := [sample_key]\<rparr>)) = d' \<and>
     fst (run (validateAPIKey (\<lambda>s. ''h:'' @ s) (\<lambda>n. ''3'') (7000 + RotationGracePeriod) ''k'' Done) d') = Inl ''invalid API key''"
proof -
  have b: "(\<lambda>s. ''h:'' @ s) (''bingsan_'' @ base64url [1, 2, 3]) \<notin> set (map kr_hash (d_keys (empty_db\<lparr>d_keys := [sample_key]\<rparr>)))"
    by (simp add: sample_key_def)
  show ?thesis
    using rotation_grace [of "empty_db\<lparr>d_keys := [sample_key]\<rparr>" 3 sample_key "\<lambda>s. ''h:'' @ s" "''k''" "\<lambda>s. Some 3"
        "''3''" "[1, 2, 3]" "\<lambda>t. ''t''" 7000 sample_principal "\<lambda>n. ''3''" "7000 + RotationGracePeriod",
        OF key_principal_sample _ _ _ _ _ b]
    by (auto simp: sql_key_def sample_key_def)
qed



text \<open>The random bytes of a secret are not lost in its text: \<open>generateAPIKey\<close> and \<open>generateToken\<close> give
  different texts for different bytes, of 51 and of 64 characters for the 32 bytes they use, and a
  failing \<open>rand.Read\<close> gives no secret.\<close>

theorem generated_secrets_differ:
  assumes "length bs = 32" "length cs = 32" "\<forall>x \<in> set bs \<union> set cs. x < 256"
  shows "(generateAPIKey (Some bs) = generateAPIKey (Some cs) \<longleftrightarrow> bs = cs) \<and>
    (generateToken (Some bs) = generateToken (Some cs) \<longleftrightarrow> bs = cs) \<and>
    map_option length (generateAPIKey (Some bs)) = Some 51 \<and>
    map_option length (generateToken (Some bs)) = Some 64 \<and>
    generateAPIKey None = None \<and> generateToken None = None"
  using assms base64url_inj [of bs cs] hex_encode_inj [of bs cs]
  by (auto simp: generateAPIKey_def generateToken_def length_base64url length_hex_encode)

theorem generated_secrets_differ_witness:
  "generateAPIKey (Some (replicate 32 0)) \<noteq> generateAPIKey (Some (replicate 31 0 @ [1])) \<and>
   generateToken (Some (replicate 32 0)) \<noteq> generateToken (Some (replicate 31 0 @ [1]))"
  using generated_secrets_differ [of "replicate 32 0" "replicate 31 0 @ [1]"]
  by (simp add: numeral_eq_Suc)

section \<open>Lifetimes of keys\<close>

lemma wrap64_shift: "wrap64 (x + k * 18446744073709551616) = wrap64 x"
proof -
  have "x + k * 18446744073709551616 + 9223372036854775808 = (x + 9223372036854775808) + k * 18446744073709551616"
    by simp
  then show ?thesis unfolding wrap64_def by (metis mod_mult_self1)
qed

lemma wrap64_split: "\<exists>k. wrap64 a = a + k * 18446744073709551616"
proof -
  have "wrap64 a = a + (- ((a + 9223372036854775808) div 18446744073709551616)) * 18446744073709551616"
    unfolding wrap64_def by (simp add: minus_div_mult_eq_mod [symmetric])
  then show ?thesis ..
qed

lemma wrap64_step: "wrap64 (wrap64 a * m + b) = wrap64 (a * m + b)"
proof -
  obtain k where "wrap64 a = a + k * 18446744073709551616" using wrap64_split by blast
  then have "wrap64 a * m + b = (a * m + b) + (k * m) * 18446744073709551616" by (simp add: algebra_simps)
  then show ?thesis by (simp only: wrap64_shift)
qed

lemma parse_digits_append:
  "parse_digits n (xs @ ys) = (case parse_digits n xs of None \<Rightarrow> None | Some m \<Rightarrow> parse_digits m ys)"
  by (induction n xs rule: parse_digits.induct) (auto simp: Let_def)

lemma parse_digit: "k < 10 \<Longrightarrow> parse_digits n [digit_char k] = Some (wrap64 (n * 10 + int k))"
proof -
  assume k: "k < 10"
  then have "(of_char (digit_char k) :: nat) = 48 + k" by (simp add: digit_char_def of_char_of del: of_char_mod_256)
  then have "(of_char (digit_char k) :: int) = 48 + int k"
    using of_nat_of_char [of "digit_char k", where 'a = int] by simp
  with k show ?thesis by (simp add: Let_def)
qed

lemma parse_show_nat: "parse_digits 0 (show_nat n) = Some (wrap64 (int n))"
proof (induction n rule: show_nat.induct)
  case (1 n)
  show ?case
  proof (cases "n < 10")
    case True
    then show ?thesis by (subst show_nat.simps) (simp add: parse_digit del: parse_digits.simps)
  next
    case False
    then have "parse_digits 0 (show_nat n) = Some (wrap64 (wrap64 (int (n div 10)) * 10 + int (n mod 10)))"
      using 1 by (subst show_nat.simps) (simp add: parse_digits_append parse_digit del: parse_digits.simps)
    moreover have "int (n div 10) * 10 + int (n mod 10) = int n" by presburger
    ultimately show ?thesis by (simp only: wrap64_step)
  qed
qed

text \<open>\<open>parseDuration\<close> of a decimal number and a unit \<open>h d w m y\<close> is their product whenever it fits a
  \<open>time.Duration\<close>; beyond 292 years (of 365 days) it silently wraps around: any number of nanoseconds
  in range can come out, \<open>293y\<close> is negative.\<close>

theorem parseDuration_spec:
  assumes "unit_ns c = Some m"
  shows "parseDuration (show_nat n @ [c]) = Some (wrap64 (int n * m)) \<and>
    (int n * m \<le> max_int64 \<longrightarrow> parseDuration (show_nat n @ [c]) = Some (int n * m)) \<and>
    parseDuration ''293y'' = Some (- 9206696073709551616)"
proof -
  have ne: "show_nat n \<noteq> []" by (subst show_nat.simps) simp
  have m: "0 \<le> m" using assms by (auto simp: unit_ns_def hour_ns_def split: if_splits)
  have "parseDuration (show_nat n @ [c]) = Some (wrap64 (wrap64 (int n) * m))"
    using assms ne by (simp add: parseDuration_def parse_show_nat Suc_le_eq)
  then have p: "parseDuration (show_nat n @ [c]) = Some (wrap64 (int n * m))"
    using wrap64_step [of "int n" m 0] by simp
  moreover have "wrap64 (int n * m) = int n * m" if "int n * m \<le> max_int64"
  proof (rule wrap64_id)
    have "0 \<le> int n * m" using m by simp
    with that show "in_int64 (int n * m)" by (simp add: in_int64_def min_int64_def)
  qed
  moreover have "parseDuration ''293y'' = Some (- 9206696073709551616)"
    by (simp add: parseDuration_def unit_ns_def hour_ns_def wrap64_def Let_def)
  ultimately show ?thesis by simp
qed

theorem parseDuration_spec_witness:
  "parseDuration (show_nat 30 @ ''d'') = Some 2592000000000000 \<and> show_nat 30 @ ''d'' = ''30d''"
  using parseDuration_spec [of "CHR ''d''" "24 * hour_ns" 30]
  by (simp add: unit_ns_def hour_ns_def max_int64_def) code_simp

text \<open>A new API key works until its expiry, which is the time of its creation plus \<open>expires_in\<close>, up to a
  microsecond, and never after it; without \<open>expires_in\<close> it works for ever.  So a key whose \<open>expires_in\<close>
  wraps around to a negative duration is announced with a 201 and refused from the start.\<close>

theorem new_key_lifetime:
  assumes "ck_name req \<noteq> []" "u uuid = Some i" "i \<notin> set (map kr_id (d_keys d))"
    "H (''bingsan_'' @ base64url bs) \<notin> set (map kr_hash (d_keys d))"
    "(case ck_expires_in req of None \<Rightarrow> Some None | Some s \<Rightarrow> map_option Some (parseDuration s)) = Some life"
  shows "\<exists>body d'. run (CreateAPIKey H u fmt (Some bs) uuid now (Some who) (Some req)) d = ((Resp 201 body, []), d') \<and>
    fst (run (validateAPIKey H ut t (''bingsan_'' @ base64url bs) Done) d') =
      (case life of
         Some dur \<Rightarrow> if from_us (to_us (now + dur)) < t then Inl ''API key expired''
           else Inr \<lparr>pc_id = ut i, pc_type = ''api_key'', pc_scopes = (if ck_scopes req = [] then [''catalog''] else ck_scopes req),
             pc_client = ck_name req\<rparr>
       | None \<Rightarrow> Inr \<lparr>pc_id = ut i, pc_type = ''api_key'', pc_scopes = (if ck_scopes req = [] then [''catalog''] else ck_scopes req),
             pc_client = ck_name req\<rparr>)"
proof -
  let ?k = "''bingsan_'' @ base64url bs"
  have none: "List.find (\<lambda>r. kr_hash r = H ?k) (d_keys d) = None"
    unfolding find_None_iff using assms(4) by (metis imageI set_map)
  have expiry: "(case ck_expires_in req of None \<Rightarrow> Some None
      | Some s \<Rightarrow> map_option (\<lambda>dur. Some (now + dur)) (parseDuration s)) = Some (map_option ((+) now) life)"
    using assms(5) by (auto split: option.splits)
  from assms(1-4) show ?thesis
    by (cases life)
      (simp_all add: CreateAPIKey_def generateAPIKey_def expiry Let_def with_uuid_def sql_insert_key_def
        run_validateAPIKey run_accept_key sql_current_key_def find_append none del: append.simps)
qed

theorem new_key_lifetime_witness:
  "\<exists>body d'. run (CreateAPIKey (\<lambda>s. ''h:'' @ s) (\<lambda>s. Some 3) (\<lambda>t. ''t'') (Some []) ''3'' 1700000000000000000 (Some sample_principal)
       (Some \<lparr>ck_name = ''etl'', ck_scopes = [], ck_expires_in = Some ''293y''\<rparr>)) empty_db = ((Resp 201 body, []), d') \<and>
     fst (run (validateAPIKey (\<lambda>s. ''h:'' @ s) (\<lambda>n. ''3'') 1700000000000000001 (''bingsan_'' @ base64url []) Done) d') =
       Inl ''API key expired''"
proof -
  have d: "parseDuration ''293y'' = Some (- 9206696073709551616)"
    by (simp add: parseDuration_def unit_ns_def hour_ns_def wrap64_def Let_def)
  show ?thesis
    using new_key_lifetime [of "\<lparr>ck_name = ''etl'', ck_scopes = [], ck_expires_in = Some ''293y''\<rparr>" "\<lambda>s. Some 3" "''3''" 3
        empty_db "\<lambda>s. ''h:'' @ s" "[]" "Some (- 9206696073709551616)" "\<lambda>t. ''t''" 1700000000000000000 sample_principal
        "\<lambda>n. ''3''" 1700000000000000001]
    by (simp add: d empty_db_def to_us_def from_us_def)
qed

end
