(* ===== verification/Background.thy ===== *)
theory Background
  imports Election AuthProps
begin

text \<open>
  \<open>internal/background/tasks.go\<close>: the periodic tasks, each run by the node that leads its key.  Here any
  task may run at any time; the goroutines that run them are those of \<open>Runner\<close>.
\<close>

text \<open>The statements of the tasks: \<open>NOW()\<close> is the argument, in microseconds.  A task ends with an error or not.\<close>

definition sql_cleanup_locks :: "int \<Rightarrow> db \<Rightarrow> db" where
  "sql_cleanup_locks now d = d\<lparr>d_locks := filter (\<lambda>r. \<not> lk_expires r < now) (d_locks d)\<rparr>"

definition sql_cleanup_tokens :: "int \<Rightarrow> db \<Rightarrow> db" where
  "sql_cleanup_tokens now d = d\<lparr>d_tokens := filter (\<lambda>r. \<not> tk_expires r < now) (d_tokens d)\<rparr>"

definition sql_cleanup_keys :: "int \<Rightarrow> db \<Rightarrow> db" where
  "sql_cleanup_keys now d =
     d\<lparr>d_keys := filter (\<lambda>r. \<not> (case kr_expires r of None \<Rightarrow> False | Some e \<Rightarrow> e < now)) (d_keys d)\<rparr>"

definition sql_cleanup_plans :: "int \<Rightarrow> db \<Rightarrow> db" where
  "sql_cleanup_plans now d = d\<lparr>d_plans := filter (\<lambda>r. \<not> pl_expires r < now) (d_plans d)\<rparr>"

definition cleanupExpiredLocks :: "int \<Rightarrow> sql_error option prog" where
  "cleanupExpiredLocks now = exec (\<lambda>d. Inr ((), sql_cleanup_locks now d)) (\<lambda>e. Done (Some e)) (\<lambda>_. Done None)"

definition cleanupExpiredTokens :: "int \<Rightarrow> sql_error option prog" where
  "cleanupExpiredTokens now =
     exec (\<lambda>d. Inr ((), sql_cleanup_tokens now d)) (\<lambda>e. Done (Some e))
       (\<lambda>_. exec (\<lambda>d. Inr ((), sql_cleanup_keys now d)) (\<lambda>e. Done (Some e)) (\<lambda>_. Done None))"

definition cleanupExpiredScanPlans :: "int \<Rightarrow> sql_error option prog" where
  "cleanupExpiredScanPlans now = exec (\<lambda>d. Inr ((), sql_cleanup_plans now d)) (\<lambda>e. Done (Some e)) (\<lambda>_. Done None)"

record task =
  ta_name :: string
  ta_key :: int
  ta_interval :: int
  ta_run :: "int \<Rightarrow> sql_error option prog"

definition DefaultTasks :: "task list" where
  "DefaultTasks =
     [\<lparr>ta_name = ''cleanup_expired_locks'', ta_key = LockKeyCleanup, ta_interval = 60000000000,
       ta_run = cleanupExpiredLocks\<rparr>,
      \<lparr>ta_name = ''cleanup_expired_tokens'', ta_key = LockKeyCleanup, ta_interval = 300000000000,
       ta_run = cleanupExpiredTokens\<rparr>,
      \<lparr>ta_name = ''cleanup_expired_scan_plans'', ta_key = LockKeyCleanup, ta_interval = 60000000000,
       ta_run = cleanupExpiredScanPlans\<rparr>]"

text \<open>\<open>executeTask\<close>, given what \<open>TryAcquire\<close> returns: the metrics it counts.\<close>

definition executeTask :: "bool option \<Rightarrow> task \<Rightarrow> int \<Rightarrow> effect list prog" where
  "executeTask leader t now =
     (case leader of
        None \<Rightarrow> Done []
      | Some False \<Rightarrow> Done [Metric ''leader_status'' [ta_name t, ''0'']]
      | Some True \<Rightarrow>
          map_prog (\<lambda>err. [Metric ''leader_status'' [ta_name t, ''1''],
              Metric ''background_task_runs'' [ta_name t, if err \<noteq> None then ''error'' else ''success'']])
            (ta_run t now))"

section \<open>What the tasks do\<close>

lemma catalog_ok_plans:
  "catalog_ok d \<Longrightarrow> catalog_ok (sql_cleanup_plans now d)"
  by (auto simp: catalog_ok_def db_ok_def sql_cleanup_plans_def distinct_map_filter list_all_iff)

lemma catalog_ok_cleanup:
  "catalog_ok d \<Longrightarrow> catalog_ok (sql_cleanup_locks now d)" "catalog_ok d \<Longrightarrow> catalog_ok (sql_cleanup_tokens now d)"
  "catalog_ok d \<Longrightarrow> catalog_ok (sql_cleanup_keys now d)"
  by (auto simp: catalog_ok_def db_ok_def sql_cleanup_locks_def sql_cleanup_tokens_def sql_cleanup_keys_def
      distinct_map_filter)

lemma task_safe:
  "safe catalog_ok (\<lambda>_. True) (cleanupExpiredLocks now)" "safe catalog_ok (\<lambda>_. True) (cleanupExpiredTokens now)"
  "safe catalog_ok (\<lambda>_. True) (cleanupExpiredScanPlans now)"
  by (auto simp: cleanupExpiredLocks_def cleanupExpiredTokens_def cleanupExpiredScanPlans_def catalog_ok_plans
      catalog_ok_cleanup intro!: safe_exec safe_Done)

lemma find_filter_kept: "List.find P xs = Some x \<Longrightarrow> Q x \<Longrightarrow> List.find P (filter Q xs) = Some x"
  by (induction xs) (auto split: if_splits)

lemma find_filter_none: "List.find P xs = None \<Longrightarrow> List.find P (filter Q xs) = None"
  by (auto simp: find_None_iff)

lemma validate_tokens_only:
  "sql_token h now (d\<lparr>d_keys := ks\<rparr>) = sql_token h now d"
  "sql_current_key h (d\<lparr>d_tokens := ts\<rparr>) = sql_current_key h d"
  "sql_previous_key h now (d\<lparr>d_tokens := ts\<rparr>) = sql_previous_key h now d"
  by (simp_all add: sql_token_def sql_current_key_def sql_previous_key_def)

lemma sql_token_cleanup:
  assumes "n \<le> now"
  shows "sql_token h now (sql_cleanup_tokens n d) = sql_token h now d"
proof (cases "sql_token h now d")
  case None
  then show ?thesis by (simp add: sql_token_def sql_cleanup_tokens_def find_filter_none)
next
  case (Some t)
  then have "now < tk_expires t" by (auto simp: sql_token_def dest: find_SomeD)
  with Some assms show ?thesis by (simp add: sql_token_def sql_cleanup_tokens_def find_filter_kept)
qed

lemma key_cleanup:
  assumes "\<not> (case kr_expires r of None \<Rightarrow> False | Some e \<Rightarrow> from_us e < now)" "n \<le> to_us now"
  shows "\<not> (case kr_expires r of None \<Rightarrow> False | Some e \<Rightarrow> e < n)"
  using assms by (auto simp: from_us_def to_us_def split: option.splits)

lemma validateAPIKey_cleanup:
  assumes "n \<le> to_us now" "fst (run (validateAPIKey H ut now tok Done) d) = Inr who"
  shows "fst (run (validateAPIKey H ut now tok Done) (sql_cleanup_keys n d)) = Inr who"
proof (cases "sql_current_key (H tok) d")
  case (Some row)
  with assms(2) have live: "\<not> (case kr_expires row of None \<Rightarrow> False | Some e \<Rightarrow> from_us e < now)"
    by (auto simp: run_validateAPIKey run_accept_key split: if_splits)
  with Some key_cleanup [OF live assms(1)] have "sql_current_key (H tok) (sql_cleanup_keys n d) = Some row"
    by (simp add: sql_current_key_def sql_cleanup_keys_def find_filter_kept)
  with Some live assms(2) show ?thesis by (simp add: run_validateAPIKey run_accept_key)
next
  case None
  with assms(2) obtain row where row: "sql_previous_key (H tok) (to_us (now - RotationGracePeriod)) d = Some row"
    by (auto simp: run_validateAPIKey split: option.split_asm)
  with None assms(2) have live: "\<not> (case kr_expires row of None \<Rightarrow> False | Some e \<Rightarrow> from_us e < now)"
    by (auto simp: run_validateAPIKey run_accept_key split: if_splits)
  with row key_cleanup [OF live assms(1)]
  have "sql_previous_key (H tok) (to_us (now - RotationGracePeriod)) (sql_cleanup_keys n d) = Some row"
    by (simp add: sql_previous_key_def sql_cleanup_keys_def find_filter_kept)
  moreover have "sql_current_key (H tok) (sql_cleanup_keys n d) = None"
    using None by (simp add: sql_current_key_def sql_cleanup_keys_def find_filter_none)
  ultimately show ?thesis using None row live assms(2) by (simp add: run_validateAPIKey run_accept_key)
qed

text \<open>The cleanup of credentials takes away nothing that works: a token validates after it exactly if it did
  before, and an API key or rotated key that was accepted still is, for the same principal, at any time from
  the cleanup on; what is left has not expired, and the invariant of the catalog is kept.\<close>

theorem cleanup_keeps_credentials:
  assumes "n \<le> to_us now" "run (cleanupExpiredTokens n) d = (err, d')"
  shows "err = None \<and>
    fst (run (validateBearerToken H now tok Done) d') = fst (run (validateBearerToken H now tok Done) d) \<and>
    (\<forall>who. fst (run (validateAPIKey H ut now tok Done) d) = Inr who \<longrightarrow>
       fst (run (validateAPIKey H ut now tok Done) d') = Inr who) \<and>
    (\<forall>t \<in> set (d_tokens d'). n \<le> tk_expires t) \<and>
    (\<forall>r \<in> set (d_keys d'). \<forall>e. kr_expires r = Some e \<longrightarrow> n \<le> e) \<and> (catalog_ok d \<longrightarrow> catalog_ok d')"
proof -
  from assms(2) have d': "err = None" "d' = sql_cleanup_keys n (sql_cleanup_tokens n d)"
    by (simp_all add: cleanupExpiredTokens_def)
  have "sql_token h t d' = sql_token h t (sql_cleanup_tokens n d)" for h t
    by (simp add: d' sql_cleanup_keys_def validate_tokens_only)
  then have "fst (run (validateBearerToken H now tok Done) d') = fst (run (validateBearerToken H now tok Done) d)"
    by (simp add: validateBearerToken_def sql_token_cleanup [OF assms(1)] split: option.splits)
  moreover have "fst (run (validateAPIKey H ut now tok Done) (sql_cleanup_tokens n d)) = Inr who"
    if "fst (run (validateAPIKey H ut now tok Done) d) = Inr who" for who
    using that by (auto simp: run_validateAPIKey run_accept_key sql_cleanup_tokens_def validate_tokens_only
        split: option.splits)
  then have "fst (run (validateAPIKey H ut now tok Done) d') = Inr who"
    if "fst (run (validateAPIKey H ut now tok Done) d) = Inr who" for who
    using that validateAPIKey_cleanup [OF assms(1)] by (simp add: d')
  moreover have "\<forall>t \<in> set (d_tokens d'). n \<le> tk_expires t"
    by (auto simp: d' sql_cleanup_keys_def sql_cleanup_tokens_def)
  moreover have "\<forall>r \<in> set (d_keys d'). \<forall>e. kr_expires r = Some e \<longrightarrow> n \<le> e"
    by (auto simp: d' sql_cleanup_keys_def sql_cleanup_tokens_def)
  moreover have "catalog_ok d \<longrightarrow> catalog_ok d'" by (simp add: d' catalog_ok_cleanup)
  ultimately show ?thesis using d'(1) by blast
qed

theorem cleanup_keeps_credentials_witness:
  "fst (run (validateAPIKey (\<lambda>s. ''h:'' @ s) (\<lambda>n. ''3'') 5000 ''k'' Done)
     (snd (run (cleanupExpiredTokens 5) (empty_db\<lparr>d_keys := [sample_key]\<rparr>)))) =
   Inr \<lparr>pc_id = ''3'', pc_type = ''api_key'', pc_scopes = [''catalog''], pc_client = ''n''\<rparr>"
proof -
  have n: "5 \<le> to_us 5000" by (simp add: to_us_def)
  have "fst (run (validateAPIKey (\<lambda>s. ''h:'' @ s) (\<lambda>n. ''3'') 5000 ''k'' Done) (empty_db\<lparr>d_keys := [sample_key]\<rparr>)) =
      Inr \<lparr>pc_id = ''3'', pc_type = ''api_key'', pc_scopes = [''catalog''], pc_client = ''n''\<rparr>"
    by (simp add: run_validateAPIKey run_accept_key sql_current_key_def sample_key_def)
  with cleanup_keeps_credentials [OF n prod.collapse [symmetric], where H = "\<lambda>s. ''h:'' @ s" and tok = "''k''"
      and ut = "\<lambda>n. ''3''" and d = "empty_db\<lparr>d_keys := [sample_key]\<rparr>"]
  show ?thesis by blast
qed

end
