(* ===== verification/Gauges.thy ===== *)
theory Gauges
  imports Catalog
begin

text \<open>
  \<open>internal/metrics/prometheus.go\<close>: the Prometheus metrics of the catalog and the functions that set them, and how
  the gauge of namespaces keeps up with the database.  A vector of metrics is a function of its labels; its
  series start at zero.  The values are whole numbers far below 2^53, so \<open>float64\<close> is \<open>int\<close> here.  The handlers
  of this model name what they record in their effects; \<open>record_effect\<close> is the call that an effect stands for.
  The calls come after the last statement of a handler, one by one, and other requests may run before and
  between them: \<open>gstep\<close>.
\<close>

section \<open>The registry\<close>

record registry =
  NamespacesTotal :: int
  TablesTotal :: "string \<Rightarrow> int"
  ViewsTotal :: "string \<Rightarrow> int"
  CommitsTotal :: "string \<times> string \<Rightarrow> int"
  TransactionsTotal :: "string \<Rightarrow> int"
  ActiveLocks :: int
  ScanPlansTotal :: "string \<Rightarrow> int"
  DBConnectionsActive :: int
  DBConnectionsIdle :: int
  DBConnectionsTotal :: int
  LeaderStatus :: "string \<Rightarrow> int"
  BackgroundTaskRuns :: "string \<times> string \<Rightarrow> int"

definition new_registry :: registry where
  "new_registry =
     \<lparr>NamespacesTotal = 0, TablesTotal = (\<lambda>l. 0), ViewsTotal = (\<lambda>l. 0), CommitsTotal = (\<lambda>l. 0),
      TransactionsTotal = (\<lambda>l. 0), ActiveLocks = 0, ScanPlansTotal = (\<lambda>l. 0), DBConnectionsActive = 0,
      DBConnectionsIdle = 0, DBConnectionsTotal = 0, LeaderStatus = (\<lambda>l. 0), BackgroundTaskRuns = (\<lambda>l. 0)\<rparr>"

definition add_at :: "'a \<Rightarrow> int \<Rightarrow> ('a \<Rightarrow> int) \<Rightarrow> 'a \<Rightarrow> int" where
  "add_at l n v = v(l := v l + n)"

definition RecordNamespaceCreated :: "registry \<Rightarrow> registry" where
  "RecordNamespaceCreated r = r\<lparr>NamespacesTotal := NamespacesTotal r + 1\<rparr>"

definition RecordNamespaceDropped :: "registry \<Rightarrow> registry" where
  "RecordNamespaceDropped r = r\<lparr>NamespacesTotal := NamespacesTotal r - 1\<rparr>"

definition RecordTableCreated :: "string \<Rightarrow> registry \<Rightarrow> registry" where
  "RecordTableCreated ns r = r\<lparr>TablesTotal := add_at ns 1 (TablesTotal r)\<rparr>"

definition RecordTableDropped :: "string \<Rightarrow> registry \<Rightarrow> registry" where
  "RecordTableDropped ns r = r\<lparr>TablesTotal := add_at ns (- 1) (TablesTotal r)\<rparr>"

definition RecordTableCommit :: "string \<Rightarrow> string \<Rightarrow> registry \<Rightarrow> registry" where
  "RecordTableCommit ns t r = r\<lparr>CommitsTotal := add_at (ns, t) 1 (CommitsTotal r)\<rparr>"

definition RecordViewCreated :: "string \<Rightarrow> registry \<Rightarrow> registry" where
  "RecordViewCreated ns r = r\<lparr>ViewsTotal := add_at ns 1 (ViewsTotal r)\<rparr>"

definition RecordViewDropped :: "string \<Rightarrow> registry \<Rightarrow> registry" where
  "RecordViewDropped ns r = r\<lparr>ViewsTotal := add_at ns (- 1) (ViewsTotal r)\<rparr>"

definition RecordTransactionCommit :: "string \<Rightarrow> registry \<Rightarrow> registry" where
  "RecordTransactionCommit status r = r\<lparr>TransactionsTotal := add_at status 1 (TransactionsTotal r)\<rparr>"

definition RecordScanPlan :: "string \<Rightarrow> registry \<Rightarrow> registry" where
  "RecordScanPlan status r = r\<lparr>ScanPlansTotal := add_at status 1 (ScanPlansTotal r)\<rparr>"

definition UpdateDBPoolStats :: "int \<Rightarrow> int \<Rightarrow> int \<Rightarrow> registry \<Rightarrow> registry" where
  "UpdateDBPoolStats active idle all r =
     r\<lparr>DBConnectionsActive := active, DBConnectionsIdle := idle, DBConnectionsTotal := all\<rparr>"

definition SetLeaderStatus :: "string \<Rightarrow> int \<Rightarrow> registry \<Rightarrow> registry" where
  "SetLeaderStatus task status r = r\<lparr>LeaderStatus := (LeaderStatus r)(task := status)\<rparr>"

definition IncBackgroundTaskRuns :: "string \<Rightarrow> string \<Rightarrow> registry \<Rightarrow> registry" where
  "IncBackgroundTaskRuns task status r = r\<lparr>BackgroundTaskRuns := add_at (task, status) 1 (BackgroundTaskRuns r)\<rparr>"

fun record_effect :: "effect \<Rightarrow> registry \<Rightarrow> registry" where
  "record_effect (Event ty ns) r = r"
| "record_effect (Metric name labels) r =
     (if name = ''namespace_created'' then RecordNamespaceCreated r
      else if name = ''namespace_dropped'' then RecordNamespaceDropped r
      else if name = ''table_created'' then RecordTableCreated (labels ! 0) r
      else if name = ''table_dropped'' then RecordTableDropped (labels ! 0) r
      else if name = ''table_commit'' then RecordTableCommit (labels ! 0) (labels ! 1) r
      else if name = ''transaction_commit'' then RecordTransactionCommit (labels ! 0) r
      else if name = ''leader_status'' then SetLeaderStatus (labels ! 0) (if labels ! 1 = ''1'' then 1 else 0) r
      else if name = ''background_task_runs'' then IncBackgroundTaskRuns (labels ! 0) (labels ! 1) r
      else r)"

text \<open>
  The requests in flight, each with the effects that its handler has yet to carry out before it returns: a
  handler runs its statements, and the last of them fixes the effects, which then follow in their order.
\<close>

definition due :: "outcome prog \<Rightarrow> effect list" where
  "due p = (case p of Done out \<Rightarrow> snd out | Stmt f g \<Rightarrow> [])"

inductive gstep ::
    "(outcome prog \<times> effect list) list \<times> db \<times> registry \<Rightarrow> (outcome prog \<times> effect list) list \<times> db \<times> registry \<Rightarrow> bool" where
  statement: "i < length ts \<Longrightarrow> ts ! i = (p, []) \<Longrightarrow> pstep (p, d) (p', d') \<Longrightarrow>
    gstep (ts, d, r) (ts[i := (p', due p')], d', r)"
| effects: "i < length ts \<Longrightarrow> ts ! i = (p, e # effs) \<Longrightarrow>
    gstep (ts, d, r) (ts[i := (p, effs)], d, record_effect e r)"

inductive greach ::
    "(outcome prog \<times> effect list) list \<times> db \<times> registry \<Rightarrow> (outcome prog \<times> effect list) list \<times> db \<times> registry \<Rightarrow> bool" where
  start: "greach s s"
| more: "greach s s' \<Longrightarrow> gstep s' s'' \<Longrightarrow> greach s s''"

definition in_flight :: "outcome prog list \<Rightarrow> (outcome prog \<times> effect list) list" where
  "in_flight ps = map (\<lambda>p. (p, due p)) ps"

section \<open>The count of namespaces\<close>

definition ns_count :: "db \<Rightarrow> int" where
  "ns_count d = int (length (d_namespaces d))"

definition effect_delta :: "effect \<Rightarrow> int" where
  "effect_delta e =
     (case e of
        Metric name labels \<Rightarrow> if name = ''namespace_created'' then 1 else if name = ''namespace_dropped'' then - 1 else 0
      | Event ty ns \<Rightarrow> 0)"

definition ns_delta :: "outcome \<Rightarrow> int" where
  "ns_delta out = sum_list (map effect_delta (snd out))"

lemma ns_delta_simps [simp]:
  "ns_delta (r, []) = 0" "ns_delta (r, e # effs) = effect_delta e + ns_delta (r, effs)"
  by (simp_all add: ns_delta_def)

lemma effect_delta_simps [simp]:
  "effect_delta (Event ty ns) = 0" "effect_delta (Metric ''namespace_created'' ls) = 1"
  "effect_delta (Metric ''namespace_dropped'' ls) = - 1"
  "effect_delta (Metric ''table_created'' ls) = 0" "effect_delta (Metric ''table_dropped'' ls) = 0"
  "effect_delta (Metric ''table_commit'' ls) = 0" "effect_delta (Metric ''transaction_commit'' ls) = 0"
  by (simp_all add: effect_delta_def)

definition done_delta :: "outcome prog \<Rightarrow> int" where
  "done_delta p = (case p of Done out \<Rightarrow> ns_delta out | Stmt f g \<Rightarrow> 0)"

lemma NamespacesTotal_effect: "NamespacesTotal (record_effect e r) = NamespacesTotal r + effect_delta e"
  by (cases e)
    (simp_all add: effect_delta_def RecordNamespaceCreated_def RecordNamespaceDropped_def RecordTableCreated_def
      RecordTableDropped_def RecordTableCommit_def RecordTransactionCommit_def SetLeaderStatus_def
      IncBackgroundTaskRuns_def)

lemma NamespacesTotal_effects: "NamespacesTotal (fold record_effect effs r) = NamespacesTotal r + sum_list (map effect_delta effs)"
  by (induction effs arbitrary: r) (simp_all add: NamespacesTotal_effect)

text \<open>What the effects still to come add to the gauge.\<close>

definition pending :: "(outcome prog \<times> effect list) list \<Rightarrow> int" where
  "pending ts = sum_list (map (\<lambda>(p, effs). sum_list (map effect_delta effs)) ts)"

lemma sum_list_upd: "i < length xs \<Longrightarrow> sum_list (xs[i := x]) = sum_list xs + x - (xs ! i :: int)"
  by (induction xs arbitrary: i) (auto split: nat.splits)

lemma pending_upd:
  assumes "i < length ts" "ts ! i = (p, effs)"
  shows "pending (ts[i := (p', effs')]) = pending ts + sum_list (map effect_delta effs') - sum_list (map effect_delta effs)"
  using sum_list_upd [of i "map (\<lambda>(p, effs). sum_list (map effect_delta effs)) ts"] assms
  by (simp add: pending_def map_update)

lemma sum_due: "sum_list (map effect_delta (due p)) = done_delta p"
  by (simp add: due_def done_delta_def ns_delta_def split: prog.split)

text \<open>Forgetting the effects, a run is one of the handlers; the gauge has all effects but those to come.\<close>

lemma greach_creach:
  assumes "greach (in_flight ps, d, r) (ts, d', r')"
  shows "creach (ps, d) (map fst ts, d') \<and>
    NamespacesTotal r' + pending ts = NamespacesTotal r + sum_list (map done_delta (map fst ts))"
  using assms
proof (induction "(in_flight ps, d, r)" "(ts, d', r')" arbitrary: ts d' r' rule: greach.induct)
  case start
  have "map fst (in_flight ps) = ps" by (simp add: in_flight_def comp_def)
  moreover have "pending (in_flight ps) = sum_list (map done_delta ps)"
    by (simp add: pending_def in_flight_def comp_def sum_due)
  ultimately show ?case by (auto intro: creach.start)
next
  case (more s)
  obtain ts1 d1 r1 where s: "s = (ts1, d1, r1)" by (cases s)
  note IH = more(2) [OF s]
  from more(3) [unfolded s] show ?case
  proof cases
    case (statement i p p')
    then have "creach (ps, d) ((map fst ts1)[i := p'], d')"
      using IH cstep.intros [of i "map fst ts1" d1 p' d'] creach.more [of "(ps, d)" "(map fst ts1, d1)"] by simp
    moreover have "done_delta p = 0" using statement(5) by (auto simp: done_delta_def elim: pstep.cases)
    then have "sum_list (map done_delta ((map fst ts1)[i := p'])) = sum_list (map done_delta (map fst ts1)) + done_delta p'"
      using sum_list_upd [of i "map done_delta (map fst ts1)" "done_delta p'"] statement(3,4) unfolding map_update by simp
    moreover have "pending ts = pending ts1 + done_delta p'"
      using pending_upd [OF statement(3,4), of p' "due p'"] statement(1) by (simp add: sum_due)
    ultimately show ?thesis using IH statement(1,2) by (simp add: map_update)
  next
    case (effects i p e effs)
    have "map fst ts = map fst ts1" using effects(1,4,5) by (simp add: map_update list_update_same_conv)
    moreover have "pending ts = pending ts1 - effect_delta e"
      using pending_upd [OF effects(4,5), of p effs] effects(1) by simp
    ultimately show ?thesis using IH effects(2,3) by (simp add: NamespacesTotal_effect)
  qed
qed

text \<open>A run of the handlers whose effects are put off, and then the effects of one of them.\<close>

lemma creach_greach:
  assumes "creach (ps, d) (ps', d')"
  shows "greach (in_flight ps, d, r) (in_flight ps', d', r)"
  using assms
proof (induction "(ps, d)" "(ps', d')" arbitrary: ps' d' rule: creach.induct)
  case start
  show ?case by (rule greach.start)
next
  case (more s)
  obtain ps1 d1 where s: "s = (ps1, d1)" by (cases s)
  from more(3) [unfolded s] obtain i p' where i: "i < length ps1" "ps' = ps1[i := p']" "pstep (ps1 ! i, d1) (p', d')"
    by (auto elim: cstep.cases)
  have "due (ps1 ! i) = []" using i(3) by (auto simp: due_def elim: pstep.cases)
  then have "gstep (in_flight ps1, d1, r) ((in_flight ps1)[i := (p', due p')], d', r)"
    using i by (intro gstep.statement) (simp_all add: in_flight_def)
  then have "gstep (in_flight ps1, d1, r) (in_flight ps', d', r)" using i(2) by (simp add: in_flight_def map_update)
  with more(2) [OF s] show ?case by (rule greach.more)
qed

lemma greach_trans: "greach s' s'' \<Longrightarrow> greach s s' \<Longrightarrow> greach s s''"
  by (induction rule: greach.induct) (auto intro: greach.more)

lemma greach_effects:
  assumes "i < length ts" "ts ! i = (p, effs)"
  shows "greach (ts, d, r) (ts[i := (p, [])], d, fold record_effect effs r)"
  using assms
proof (induction effs arbitrary: ts r)
  case Nil
  then have "ts[i := (p, [])] = ts" by (simp add: list_update_same_conv)
  then show ?case by (simp add: greach.start)
next
  case (Cons e effs)
  then have "gstep (ts, d, r) (ts[i := (p, effs)], d, record_effect e r)" by (intro gstep.effects)
  then have "greach (ts, d, r) (ts[i := (p, effs)], d, record_effect e r)" by (blast intro: greach.intros)
  from greach_trans [OF Cons.IH [of "ts[i := (p, effs)]" "record_effect e r"] this] Cons.prems show ?case by simp
qed

section \<open>Programs whose metrics tally with the database\<close>

text \<open>
  \<open>tallied rel p\<close>: a statement of \<open>p\<close> leaves the number of namespaces as it is, or ends \<open>p\<close>, and then the change of the
  gauge is related to the change of the number.
\<close>

inductive tallied :: "(int \<Rightarrow> int \<Rightarrow> bool) \<Rightarrow> outcome prog \<Rightarrow> bool" for rel where
  Done: "ns_delta out = 0 \<Longrightarrow> tallied rel (Done out)"
| Stmt: "(\<And>d. catalog_ok d \<Longrightarrow> (ns_count (snd (f d)) = ns_count d \<and> tallied rel (fst (f d))) \<or>
      (\<exists>out. fst (f d) = Done out \<and> rel (ns_delta out) (ns_count (snd (f d)) - ns_count d))) \<Longrightarrow>
    (\<And>e. tallied rel (g e)) \<Longrightarrow> tallied rel (Stmt f g)"

inductive_cases tallied_StmtE: "tallied rel (Stmt f g)"
inductive_simps tallied_Done: "tallied rel (Done out)"

declare tallied_Done [simp]

lemma tallied_query:
  "(\<And>d. tallied rel (k (q d))) \<Longrightarrow> (\<And>e. tallied rel (failed e)) \<Longrightarrow> tallied rel (query q failed k)"
  by (auto simp: query_def intro!: tallied.Stmt)

lemma tallied_exec:
  assumes "\<And>x. tallied rel (k x)" "\<And>e. tallied rel (failed e)" "\<And>d x d'. s d = Inr (x, d') \<Longrightarrow> ns_count d' = ns_count d"
  shows "tallied rel (exec s failed k)"
  unfolding exec_def by (rule tallied.Stmt) (use assms in \<open>auto split: sum.splits prod.splits\<close>)

lemma tallied_exec_end:
  assumes "\<And>e. tallied rel (failed e)" "\<And>x. \<exists>out. k x = Done out"
    "\<And>d x d' out. catalog_ok d \<Longrightarrow> s d = Inr (x, d') \<Longrightarrow> k x = Done out \<Longrightarrow> rel (ns_delta out) (ns_count d' - ns_count d)"
  shows "tallied rel (exec s failed k)"
  unfolding exec_def
proof (rule tallied.Stmt)
  fix d assume ok: "catalog_ok d"
  show "(ns_count (snd (case s d of Inl e \<Rightarrow> (failed e, d) | Inr (x, d') \<Rightarrow> (k x, d'))) = ns_count d \<and>
      tallied rel (fst (case s d of Inl e \<Rightarrow> (failed e, d) | Inr (x, d') \<Rightarrow> (k x, d')))) \<or>
    (\<exists>out. fst (case s d of Inl e \<Rightarrow> (failed e, d) | Inr (x, d') \<Rightarrow> (k x, d')) = Done out \<and>
      rel (ns_delta out) (ns_count (snd (case s d of Inl e \<Rightarrow> (failed e, d) | Inr (x, d') \<Rightarrow> (k x, d'))) - ns_count d))"
  proof (cases "s d")
    case (Inr xd)
    obtain x d' where "xd = (x, d')" by (cases xd)
    moreover obtain out where "k x = Done out" using assms(2) by blast
    ultimately show ?thesis using Inr assms(3) [OF ok] by auto
  qed (use assms(1) in simp)
qed (rule assms(1))

lemma tallied_WithLock:
  assumes "\<And>e. tallied rel (failed e)" "\<And>d x d'. fn d = (Inr x, d') \<Longrightarrow> ns_count d' = ns_count d \<and> tallied rel (k x)"
  shows "tallied rel (WithLock seen cfg fn failed k)"
proof -
  have "tallied rel (attempts seen first n lastErr fn failed k)" for first n lastErr
  proof (induction n arbitrary: first lastErr)
    case 0
    with assms show ?case by simp
  next
    case (Suc n)
    let ?again = "\<lambda>e. if isLockTimeoutError e then attempts seen False n (Some e) fn failed k else failed (OtherError e)"
    have f: "tallied rel (?again e)" for e using Suc assms(1) by simp
    have "tallied rel (executeWithLock seen fn ?again k)"
      unfolding executeWithLock_def
      by (rule tallied.Stmt) (use f assms in \<open>auto split: prod.splits sum.splits\<close>)
    with assms(1) show ?case by (auto simp: pause_def Let_def intro!: tallied.Stmt)
  qed
  then show ?thesis by (simp add: WithLock_def)
qed

section \<open>The handlers\<close>

text \<open>The statements that leave the namespaces alone.\<close>

lemma ns_count_frame [simp]:
  "ns_count (sql_update_ns_props props ns d) = ns_count d" "ns_count (sql_update_table i l m p d) = ns_count d"
  "ns_count (sql_update_view i l m d) = ns_count d" "ns_count (sql_log_commit i l d) = ns_count d"
  "ns_count (drop_tables P d) = ns_count d" "ns_count (drop_views P d) = ns_count d"
  "ns_count (d\<lparr>d_plans := ps\<rparr>) = ns_count d" "ns_count (d\<lparr>d_keys := ks\<rparr>) = ns_count d" "ns_count (d\<lparr>d_tokens := ts\<rparr>) = ns_count d"
  by (simp_all add: ns_count_def sql_update_ns_props_def sql_update_table_def sql_update_view_def sql_log_commit_def
      drop_tables_def drop_views_def Let_def)

lemma ns_count_insert_table: "sql_insert_table i n l m d = Inr d' \<Longrightarrow> ns_count d' = ns_count d"
  by (auto simp: sql_insert_table_def ns_count_def split: if_splits)

lemma ns_count_insert_view: "sql_insert_view i n l m d = Inr d' \<Longrightarrow> ns_count d' = ns_count d"
  by (auto simp: sql_insert_view_def ns_count_def split: if_splits)

lemma ns_count_delete_table: "sql_delete_table ns n d = (c, d') \<Longrightarrow> ns_count d' = ns_count d"
  by (auto simp: sql_delete_table_def Let_def)

lemma ns_count_delete_view: "sql_delete_view ns n d = (c, d') \<Longrightarrow> ns_count d' = ns_count d"
  by (auto simp: sql_delete_view_def Let_def)

lemma ns_count_rename_table: "sql_rename_table i' n' i n d = Inr (k, d') \<Longrightarrow> ns_count d' = ns_count d"
  by (auto simp: sql_rename_table_def map_sum_def ns_count_def split: sum.splits)

lemma ns_count_rename_view: "sql_rename_view i' n' i n d = Inr (k, d') \<Longrightarrow> ns_count d' = ns_count d"
  by (auto simp: sql_rename_view_def map_sum_def ns_count_def split: sum.splits)

lemma ns_count_plans:
  "sql_insert_plan i t x e d = Inr d' \<Longrightarrow> ns_count d' = ns_count d" "sql_cancel_plan ns n i d = (c, d') \<Longrightarrow> ns_count d' = ns_count d"
  "ns_count (set_plan_status P s d) = ns_count d"
  by (auto simp: sql_insert_plan_def sql_cancel_plan_def set_plan_status_def ns_count_def Let_def split: if_splits)

lemma ns_count_keys:
  "sql_insert_key r d = Inr d' \<Longrightarrow> ns_count d' = ns_count d" "sql_rotate_key h o' at i d = Inr d' \<Longrightarrow> ns_count d' = ns_count d"
  "sql_delete_key i d = (c, d') \<Longrightarrow> ns_count d' = ns_count d" "sql_insert_token t d = Inr d' \<Longrightarrow> ns_count d' = ns_count d"
  "ns_count (sql_touch_key at i d) = ns_count d"
  by (auto simp: sql_insert_key_def sql_rotate_key_def sql_delete_key_def sql_insert_token_def sql_touch_key_def
      update_key_def ns_count_def split: if_splits)

lemmas ns_counts = ns_count_insert_table ns_count_insert_view ns_count_delete_table ns_count_delete_view
  ns_count_rename_table ns_count_rename_view ns_count_plans ns_count_keys

lemma ns_count_insert: "sql_insert_ns ns props d = Inr d' \<Longrightarrow> ns_count d' = ns_count d + 1"
  by (auto simp: sql_insert_ns_def ns_count_def split: if_splits)

lemma ns_count_delete:
  assumes "catalog_ok d"
  shows "- 1 \<le> ns_count (sql_delete_ns i d) - ns_count d"
proof -
  have "distinct (map ns_id (d_namespaces d))" using catalog_ok_db [OF assms] by (simp add: db_ok_def)
  then have "distinct (map ns_id (filter (\<lambda>r. ns_id r = i) (d_namespaces d)))" by (rule distinct_map_filter)
  moreover have "set (map ns_id (filter (\<lambda>r. ns_id r = i) (d_namespaces d))) \<subseteq> {i}" by auto
  ultimately have "length (filter (\<lambda>r. ns_id r = i) (d_namespaces d)) \<le> 1"
    by (metis card.empty card.insert card_mono distinct_card empty_iff finite.emptyI finite_insert length_map One_nat_def)
  moreover have "length (filter (\<lambda>r. ns_id r = i) (d_namespaces d)) + length (filter (\<lambda>r. ns_id r \<noteq> i) (d_namespaces d)) =
      length (d_namespaces d)"
    by (rule sum_length_filter_compl)
  ultimately have "length (d_namespaces d) \<le> length (filter (\<lambda>r. ns_id r \<noteq> i) (d_namespaces d)) + 1" by linarith
  then show ?thesis by (simp add: ns_count_def sql_delete_ns_def Let_def drop_tables_def drop_views_def)
qed

lemma tallied_missing_or: "tallied rel (missing_or ns r)"
  by (auto simp: missing_or_def intro!: tallied_query)

lemma tallied_apiError: "tallied rel (apiError code m t)"
  by (simp add: apiError_def)

lemma tallied_unauthorized: "tallied rel unauthorized"
  by (simp add: unauthorized_def tallied_apiError)

lemmas tallied_rules = tallied_query tallied_missing_or tallied_apiError tallied_unauthorized

lemma tallied_CreateNamespace: "rel 1 1 \<Longrightarrow> tallied rel (CreateNamespace b body)"
  by (auto simp: CreateNamespace_def Let_def split: option.splits intro!: tallied_exec_end)
    (simp_all add: ns_count_insert)

lemma tallied_DeleteNamespace: "(\<And>n. - 1 \<le> n \<Longrightarrow> rel (- 1) n) \<Longrightarrow> tallied rel (DeleteNamespace b p)"
  by (auto simp: DeleteNamespace_def Let_def ns_count_delete split: option.splits intro!: tallied_rules tallied_exec_end)

lemma tallied_namespaces:
  "tallied rel (ListNamespaces coll got parent tok n)" "tallied rel (GetNamespace p)" "tallied rel (NamespaceExists p)"
  "tallied rel (UpdateNamespaceProperties visit p ubody)"
  by (auto simp: ListNamespaces_def GetNamespace_def NamespaceExists_def UpdateNamespaceProperties_def Let_def
      split: option.splits prod.splits intro!: tallied_rules tallied_exec)

lemma tallied_CreateTable: "tallied rel (CreateTable cfg uuid now p body)"
  by (auto simp: CreateTable_def Let_def simp del: encode.simps split: option.splits intro!: tallied_rules tallied_exec)
    (blast intro: ns_counts)+

lemma tallied_RegisterTable: "tallied rel (RegisterTable uuid now p rbody)"
  by (auto simp: RegisterTable_def Let_def simp del: encode.simps split: option.splits intro!: tallied_rules tallied_exec)
    (blast intro: ns_counts)+

lemma tallied_tables:
  "tallied rel (ListTables coll got p tok n)" "tallied rel (LoadTable p t)" "tallied rel (TableExists p t)"
  by (auto simp: ListTables_def LoadTable_def TableExists_def Let_def split: option.splits prod.splits intro!: tallied_rules)

lemma tallied_DropTable: "tallied rel (DropTable p t)"
  by (auto simp: DropTable_def Let_def intro!: tallied_rules tallied_exec)
    (blast intro: ns_counts)+

lemma tallied_DropView: "tallied rel (DropView p t)"
  by (auto simp: DropView_def Let_def intro!: tallied_rules tallied_exec)
    (blast intro: ns_counts)+

lemma ns_count_commit_tx: "commit_tx ns t req now d = (x, d') \<Longrightarrow> ns_count d' = ns_count d"
  by (auto simp: commit_tx_def split: option.splits elim!: commit_row_cases)

lemma tallied_CommitTable: "tallied rel (CommitTable cfg now p t body)"
  by (auto simp: CommitTable_def Let_def split: option.splits lock_error.splits commit_result.splits
      intro!: tallied_WithLock tallied.Done dest: ns_count_commit_tx)

lemma ns_count_replace_tx: "replace_tx ns t now d = (x, d') \<Longrightarrow> ns_count d' = ns_count d"
  by (auto simp: replace_tx_def Let_def split: option.splits)

lemma tallied_ReplaceView: "tallied rel (ReplaceView cfg now p t body)"
  by (auto simp: ReplaceView_def Let_def split: option.splits lock_error.splits commit_result.splits
      intro!: tallied_WithLock tallied.Done dest: ns_count_replace_tx)

lemma tallied_CommitTransaction: "tallied rel (CommitTransaction cfg body)"
  by (auto simp: CommitTransaction_def split: option.splits lock_error.splits sum.splits prod.splits
      intro!: tallied_WithLock tallied.Done dest!: commit_changes_eq)

lemma tallied_views:
  "tallied rel (ListViews coll got p tok n)" "tallied rel (LoadView p t)" "tallied rel (ViewExists p t)"
  by (auto simp: ListViews_def LoadView_def ViewExists_def Let_def split: option.splits prod.splits intro!: tallied_rules)

lemma tallied_CreateView: "tallied rel (CreateView cfg uuid now p body)"
  by (auto simp: CreateView_def Let_def simp del: encode.simps split: option.splits intro!: tallied_rules tallied_exec)
    (blast intro: ns_counts)+

lemma tallied_renames: "tallied rel (RenameTable body)" "tallied rel (RenameView body)"
  by (auto simp: RenameTable_def RenameView_def Let_def split: option.splits intro!: tallied_rules tallied_exec)
    (blast intro: ns_counts)+

lemma tallied_scans:
  "tallied rel (SubmitScanPlan u planID now p t body)" "tallied rel (GetScanPlan u p t i)"
  "tallied rel (CancelScanPlan u p t i)" "tallied rel (FetchPlanTasks u p t fbody)"
  by (auto simp: SubmitScanPlan_def GetScanPlan_def CancelScanPlan_def FetchPlanTasks_def Let_def with_uuid_Inr
      simp del: encode.simps split: option.splits intro!: tallied_rules tallied_exec)
    (blast intro: ns_counts)+

lemma tallied_keys:
  "tallied rel (ListAPIKeys got ut fmt now who)" "tallied rel (CreateAPIKey H u fmt random uuid now who body)"
  "tallied rel (RotateAPIKey H u fmt random now who keyID)" "tallied rel (DeleteAPIKey u who keyID)"
  by (auto simp: ListAPIKeys_def CreateAPIKey_def RotateAPIKey_def DeleteAPIKey_def Let_def with_uuid_Inr
      split: option.splits intro!: tallied_rules tallied_exec)
    (blast intro: ns_counts)+

lemma tallied_others:
  "tallied rel (LoadCredentials sts iam pt now sto delegation)" "tallied rel (ReportMetrics mbody)"
  by (auto simp: LoadCredentials_def ReportMetrics_def Let_def split: sum.splits intro!: tallied_rules)

lemma tallied_handler:
  assumes "rel 1 1" "(\<forall>ns. req \<noteq> QDeleteNamespace ns) \<or> (\<forall>n \<ge> - 1. rel (- 1) n)"
  shows "tallied rel (handler en ca who req)"
  using assms
  by (cases req)
    (auto intro!: tallied_CreateNamespace tallied_DeleteNamespace tallied_namespaces tallied_tables tallied_CreateTable
      tallied_CommitTable tallied_DropTable tallied_others tallied_scans tallied_RegisterTable tallied_views
      tallied_CreateView tallied_ReplaceView tallied_DropView tallied_renames tallied_CommitTransaction tallied_keys)

lemma tallied_Authz: "tallied rel inner \<Longrightarrow> tallied rel (Authz cfg required path who inner)"
  by (auto simp: Authz_def checkPermission_def Let_def forbiddenError_def split: option.splits intro!: tallied_rules)

lemma tallied_validate:
  assumes "\<And>x. tallied rel (k x)"
  shows "tallied rel (validateBearerToken H now token k)" "tallied rel (validateAPIKey H ut now token k)"
  using assms
  by (auto simp: validateBearerToken_def validateAPIKey_def accept_key_def Let_def ns_counts split: option.splits
      intro!: tallied_rules tallied_exec)

lemma tallied_serve:
  assumes "rel 1 1" "(\<forall>ns. req \<noteq> QDeleteNamespace ns) \<or> (\<forall>n \<ge> - 1. rel (- 1) n)"
  shows "tallied rel (serve en ca req)"
proof -
  have h: "tallied rel (handler en ca who req)" for who by (rule tallied_handler [OF assms])
  then have f: "tallied rel (case r of Inl err \<Rightarrow> unauthorizedError err | Inr who \<Rightarrow> Authz cfg q p (Some who) (handler en ca (Some who) req))"
    "tallied rel (case r of Inl err \<Rightarrow> unauthorizedError err | Inr who \<Rightarrow> handler en ca (Some who) req)" for r cfg q p
    by (auto simp: unauthorizedError_def split: sum.splits intro!: tallied_rules tallied_Authz)
  show ?thesis unfolding serve_def guarded_def Let_def Auth_def
    by (auto simp: unauthorizedError_def h split: option.splits prod.splits intro!: tallied_rules tallied_Authz tallied_validate f)
qed

section \<open>The gauge of namespaces\<close>

lemma tallied_pstep:
  assumes "pstep (p, d) (p', d')" "tallied rel p" "catalog_ok d" "rel 0 0"
  shows "(tallied rel p' \<or> (\<exists>out. p' = Done out)) \<and> rel (done_delta p') (ns_count d' - ns_count d)"
proof -
  have z: "tallied rel q \<Longrightarrow> done_delta q = 0" for q by (cases q) (simp_all add: done_delta_def)
  from assms(1) show ?thesis
  proof cases
    case (ok f g)
    with assms(2) have "(ns_count (snd (f d)) = ns_count d \<and> tallied rel (fst (f d))) \<or>
        (\<exists>out. fst (f d) = Done out \<and> rel (ns_delta out) (ns_count (snd (f d)) - ns_count d))"
      using assms(3) by (blast elim: tallied_StmtE)
    with ok z assms(4) show ?thesis by (auto simp: done_delta_def)
  next
    case (failed f g e)
    with assms(2) have "tallied rel p'" by (auto elim: tallied_StmtE)
    with failed z assms(4) show ?thesis by simp
  qed
qed

lemma tallied_creach:
  assumes "creach (ps0, d0) (ps, d)" "list_all (tallied rel) ps0" "list_all (safe catalog_ok answered) ps0" "catalog_ok d0"
    "rel 0 0" "\<And>a b a' b'. rel a b \<Longrightarrow> rel a' b' \<Longrightarrow> rel (a + a') (b + b')"
  shows "list_all (\<lambda>p. tallied rel p \<or> (\<exists>out. p = Done out)) ps \<and> rel (sum_list (map done_delta ps)) (ns_count d - ns_count d0)"
  using assms(1)
proof (induction "(ps0, d0)" "(ps, d)" arbitrary: ps d rule: creach.induct)
  case start
  have "sum_list (map done_delta ps0) = 0"
    using assms(2) by (induction ps0) (auto simp: done_delta_def split: prog.splits)
  with assms(2,5) show ?case by (auto simp: list_all_iff)
next
  case (more s)
  obtain ps1 d1 where s: "s = (ps1, d1)" by (cases s)
  note IH = more(2) [OF s]
  have ok: "catalog_ok d1" using safe_creach [OF more(1) [unfolded s] assms(3,4)] by simp
  from more(3) s obtain i p' where i: "ps = ps1[i := p']" "i < length ps1" "pstep (ps1 ! i, d1) (p', d)"
    by (auto elim: cstep.cases)
  from i(3) have "\<not> (\<exists>out. ps1 ! i = Done out)" by (auto elim: pstep_DoneE)
  with IH i(2) have t: "tallied rel (ps1 ! i)" by (auto simp: list_all_length)
  then have "done_delta (ps1 ! i) = 0" by (cases "ps1 ! i") (simp_all add: done_delta_def)
  with i(2) have "sum_list (map done_delta ps) = sum_list (map done_delta ps1) + done_delta p'"
    using sum_list_upd [of i "map done_delta ps1" "done_delta p'"] unfolding i(1) map_update by simp
  moreover from tallied_pstep [OF i(3) t ok assms(5)] have p: "tallied rel p' \<or> (\<exists>out. p' = Done out)"
      "rel (done_delta p') (ns_count d - ns_count d1)" by simp_all
  moreover have "list_all (\<lambda>p. tallied rel p \<or> (\<exists>out. p = Done out)) ps"
    using IH p(1) unfolding i(1) by (auto simp: list_all_iff dest!: set_update_subset_insert [THEN subsetD])
  moreover have "rel (sum_list (map done_delta ps1) + done_delta p') (ns_count d1 - ns_count d0 + (ns_count d - ns_count d1))"
    using IH p(2) by (blast intro: assms(6))
  ultimately show ?case by (simp add: algebra_simps)
qed

text \<open>C29: the gauge of namespaces.  The gauge agrees with the table when requests to any routes come in; their statements and
  the calls that count interleave and fail in any way.  At every moment the gauge, together with what the calls
  still to come will add, is at most the number of rows; so when every call has been made the gauge is not above the
  number of rows.  Both are equalities as long as no request is a deletion of a namespace.\<close>

theorem namespace_gauge:
  assumes "catalog_ok d" "requests_ok rs" "NamespacesTotal r = ns_count d"
    "greach (in_flight (serve_all en rs), d, r) (ts, d', r')"
  shows "NamespacesTotal r' + pending ts \<le> ns_count d' \<and>
    (list_all (\<lambda>(p, effs). effs = []) ts \<longrightarrow> NamespacesTotal r' \<le> ns_count d') \<and>
    (list_all (\<lambda>(ca, req). \<forall>ns. req \<noteq> QDeleteNamespace ns) rs \<longrightarrow>
       NamespacesTotal r' + pending ts = ns_count d' \<and>
       (list_all (\<lambda>(p, effs). effs = []) ts \<longrightarrow> NamespacesTotal r' = ns_count d'))"
proof -
  note s = safe_serve_all [OF assms(2)] and c = greach_creach [OF assms(4), THEN conjunct1]
    and n = greach_creach [OF assms(4), THEN conjunct2]
  have z: "pending ts = 0" if "list_all (\<lambda>(p, effs). effs = []) ts"
    using that by (induction ts) (auto simp: pending_def)
  have "list_all (tallied (\<le>)) (serve_all en rs)"
    by (auto simp: serve_all_def list_all_iff intro!: tallied_serve)
  from tallied_creach [OF c this s assms(1)]
  have "sum_list (map done_delta (map fst ts)) \<le> ns_count d' - ns_count d" by simp
  moreover have "sum_list (map done_delta (map fst ts)) = ns_count d' - ns_count d"
    if "list_all (\<lambda>(ca, req). \<forall>ns. req \<noteq> QDeleteNamespace ns) rs"
  proof -
    have "list_all (tallied (=)) (serve_all en rs)"
      using that by (fastforce simp: serve_all_def list_all_iff intro!: tallied_serve)
    from tallied_creach [OF c this s assms(1)] show ?thesis by simp
  qed
  ultimately show ?thesis using assms(3) n z by auto
qed

lemma register_uncounted:
  "safe (\<lambda>d. True) (\<lambda>out. snd out = []) (RegisterTable uuid now p body)"
  "safe (\<lambda>d. True) (\<lambda>out. snd out = []) (RenameTable rbody)"
  by (auto simp: RegisterTable_def RenameTable_def Let_def safe_Done_iff simp del: encode.simps split: option.splits
      intro!: safe_query safe_exec)

text \<open>The gauge of namespaces drifts.  \<open>DeleteNamespace\<close> does not look at how many rows its deletion removed: of
  two requests to delete an empty namespace that both pass the check before either deletes, both are answered
  204 and take one off the gauge, and one row is gone; the gauge stays one below the number of rows.\<close>

theorem namespace_gauge_drifts:
  assumes "catalog_ok d" "sql_ns_id (parseNamespace p) d = Some i" "sql_count_items i d = 0" "NamespacesTotal r = ns_count d"
  shows "\<exists>effs d' r'.
    greach (in_flight [DeleteNamespace b p, DeleteNamespace b p], d, r)
      ([(Done (Resp 204 None, effs), []), (Done (Resp 204 None, effs), [])], d', r') \<and>
    NamespacesTotal r' = ns_count d' - 1"
proof -
  let ?ps = "[DeleteNamespace b p, DeleteNamespace b p]"
  define effs where "effs = Metric ''namespace_dropped'' [] # (if b then [Event ''namespace.dropped'' (dotted (parseNamespace p))] else [])"
  let ?done = "Done (Resp 204 None, effs)" and ?d' = "sql_delete_ns i d"
  have twice: "sql_delete_ns i (sql_delete_ns i d) = sql_delete_ns i d"
    by (simp add: sql_delete_ns_def drop_tables_def drop_views_def Let_def)
  have "sched [0, 0, 1, 1, 0, 1] (?ps, d) = ([?done, ?done], ?d')"
    using assms(2,3) by (simp add: DeleteNamespace_def query_def exec_def effs_def Let_def twice)
  moreover have "creach (?ps, d) (sched [0, 0, 1, 1, 0, 1] (?ps, d))" by (rule sched_creach) simp
  ultimately have "creach (?ps, d) ([?done, ?done], ?d')" by simp
  then have "greach (in_flight ?ps, d, r) (in_flight [?done, ?done], ?d', r)" by (rule creach_greach)
  moreover have "in_flight [?done, ?done] = [(?done, effs), (?done, effs)]" by (simp add: in_flight_def due_def)
  ultimately have g0: "greach (in_flight ?ps, d, r) ([(?done, effs), (?done, effs)], ?d', r)" by (simp only:)
  have g1: "greach ([(?done, effs), (?done, effs)], ?d', r) ([(?done, []), (?done, effs)], ?d', fold record_effect effs r)"
    using greach_effects [of 0 "[(?done, effs), (?done, effs)]" ?done effs] by simp
  have g2: "greach ([(?done, []), (?done, effs)], ?d', fold record_effect effs r)
      ([(?done, []), (?done, [])], ?d', fold record_effect effs (fold record_effect effs r))"
    using greach_effects [of 1 "[(?done, []), (?done, effs)]" ?done effs] by simp
  note greach_trans [OF g2 greach_trans [OF g1 g0]]
  moreover have "ns_count (sql_delete_ns i d) = ns_count d - 1"
  proof -
    have "has_ns_id i d" using sql_ns_id_has [OF assms(2)] .
    then have "filter (\<lambda>r. ns_id r = i) (d_namespaces d) \<noteq> []" by (auto simp: has_ns_id_def list_ex_iff filter_empty_conv)
    then have "length (filter (\<lambda>r. ns_id r \<noteq> i) (d_namespaces d)) < length (d_namespaces d)"
      using sum_length_filter_compl [of "\<lambda>r. ns_id r = i" "d_namespaces d"] by (cases "filter (\<lambda>r. ns_id r = i) (d_namespaces d)") auto
    then have "ns_count (sql_delete_ns i d) < ns_count d"
      by (simp add: ns_count_def sql_delete_ns_def Let_def drop_tables_def drop_views_def)
    with ns_count_delete [OF assms(1), of i] show ?thesis by linarith
  qed
  moreover have "NamespacesTotal (fold record_effect effs (fold record_effect effs r)) = NamespacesTotal r - 2"
    by (simp add: NamespacesTotal_effects) (simp add: effs_def)
  ultimately show ?thesis using assms(4)
    by (intro exI [of _ effs] exI [of _ ?d'] exI [of _ "fold record_effect effs (fold record_effect effs r)"]) simp
qed

lemma sample_empty:
  "catalog_ok (sample_db\<lparr>d_tables := []\<rparr>)" "sql_ns_id (parseNamespace ''a'') (sample_db\<lparr>d_tables := []\<rparr>) = Some 0"
  "sql_count_items 0 (sample_db\<lparr>d_tables := []\<rparr>) = 0" "ns_count (sample_db\<lparr>d_tables := []\<rparr>) = 1"
  by (simp_all add: catalog_ok_def db_ok_def items_ok_def sample_names sql_ns_id_def sql_namespace_def sample_db_def
      empty_db_def sql_count_items_def ns_count_def)

theorem namespace_gauge_drifts_witness:
  "\<exists>effs d' r'.
    greach (in_flight [DeleteNamespace True ''a'', DeleteNamespace True ''a''], sample_db\<lparr>d_tables := []\<rparr>,
        RecordNamespaceCreated new_registry)
      ([(Done (Resp 204 None, effs), []), (Done (Resp 204 None, effs), [])], d', r') \<and>
    NamespacesTotal r' = ns_count d' - 1"
  by (rule namespace_gauge_drifts [OF sample_empty(1-3)]) (simp add: sample_empty RecordNamespaceCreated_def new_registry_def)

text \<open>Two requests to create the same namespace.  When both rows have been tried for and nothing has been counted yet, the
  gauge is behind by one, and the one call to come makes up for it.\<close>

theorem namespace_gauge_witness:
  "\<exists>ts d'. greach (in_flight (serve_all sample_env [(sample_call, QCreateNamespace (Some \<lparr>cn_namespace = [''b''], cn_properties = None\<rparr>)),
      (sample_call, QCreateNamespace (Some \<lparr>cn_namespace = [''b''], cn_properties = None\<rparr>))]), sample_db\<lparr>d_tables := []\<rparr>,
      RecordNamespaceCreated new_registry) (ts, d', RecordNamespaceCreated new_registry) \<and>
    ns_count d' = 2 \<and> NamespacesTotal (RecordNamespaceCreated new_registry) = 1 \<and> pending ts = 1"
proof -
  let ?q = "QCreateNamespace (Some \<lparr>cn_namespace = [''b''], cn_properties = None\<rparr>)"
  let ?rs = "[(sample_call, ?q), (sample_call, ?q)]" and ?d = "sample_db\<lparr>d_tables := []\<rparr>"
  let ?r = "RecordNamespaceCreated new_registry"
  obtain ps d' where s: "sched [0, 1] (serve_all sample_env ?rs, ?d) = (ps, d')" by fastforce
  have "creach (serve_all sample_env ?rs, ?d) (sched [0, 1] (serve_all sample_env ?rs, ?d))"
    by (rule sched_creach) (simp add: serve_all_def)
  with s have g: "greach (in_flight (serve_all sample_env ?rs), ?d, ?r) (in_flight ps, d', ?r)" by (simp add: creach_greach)
  have n: "ns_count d' = 2"
    using s by (auto simp: serve_all_def serve_sample CreateNamespace_def exec_def sql_insert_ns_def sql_ns_exists_def
        sql_namespace_def sample_db_def empty_db_def ns_count_def unique_violation_def IsDuplicateError_def Let_def)
  have r1: "NamespacesTotal ?r = 1" by (simp add: RecordNamespaceCreated_def new_registry_def)
  have "requests_ok ?rs" using sample_requests_ok by (simp add: requests_ok_def request_ok_def)
  from namespace_gauge [OF sample_empty(1) this _ g] n r1 have "NamespacesTotal ?r + pending (in_flight ps) = 2"
    by (simp add: sample_empty)
  with r1 n g show ?thesis by (intro exI [of _ "in_flight ps"] exI [of _ d']) simp
qed

end
