(* ===== verification/Runner.thy ===== *)
theory Runner
  imports Background Gauges
begin

text \<open>
  The goroutines of \<open>internal/background/tasks.go\<close>: \<open>Start\<close> makes a context and one goroutine per task, each waits for
  its ticker or the end of its context and runs its task in between; \<open>Stop\<close> cancels the context of the last \<open>Start\<close>
  and waits for the wait group.  A state holds the goroutines, the contexts, the database and the metrics;
  when a ticker fires, what \<open>TryAcquire\<close> answers and what time it is are not fixed.  \<open>Start\<close> is one step:
  it and \<open>Stop\<close> are called from one goroutine.
\<close>

section \<open>Goroutines\<close>

datatype phase = Waits | Runs "effect list prog" | Gone

record worker =
  wk_task :: task
  wk_context :: nat
  wk_phase :: phase

text \<open>
  \<open>rn_contexts\<close>: the contexts made by the calls of \<open>Start\<close>, true once cancelled; \<open>rn_parent\<close>: the context they come
  from is; \<open>rn_cancel\<close>: the context of \<open>r.cancel\<close>; \<open>rn_waiting\<close>: the calls of \<open>Stop\<close> that wait; \<open>rn_stopped\<close>: a \<open>Stop\<close> has
  returned and \<open>Start\<close> was not called since.
\<close>

record runner =
  rn_tasks :: "task list"
  rn_workers :: "worker list"
  rn_contexts :: "bool list"
  rn_parent :: bool
  rn_cancel :: "nat option"
  rn_wg :: int
  rn_waiting :: nat
  rn_stopped :: bool
  rn_db :: db
  rn_registry :: registry

definition NewRunner :: "db \<Rightarrow> registry \<Rightarrow> runner" where
  "NewRunner d reg =
     \<lparr>rn_tasks = DefaultTasks, rn_workers = [], rn_contexts = [], rn_parent = False, rn_cancel = None, rn_wg = 0,
      rn_waiting = 0, rn_stopped = False, rn_db = d, rn_registry = reg\<rparr>"

definition StartRunner :: "runner \<Rightarrow> runner" where
  "StartRunner r =
     (let c = length (rn_contexts r) in
      r\<lparr>rn_contexts := rn_contexts r @ [False], rn_cancel := Some c, rn_wg := rn_wg r + int (length (rn_tasks r)),
        rn_workers := rn_workers r @ map (\<lambda>t. \<lparr>wk_task = t, wk_context = c, wk_phase = Waits\<rparr>) (rn_tasks r),
        rn_stopped := False\<rparr>)"

text \<open>\<open>Stop\<close> up to \<open>wg.Wait\<close>, and after it.\<close>

definition StopRunner :: "runner \<Rightarrow> runner" where
  "StopRunner r =
     r\<lparr>rn_contexts := (case rn_cancel r of Some c \<Rightarrow> (rn_contexts r)[c := True] | None \<Rightarrow> rn_contexts r),
       rn_waiting := rn_waiting r + 1\<rparr>"

definition stop_returns :: "runner \<Rightarrow> runner option" where
  "stop_returns r = (if 0 < rn_waiting r \<and> rn_wg r = 0 then Some (r\<lparr>rn_waiting := rn_waiting r - 1, rn_stopped := True\<rparr>) else None)"

definition context_done :: "runner \<Rightarrow> worker \<Rightarrow> bool" where
  "context_done r w \<longleftrightarrow> rn_parent r \<or> rn_contexts r ! wk_context w"

definition set_phase :: "nat \<Rightarrow> phase \<Rightarrow> runner \<Rightarrow> runner" where
  "set_phase i p r = r\<lparr>rn_workers := (rn_workers r)[i := (rn_workers r ! i)\<lparr>wk_phase := p\<rparr>]\<rparr>"

text \<open>
  The steps of \<open>runTask\<close>: \<open>ticks\<close> takes the branch of the ticker, which the \<open>select\<close> may do even when the context is
  done; \<open>works\<close> is a statement of the task; \<open>ends\<close> goes back to the \<open>select\<close>; \<open>leaves\<close> takes the branch of the context and
  the deferred \<open>wg.Done\<close>.
\<close>

inductive rstep :: "runner \<Rightarrow> runner \<Rightarrow> bool" where
  starts: "rstep r (StartRunner r)"
| stops: "rstep r (StopRunner r)"
| returns: "stop_returns r = Some r' \<Longrightarrow> rstep r r'"
| cancelled: "rstep r (r\<lparr>rn_parent := True\<rparr>)"
| ticks: "i < length (rn_workers r) \<Longrightarrow> wk_phase (rn_workers r ! i) = Waits \<Longrightarrow>
    rstep r (set_phase i (Runs (executeTask leader (wk_task (rn_workers r ! i)) now)) r)"
| works: "i < length (rn_workers r) \<Longrightarrow> wk_phase (rn_workers r ! i) = Runs p \<Longrightarrow> pstep (p, rn_db r) (p', d') \<Longrightarrow>
    rstep r (set_phase i (Runs p') (r\<lparr>rn_db := d'\<rparr>))"
| ends: "i < length (rn_workers r) \<Longrightarrow> wk_phase (rn_workers r ! i) = Runs (Done effs) \<Longrightarrow>
    rstep r (set_phase i Waits (r\<lparr>rn_registry := fold record_effect effs (rn_registry r)\<rparr>))"
| leaves: "i < length (rn_workers r) \<Longrightarrow> wk_phase (rn_workers r ! i) = Waits \<Longrightarrow> context_done r (rn_workers r ! i) \<Longrightarrow>
    rstep r (set_phase i Gone (r\<lparr>rn_wg := rn_wg r - 1\<rparr>))"

inductive rreach :: "runner \<Rightarrow> runner \<Rightarrow> bool" where
  start: "rreach r r"
| more: "rreach r s \<Longrightarrow> rstep s t \<Longrightarrow> rreach r t"

section \<open>The wait group counts the goroutines\<close>

definition alive :: "worker \<Rightarrow> int" where
  "alive w = (if wk_phase w = Gone then 0 else 1)"

definition live :: "worker list \<Rightarrow> int" where
  "live ws = sum_list (map alive ws)"

definition runner_ok :: "runner \<Rightarrow> bool" where
  "runner_ok r \<longleftrightarrow>
     rn_wg r = live (rn_workers r) \<and> set (rn_tasks r) \<subseteq> set DefaultTasks \<and>
     (\<forall>w \<in> set (rn_workers r). wk_task w \<in> set DefaultTasks \<and> wk_context w < length (rn_contexts r) \<and>
        (\<forall>p. wk_phase w = Runs p \<longrightarrow> safe catalog_ok (\<lambda>_. True) p)) \<and>
     (\<forall>c. rn_cancel r = Some c \<longrightarrow> c < length (rn_contexts r)) \<and>
     (rn_stopped r \<longrightarrow> live (rn_workers r) = 0)"

lemma live_update: "i < length ws \<Longrightarrow> live (ws[i := w]) = live ws + alive w - alive (ws ! i)"
  by (simp add: live_def map_update sum_list_upd)

lemma live_append [simp]: "live (xs @ ys) = live xs + live ys"
  by (simp add: live_def)

lemma live_new [simp]: "live (map (\<lambda>t. \<lparr>wk_task = t, wk_context = c, wk_phase = Waits\<rparr>) ts) = int (length ts)"
  by (induction ts) (simp_all add: live_def alive_def)

lemma live_nonneg: "0 \<le> live ws"
  by (induction ws) (simp_all add: live_def alive_def)

lemma live_zero: "live ws = 0 \<longleftrightarrow> (\<forall>w \<in> set ws. wk_phase w = Gone)"
proof (induction ws)
  case (Cons w ws)
  then show ?case using live_nonneg [of ws] by (auto simp: live_def alive_def)
qed (simp add: live_def)

lemma safe_map_prog: "safe I Q p \<Longrightarrow> safe I (\<lambda>_. True) (map_prog f p)"
proof (induction p rule: safe.induct)
  case (safe_Stmt h g)
  then show ?case by (auto intro!: safe.safe_Stmt simp: map_prod_def split_beta)
qed (simp add: safe_Done)

lemma safe_executeTask: "t \<in> set DefaultTasks \<Longrightarrow> safe catalog_ok (\<lambda>_. True) (executeTask leader t now)"
  by (auto simp: executeTask_def DefaultTasks_def split: option.splits bool.splits
      intro!: safe_Done safe_map_prog task_safe)

lemma set_phase_simps [simp]:
  "rn_wg (set_phase i p r) = rn_wg r" "rn_tasks (set_phase i p r) = rn_tasks r" "rn_contexts (set_phase i p r) = rn_contexts r"
  "rn_cancel (set_phase i p r) = rn_cancel r" "rn_stopped (set_phase i p r) = rn_stopped r" "rn_db (set_phase i p r) = rn_db r"
  "rn_workers (set_phase i p r) = (rn_workers r)[i := (rn_workers r ! i)\<lparr>wk_phase := p\<rparr>]"
  by (simp_all add: set_phase_def)

lemma runner_ok_phase:
  assumes "runner_ok r" "i < length (rn_workers r)" "wk_phase (rn_workers r ! i) \<noteq> Gone" "p \<noteq> Gone"
    "\<And>q. p = Runs q \<Longrightarrow> safe catalog_ok (\<lambda>_. True) q"
  shows "runner_ok (set_phase i p r)"
proof -
  have "rn_workers r ! i \<in> set (rn_workers r)" using assms(2) by simp
  moreover from this assms(1,3) have "\<not> rn_stopped r" by (auto simp: runner_ok_def live_zero)
  moreover have "live (rn_workers (set_phase i p r)) = live (rn_workers r)"
    using assms(2-4) by (simp add: live_update alive_def)
  ultimately show ?thesis using assms(1,5) unfolding runner_ok_def
    by (auto dest!: set_update_subset_insert [THEN subsetD])
qed

lemma runner_ok_step:
  assumes "rstep r s" "runner_ok r \<and> catalog_ok (rn_db r)"
  shows "runner_ok s \<and> catalog_ok (rn_db s)"
  using assms(1)
proof cases
  case starts
  with assms(2) show ?thesis by (auto simp: runner_ok_def StartRunner_def Let_def dest: less_SucI)
next
  case stops
  with assms(2) show ?thesis by (auto simp: runner_ok_def StopRunner_def split: option.splits)
next
  case returns
  with assms(2) show ?thesis by (auto simp: runner_ok_def stop_returns_def split: if_splits)
next
  case cancelled
  with assms(2) show ?thesis by (auto simp: runner_ok_def)
next
  case (ticks i leader now)
  then have "wk_task (rn_workers r ! i) \<in> set DefaultTasks" using assms(2) by (simp add: runner_ok_def)
  with ticks assms(2) show ?thesis by (auto intro!: runner_ok_phase safe_executeTask)
next
  case (works i p p' d')
  then have "safe catalog_ok (\<lambda>_. True) p" using assms(2) by (metis runner_ok_def nth_mem)
  from safe_pstep [OF works(4) this] assms(2) have d: "catalog_ok d'" "safe catalog_ok (\<lambda>_. True) p'" by simp_all
  have "runner_ok (r\<lparr>rn_db := d'\<rparr>)" using assms(2) by (simp add: runner_ok_def)
  with works d show ?thesis by (auto intro!: runner_ok_phase)
next
  case (ends i effs)
  have "runner_ok (r\<lparr>rn_registry := fold record_effect effs (rn_registry r)\<rparr>)" using assms(2) by (simp add: runner_ok_def)
  with ends assms(2) show ?thesis by (auto intro!: runner_ok_phase)
next
  case (leaves i)
  then have w: "rn_workers r ! i \<in> set (rn_workers r)" by simp
  with leaves assms(2) have "\<not> rn_stopped r" by (auto simp: runner_ok_def live_zero)
  with leaves w assms(2) show ?thesis
    by (auto simp: runner_ok_def live_update alive_def dest!: set_update_subset_insert [THEN subsetD])
qed

lemma runner_ok_reach:
  "rreach r s \<Longrightarrow> runner_ok r \<and> catalog_ok (rn_db r) \<Longrightarrow> runner_ok s \<and> catalog_ok (rn_db s)"
  by (induction rule: rreach.induct) (use runner_ok_step in blast)+

lemma runner_ok_new: "runner_ok (NewRunner d reg)"
  by (simp add: runner_ok_def NewRunner_def live_def)

section \<open>Stopping\<close>

lemma stopped_step:
  assumes "rstep r s" "\<forall>w \<in> set (rn_workers r). wk_phase w = Gone"
  shows "s = StartRunner r \<or> (rn_db s = rn_db r \<and> rn_registry s = rn_registry r \<and> rn_workers s = rn_workers r)"
  using assms(1)
proof cases
  case returns
  then show ?thesis by (auto simp: stop_returns_def split: if_splits)
qed (use assms(2) in \<open>auto simp: StopRunner_def\<close>)

text \<open>C31: stopping the background tasks.  Whatever the tickers, the election, the database and the callers of \<open>Start\<close> and
  \<open>Stop\<close> do, the wait group counts the goroutines that have not ended and the tasks keep the catalog consistent;
  once a \<open>Stop\<close> has returned, every goroutine has ended, no task is running and none will change the database
  or the metrics until the next \<open>Start\<close>.\<close>

theorem runner_stops:
  assumes "catalog_ok d" "rreach (NewRunner d reg) r"
  shows "catalog_ok (rn_db r) \<and> rn_wg r = int (length (filter (\<lambda>w. wk_phase w \<noteq> Gone) (rn_workers r))) \<and>
    (rn_stopped r \<longrightarrow> (\<forall>w \<in> set (rn_workers r). wk_phase w = Gone) \<and>
       (\<forall>s. rstep r s \<longrightarrow> s = StartRunner r \<or> (rn_db s = rn_db r \<and> rn_registry s = rn_registry r)))"
proof -
  have ok: "runner_ok r" "catalog_ok (rn_db r)"
    using runner_ok_reach [OF assms(2)] runner_ok_new assms(1) by (simp_all add: NewRunner_def)
  have "live ws = int (length (filter (\<lambda>w. wk_phase w \<noteq> Gone) ws))" for ws
    by (induction ws) (simp_all add: live_def alive_def)
  then have l: "rn_wg r = int (length (filter (\<lambda>w. wk_phase w \<noteq> Gone) (rn_workers r)))"
    using ok(1) by (simp add: runner_ok_def)
  have gone: "\<forall>w \<in> set (rn_workers r). wk_phase w = Gone" if "rn_stopped r"
    using that ok(1) by (simp add: runner_ok_def live_zero)
  with ok(2) l stopped_step [of r] show ?thesis by blast
qed

text \<open>
  A second \<open>Start\<close> overwrites \<open>r.cancel\<close>: the goroutines of the first are out of reach of \<open>Stop\<close>.
\<close>

definition first_lost :: "runner \<Rightarrow> bool" where
  "first_lost r \<longleftrightarrow>
     rn_workers r \<noteq> [] \<and> wk_context (hd (rn_workers r)) = 0 \<and> 2 \<le> length (rn_contexts r) \<and> \<not> rn_contexts r ! 0 \<and>
     rn_cancel r \<noteq> Some 0 \<and> (rn_parent r \<or> wk_phase (hd (rn_workers r)) \<noteq> Gone)"

lemma hd_update: "xs \<noteq> [] \<Longrightarrow> hd (xs[i := x]) = (if i = 0 then x else hd xs)"
  by (cases xs; cases i) auto

lemma first_lost_phase:
  assumes "first_lost r" "i < length (rn_workers r)" "p = Gone \<Longrightarrow> i = 0 \<Longrightarrow> rn_parent r"
  shows "first_lost (set_phase i p r)"
  using assms by (cases i) (auto simp: first_lost_def hd_update hd_conv_nth set_phase_def nth_list_update)

lemma first_lost_step:
  assumes "rstep r s" "first_lost r"
  shows "first_lost s"
  using assms(1)
proof cases
  case starts
  with assms(2) show ?thesis by (auto simp: first_lost_def StartRunner_def Let_def nth_append)
next
  case stops
  with assms(2) show ?thesis by (auto simp: first_lost_def StopRunner_def nth_list_update split: option.splits)
next
  case returns
  with assms(2) show ?thesis by (auto simp: first_lost_def stop_returns_def split: if_splits)
next
  case cancelled
  with assms(2) show ?thesis by (auto simp: first_lost_def)
next
  case (ticks i leader now)
  with assms(2) show ?thesis by (auto intro!: first_lost_phase)
next
  case (works i p p' d')
  have "first_lost (r\<lparr>rn_db := d'\<rparr>)" using assms(2) by (simp add: first_lost_def)
  with works show ?thesis by (auto intro!: first_lost_phase)
next
  case (ends i effs)
  have "first_lost (r\<lparr>rn_registry := fold record_effect effs (rn_registry r)\<rparr>)" using assms(2) by (simp add: first_lost_def)
  with ends show ?thesis by (auto intro!: first_lost_phase)
next
  case (leaves i)
  have "first_lost (r\<lparr>rn_wg := rn_wg r - 1\<rparr>)" using assms(2) by (simp add: first_lost_def)
  moreover have "rn_parent r" if "i = 0"
    using leaves assms(2) that by (auto simp: context_done_def first_lost_def hd_conv_nth)
  ultimately show ?thesis using leaves by (auto intro!: first_lost_phase)
qed

text \<open>Starting twice.  If \<open>Start\<close> is called a second time, no call of \<open>Stop\<close> ever returns, as long as the context given
  to the first \<open>Start\<close> lives: the goroutines of the first go on, and the wait group is never empty.\<close>

theorem start_twice_never_stops:
  assumes "catalog_ok d" "rreach (StartRunner (StartRunner (NewRunner d reg))) r" "\<not> rn_parent r"
  shows "stop_returns r = None \<and> \<not> rn_stopped r"
proof -
  let ?r0 = "StartRunner (StartRunner (NewRunner d reg))"
  have "first_lost ?r0"
    by (simp add: first_lost_def StartRunner_def NewRunner_def Let_def DefaultTasks_def)
  have "first_lost r" using assms(2) \<open>first_lost ?r0\<close> by (induction rule: rreach.induct) (use first_lost_step in blast)+
  then have "hd (rn_workers r) \<in> set (rn_workers r)" "wk_phase (hd (rn_workers r)) \<noteq> Gone"
    using assms(3) by (auto simp: first_lost_def)
  then have l: "live (rn_workers r) \<noteq> 0" by (auto simp: live_zero)
  have "rreach (NewRunner d reg) ?r0" by (rule rreach.more [OF rreach.more [OF rreach.start rstep.starts] rstep.starts])
  from runner_ok_reach [OF this] have "runner_ok ?r0 \<and> catalog_ok (rn_db ?r0)"
    using runner_ok_new assms(1) by (simp add: NewRunner_def)
  from runner_ok_reach [OF assms(2) this] l show ?thesis by (auto simp: runner_ok_def stop_returns_def)
qed

section \<open>Two runs\<close>

text \<open>The runner after its three goroutines have left: \<open>Stop\<close> is called right after \<open>Start\<close>.\<close>

lemma leave_all:
  assumes "rreach r s" "rn_workers s = map (\<lambda>t. \<lparr>wk_task = t, wk_context = c, wk_phase = Gone\<rparr>) ts @
      map (\<lambda>t. \<lparr>wk_task = t, wk_context = c, wk_phase = Waits\<rparr>) us" "rn_contexts s ! c"
  shows "\<exists>s'. rreach r s' \<and> rn_wg s' = rn_wg s - int (length us) \<and> rn_waiting s' = rn_waiting s"
  using assms
proof (induction us arbitrary: s ts)
  case (Cons u us)
  let ?s = "set_phase (length ts) Gone (s\<lparr>rn_wg := rn_wg s - 1\<rparr>)"
  have "rstep s ?s" by (rule rstep.leaves) (use Cons.prems in \<open>simp_all add: context_done_def nth_append\<close>)
  with Cons.prems(1) have "rreach r ?s" by (rule rreach.more)
  then have "\<exists>s'. rreach r s' \<and> rn_wg s' = rn_wg ?s - int (length us) \<and> rn_waiting s' = rn_waiting ?s"
    by (rule Cons.IH [where ts = "ts @ [u]"]) (use Cons.prems in \<open>simp_all add: set_phase_def nth_append list_update_append\<close>)
  then show ?case by (simp add: set_phase_def algebra_simps)
qed (use assms in auto)

theorem runner_stops_witness:
  "\<exists>r. rreach (NewRunner empty_db new_registry) r \<and> rn_stopped r \<and> rn_wg r = 0 \<and> catalog_ok (rn_db r)"
proof -
  let ?r1 = "StopRunner (StartRunner (NewRunner empty_db new_registry))"
  have "rreach (NewRunner empty_db new_registry) ?r1"
    by (rule rreach.more [OF rreach.more [OF rreach.start rstep.starts] rstep.stops])
  then have "\<exists>s'. rreach (NewRunner empty_db new_registry) s' \<and> rn_wg s' = rn_wg ?r1 - int (length DefaultTasks) \<and> rn_waiting s' = rn_waiting ?r1"
    by (rule leave_all [where ts = "[]" and c = 0]) (simp_all add: StopRunner_def StartRunner_def NewRunner_def Let_def)
  then obtain s where s: "rreach (NewRunner empty_db new_registry) s" "rn_wg s = 0" "rn_waiting s = 1"
    by (auto simp: StopRunner_def StartRunner_def NewRunner_def Let_def)
  let ?t = "s\<lparr>rn_waiting := 0, rn_stopped := True\<rparr>"
  have "stop_returns s = Some ?t" using s by (simp add: stop_returns_def)
  with s(1) have t: "rreach (NewRunner empty_db new_registry) ?t" by (blast intro: rreach.more rstep.returns)
  from runner_stops [OF catalog_ok_empty t] s(2) t show ?thesis by (intro exI [of _ ?t]) simp
qed

theorem start_twice_never_stops_witness:
  "stop_returns (StopRunner (StartRunner (StartRunner (NewRunner empty_db new_registry)))) = None"
proof -
  let ?r = "StartRunner (StartRunner (NewRunner empty_db new_registry))"
  have "rreach ?r (StopRunner ?r)" by (rule rreach.more [OF rreach.start rstep.stops])
  moreover have "\<not> rn_parent (StopRunner ?r)" by (simp add: StopRunner_def StartRunner_def NewRunner_def Let_def)
  ultimately show ?thesis using start_twice_never_stops [OF catalog_ok_empty] by blast
qed

end
