(* ===== verification/Config.thy ===== *)
theory Config
  imports Settings
begin

text \<open>
  \<open>internal/config/config.go\<close>: the structs of the configuration, the set-up of viper and \<open>Load\<close>.  A struct is a
  record, and \<open>config_of\<close> reads its fields under the keys that the \<open>mapstructure\<close> tags give them.  Viper is not part
  of the repository: \<open>viper\<close> is what the code gets from it, and \<open>documented\<close> what its documentation says of the
  values it finds.  Times are nanoseconds; a \<open>float64\<close> of the configuration is the ratio that was written.
\<close>

section \<open>The structs\<close>

record telemetry_config =
  te_enabled :: bool
  te_endpoint :: string
  te_rate :: "int \<times> int"
  te_insecure :: bool

record audit_config =
  ad_enabled :: bool
  ad_retention :: int
  ad_level :: string

record compat_config =
  co_polaris :: bool

record pool_config =
  po_initial :: int
  po_max :: int

record tls_config =
  tl_enabled :: bool
  tl_cert :: string
  tl_key :: string

record server_config =
  se_host :: string
  se_port :: int
  se_debug :: bool
  se_version :: string
  se_read_timeout :: int
  se_write_timeout :: int
  se_idle_timeout :: int
  se_tls :: tls_config

record s3_settings =
  ss_endpoint :: string
  ss_region :: string
  ss_access_key :: string
  ss_secret_key :: string
  ss_bucket :: string
  ss_path_style :: bool
  ss_role :: string
  ss_external :: string
  ss_session :: int

record gcs_settings =
  gs_project :: string
  gs_file :: string
  gs_bucket :: string
  gs_account :: string
  gs_lifetime :: int

record storage_settings =
  st_type :: string
  st_s3 :: s3_settings
  st_gcs :: gcs_settings
  st_local :: string
  st_warehouse :: string

record acl_settings =
  ac_enabled :: bool
  ac_default :: string

record oauth2_settings =
  oc_enabled :: bool
  oc_issuer :: string
  oc_client_id :: string
  oc_client_secret :: string

record auth_settings =
  as_enabled :: bool
  as_oauth2 :: oauth2_settings
  as_api_key :: bool
  as_acl :: acl_settings
  as_token_expiry :: int
  as_signing_key :: string

record catalog_settings =
  cs_prefix :: string
  cs_warehouse :: string
  cs_timeout :: int
  cs_interval :: int
  cs_max_retries :: int

record config =
  cf_server :: server_config
  cf_database :: database_config
  cf_storage :: storage_settings
  cf_auth :: auth_settings
  cf_audit :: audit_config
  cf_catalog :: catalog_settings
  cf_pool :: pool_config
  cf_compat :: compat_config
  cf_telemetry :: telemetry_config

section \<open>Fields and their keys\<close>

datatype kind = KStr | KBool | KInt | KDur | KFloat

fun has_kind :: "kind \<Rightarrow> setting \<Rightarrow> bool" where
  "has_kind KStr (SStr s) = True"
| "has_kind KBool (SBool b) = True"
| "has_kind KInt (SInt i) = True"
| "has_kind KDur (SDur i) = True"
| "has_kind KFloat (SRatio a b) = True"
| "has_kind t v = False"

text \<open>The keys of all fields, with the type of the field.\<close>

definition config_fields :: "(string \<times> kind) list" where
  "config_fields =
    [(''server.host'', KStr), (''server.port'', KInt), (''server.debug'', KBool), (''server.version'', KStr),
     (''server.read_timeout'', KDur), (''server.write_timeout'', KDur), (''server.idle_timeout'', KDur),
     (''server.tls.enabled'', KBool), (''server.tls.cert_file'', KStr), (''server.tls.key_file'', KStr),
     (''database.host'', KStr), (''database.port'', KInt), (''database.user'', KStr), (''database.password'', KStr),
     (''database.database'', KStr), (''database.ssl_mode'', KStr), (''database.max_open_conns'', KInt),
     (''database.max_idle_conns'', KInt), (''database.conn_max_lifetime'', KDur),
     (''database.conn_max_idle_time'', KDur), (''storage.type'', KStr), (''storage.s3.endpoint'', KStr),
     (''storage.s3.region'', KStr), (''storage.s3.access_key_id'', KStr), (''storage.s3.secret_access_key'', KStr),
     (''storage.s3.bucket'', KStr), (''storage.s3.use_path_style'', KBool), (''storage.s3.role_arn'', KStr),
     (''storage.s3.external_id'', KStr), (''storage.s3.session_duration'', KDur), (''storage.gcs.project'', KStr),
     (''storage.gcs.credentials_file'', KStr), (''storage.gcs.bucket'', KStr),
     (''storage.gcs.impersonate_service_account'', KStr), (''storage.gcs.token_lifetime'', KDur),
     (''storage.local.root_path'', KStr), (''storage.warehouse'', KStr), (''auth.enabled'', KBool),
     (''auth.oauth2.enabled'', KBool), (''auth.oauth2.issuer'', KStr), (''auth.oauth2.client_id'', KStr),
     (''auth.oauth2.client_secret'', KStr), (''auth.api_key.enabled'', KBool), (''auth.acl.enabled'', KBool),
     (''auth.acl.default_permission'', KStr), (''auth.token_expiry'', KDur), (''auth.signing_key'', KStr),
     (''audit.enabled'', KBool), (''audit.retention_days'', KInt), (''audit.log_level'', KStr),
     (''catalog.prefix'', KStr), (''catalog.default_warehouse'', KStr), (''catalog.lock_timeout'', KDur),
     (''catalog.lock_retry_interval'', KDur), (''catalog.max_lock_retries'', KInt),
     (''pool.buffer_initial_size'', KInt), (''pool.buffer_max_size'', KInt), (''compat.polaris_enabled'', KBool),
     (''telemetry.enabled'', KBool), (''telemetry.endpoint'', KStr), (''telemetry.sample_rate'', KFloat),
     (''telemetry.insecure'', KBool)]"

text \<open>A field is read from the settings; without a setting it keeps the zero value of its type.\<close>

definition str_at :: "(string \<Rightarrow> setting option) \<Rightarrow> string \<Rightarrow> string" where
  "str_at g k = (case g k of Some (SStr s) \<Rightarrow> s | _ \<Rightarrow> [])"

definition bool_at :: "(string \<Rightarrow> setting option) \<Rightarrow> string \<Rightarrow> bool" where
  "bool_at g k = (case g k of Some (SBool b) \<Rightarrow> b | _ \<Rightarrow> False)"

definition int_at :: "(string \<Rightarrow> setting option) \<Rightarrow> string \<Rightarrow> int" where
  "int_at g k = (case g k of Some (SInt i) \<Rightarrow> i | _ \<Rightarrow> 0)"

definition dur_at :: "(string \<Rightarrow> setting option) \<Rightarrow> string \<Rightarrow> int" where
  "dur_at g k = (case g k of Some (SDur i) \<Rightarrow> i | _ \<Rightarrow> 0)"

definition float_at :: "(string \<Rightarrow> setting option) \<Rightarrow> string \<Rightarrow> int \<times> int" where
  "float_at g k = (case g k of Some (SRatio a b) \<Rightarrow> (a, b) | _ \<Rightarrow> (0, 1))"

definition config_of :: "(string \<Rightarrow> setting option) \<Rightarrow> config" where
  "config_of g =
    \<lparr>cf_server = \<lparr>se_host = str_at g ''server.host'',
      se_port = int_at g ''server.port'',
      se_debug = bool_at g ''server.debug'',
      se_version = str_at g ''server.version'',
      se_read_timeout = dur_at g ''server.read_timeout'',
      se_write_timeout = dur_at g ''server.write_timeout'',
      se_idle_timeout = dur_at g ''server.idle_timeout'',
      se_tls = \<lparr>tl_enabled = bool_at g ''server.tls.enabled'',
        tl_cert = str_at g ''server.tls.cert_file'',
        tl_key = str_at g ''server.tls.key_file''\<rparr>\<rparr>,
    cf_database = \<lparr>dc_host = str_at g ''database.host'',
      dc_port = int_at g ''database.port'',
      dc_user = str_at g ''database.user'',
      dc_password = str_at g ''database.password'',
      dc_database = str_at g ''database.database'',
      dc_ssl = str_at g ''database.ssl_mode'',
      dc_max_open = int_at g ''database.max_open_conns'',
      dc_max_idle = int_at g ''database.max_idle_conns'',
      dc_lifetime = dur_at g ''database.conn_max_lifetime'',
      dc_idle_time = dur_at g ''database.conn_max_idle_time''\<rparr>,
    cf_storage = \<lparr>st_type = str_at g ''storage.type'',
      st_s3 = \<lparr>ss_endpoint = str_at g ''storage.s3.endpoint'',
        ss_region = str_at g ''storage.s3.region'',
        ss_access_key = str_at g ''storage.s3.access_key_id'',
        ss_secret_key = str_at g ''storage.s3.secret_access_key'',
        ss_bucket = str_at g ''storage.s3.bucket'',
        ss_path_style = bool_at g ''storage.s3.use_path_style'',
        ss_role = str_at g ''storage.s3.role_arn'',
        ss_external = str_at g ''storage.s3.external_id'',
        ss_session = dur_at g ''storage.s3.session_duration''\<rparr>,
      st_gcs = \<lparr>gs_project = str_at g ''storage.gcs.project'',
        gs_file = str_at g ''storage.gcs.credentials_file'',
        gs_bucket = str_at g ''storage.gcs.bucket'',
        gs_account = str_at g ''storage.gcs.impersonate_service_account'',
        gs_lifetime = dur_at g ''storage.gcs.token_lifetime''\<rparr>,
      st_local = str_at g ''storage.local.root_path'',
      st_warehouse = str_at g ''storage.warehouse''\<rparr>,
    cf_auth = \<lparr>as_enabled = bool_at g ''auth.enabled'',
      as_oauth2 = \<lparr>oc_enabled = bool_at g ''auth.oauth2.enabled'',
        oc_issuer = str_at g ''auth.oauth2.issuer'',
        oc_client_id = str_at g ''auth.oauth2.client_id'',
        oc_client_secret = str_at g ''auth.oauth2.client_secret''\<rparr>,
      as_api_key = bool_at g ''auth.api_key.enabled'',
      as_acl = \<lparr>ac_enabled = bool_at g ''auth.acl.enabled'',
        ac_default = str_at g ''auth.acl.default_permission''\<rparr>,
      as_token_expiry = dur_at g ''auth.token_expiry'',
      as_signing_key = str_at g ''auth.signing_key''\<rparr>,
    cf_audit = \<lparr>ad_enabled = bool_at g ''audit.enabled'',
      ad_retention = int_at g ''audit.retention_days'',
      ad_level = str_at g ''audit.log_level''\<rparr>,
    cf_catalog = \<lparr>cs_prefix = str_at g ''catalog.prefix'',
      cs_warehouse = str_at g ''catalog.default_warehouse'',
      cs_timeout = dur_at g ''catalog.lock_timeout'',
      cs_interval = dur_at g ''catalog.lock_retry_interval'',
      cs_max_retries = int_at g ''catalog.max_lock_retries''\<rparr>,
    cf_pool = \<lparr>po_initial = int_at g ''pool.buffer_initial_size'',
      po_max = int_at g ''pool.buffer_max_size''\<rparr>,
    cf_compat = \<lparr>co_polaris = bool_at g ''compat.polaris_enabled''\<rparr>,
    cf_telemetry = \<lparr>te_enabled = bool_at g ''telemetry.enabled'',
      te_endpoint = str_at g ''telemetry.endpoint'',
      te_rate = float_at g ''telemetry.sample_rate'',
      te_insecure = bool_at g ''telemetry.insecure''\<rparr>\<rparr>"

section \<open>Load\<close>

text \<open>What \<open>Load\<close> tells viper before it reads anything.\<close>

record viper_setup =
  vs_defaults :: "(string \<times> setting) list"
  vs_name :: string
  vs_type :: string
  vs_paths :: "string list"
  vs_prefix :: string
  vs_replacer :: "(char \<times> char) list"
  vs_automatic :: bool
  vs_bound :: "(string \<times> string) list"

definition bindings :: "(string \<times> string) list" where
  "bindings =
     [(''auth.enabled'', ''ICEBERG_AUTH_ENABLED''),
      (''auth.oauth2.enabled'', ''ICEBERG_AUTH_OAUTH2_ENABLED''),
      (''auth.oauth2.client_id'', ''ICEBERG_AUTH_OAUTH2_CLIENT_ID''),
      (''auth.oauth2.client_secret'', ''ICEBERG_AUTH_OAUTH2_CLIENT_SECRET''),
      (''auth.token_expiry'', ''ICEBERG_AUTH_TOKEN_EXPIRY''),
      (''auth.signing_key'', ''ICEBERG_AUTH_SIGNING_KEY''),
      (''compat.polaris_enabled'', ''ICEBERG_COMPAT_POLARIS_ENABLED'')]"

definition load_setup :: viper_setup where
  "load_setup =
     \<lparr>vs_defaults = setDefaults, vs_name = ''config'', vs_type = ''yaml'',
      vs_paths = [''.'', ''/etc/iceberg-catalog/'', ''$HOME/.iceberg-catalog/''],
      vs_prefix = ''ICEBERG'', vs_replacer = [(CHR ''.'', CHR ''_'')], vs_automatic = True,
      vs_bound = bindings\<rparr>"

text \<open>
  What viper does: \<open>ReadInConfig\<close>, the settings \<open>Unmarshal\<close> finds, the conversion of a setting to the type of a
  field (\<open>None\<close> when that fails), and the text of the error for the fields that failed.
\<close>

datatype read_result = ReadOK | ReadNotFound | ReadFailed string

record viper =
  vi_read :: "viper_setup \<Rightarrow> read_result"
  vi_settings :: "viper_setup \<Rightarrow> string \<Rightarrow> setting option"
  vi_convert :: "kind \<Rightarrow> setting \<Rightarrow> setting option"
  vi_report :: "string list \<Rightarrow> string"

definition converted :: "viper \<Rightarrow> viper_setup \<Rightarrow> string \<Rightarrow> setting option" where
  "converted v setup k =
     (case map_of config_fields k of
        None \<Rightarrow> None
      | Some t \<Rightarrow> Option.bind (vi_settings v setup k) (vi_convert v t))"

definition unconvertible :: "viper \<Rightarrow> viper_setup \<Rightarrow> string list" where
  "unconvertible v setup =
     filter (\<lambda>k. vi_settings v setup k \<noteq> None \<and> converted v setup k = None) (map fst config_fields)"

definition Load :: "viper \<Rightarrow> string + config" where
  "Load v =
     (case vi_read v load_setup of
        ReadFailed e \<Rightarrow> Inl (''reading config: '' @ e)
      | _ \<Rightarrow>
        (case unconvertible v load_setup of
           [] \<Rightarrow> Inr (config_of (converted v load_setup))
         | bad \<Rightarrow> Inl (''unmarshaling config: '' @ vi_report v bad)))"

text \<open>The records that handlers and middleware read.\<close>

definition auth_of :: "config \<Rightarrow> auth_config" where
  "auth_of c =
     (let a = cf_auth c in
      \<lparr>au_enabled = as_enabled a, au_oauth2 = oc_enabled (as_oauth2 a), au_client_id = oc_client_id (as_oauth2 a),
       au_client_secret = oc_client_secret (as_oauth2 a), au_api_key = as_api_key a, au_acl = ac_enabled (as_acl a),
       au_default = ac_default (as_acl a), au_token_expiry = as_token_expiry a, au_polaris = co_polaris (cf_compat c)\<rparr>)"

definition storage_of :: "config \<Rightarrow> storage_config" where
  "storage_of c =
     (let s = cf_storage c; a = st_s3 s; g = st_gcs s in
      \<lparr>sc_type = st_type s, sc_warehouse = st_warehouse s, s3_endpoint = ss_endpoint a, s3_region = ss_region a,
       s3_access_key = ss_access_key a, s3_secret_key = ss_secret_key a, s3_path_style = ss_path_style a,
       s3_role = ss_role a, s3_external = ss_external a, s3_session = ss_session a, gcs_project = gs_project g,
       gcs_file = gs_file g, gcs_account = gs_account g, gcs_lifetime = gs_lifetime g\<rparr>)"

definition catalog_of :: "config \<Rightarrow> catalog_config" where
  "catalog_of c =
     \<lparr>cc_warehouse = st_warehouse (cf_storage c),
      cc_lock = \<lparr>lc_timeout = cs_timeout (cf_catalog c), lc_interval = cs_interval (cf_catalog c),
        lc_max_retries = cs_max_retries (cf_catalog c)\<rparr>\<rparr>"

section \<open>What the environment can set\<close>

text \<open>
  Viper's documentation: a key is looked up under the environment variable it is bound to and, with
  \<open>AutomaticEnv\<close>, under its own name in upper case behind the prefix; an empty variable counts as not set.
  \<open>Unmarshal\<close> goes over the keys viper knows, which have a default, a binding or a place in the file.
\<close>

definition env_name :: "viper_setup \<Rightarrow> string \<Rightarrow> string" where
  "env_name setup k =
     vs_prefix setup @ ''_'' @ map (\<lambda>c. upper (case map_of (vs_replacer setup) c of Some c' \<Rightarrow> c' | None \<Rightarrow> c)) k"

definition env_names :: "viper_setup \<Rightarrow> string \<Rightarrow> string list" where
  "env_names setup k =
     (if vs_automatic setup then [env_name setup k] else []) @
     (case map_of (vs_bound setup) k of Some n \<Rightarrow> [n] | None \<Rightarrow> [])"

definition set_in :: "(string \<Rightarrow> string option) \<Rightarrow> string \<Rightarrow> bool" where
  "set_in env n = (case env n of Some s \<Rightarrow> s \<noteq> [] | None \<Rightarrow> False)"

definition known_keys :: "viper_setup \<Rightarrow> string list" where
  "known_keys setup = map fst (vs_defaults setup) @ map fst (vs_bound setup)"

definition unknown_keys :: "string list" where
  "unknown_keys = filter (\<lambda>k. k \<notin> set (known_keys load_setup)) (map fst config_fields)"

text \<open>All variables that are looked up for a known key.\<close>

definition known_variables :: "string list" where
  "known_variables = concat (map (env_names load_setup) (known_keys load_setup))"

text \<open>The value of a key: that of the first of its variables that is set, then that of the file, then the default.\<close>

definition looked_up ::
    "viper_setup \<Rightarrow> (string \<Rightarrow> string option) \<Rightarrow> (string \<Rightarrow> setting option) \<Rightarrow> string \<Rightarrow> setting option" where
  "looked_up setup env file k =
     (if k \<notin> set (known_keys setup) \<and> file k = None then None
      else (case List.find (set_in env) (env_names setup k) of
        Some n \<Rightarrow> map_option SStr (env n)
      | None \<Rightarrow> (case file k of Some s \<Rightarrow> Some s | None \<Rightarrow> map_of (vs_defaults setup) k)))"

definition documented :: "viper \<Rightarrow> viper_setup \<Rightarrow> (string \<Rightarrow> string option) \<Rightarrow> (string \<Rightarrow> setting option) \<Rightarrow> bool" where
  "documented v setup env file \<longleftrightarrow>
     vi_settings v setup = looked_up setup env file \<and> (\<forall>t s. has_kind t s \<longrightarrow> vi_convert v t s = Some s)"

definition default_config :: config where
  "default_config =
    \<lparr>cf_server = \<lparr>se_host = ''0.0.0.0'',
       se_port = 8181,
       se_debug = False,
       se_version = ''0.1.0'',
       se_read_timeout = (30 * second),
       se_write_timeout = (30 * second),
       se_idle_timeout = (120 * second),
       se_tls = \<lparr>tl_enabled = False, tl_cert = '''', tl_key = ''''\<rparr>\<rparr>,
     cf_database = \<lparr>dc_host = ''localhost'', dc_port = 5432, dc_user = ''iceberg'', dc_password = ''iceberg'',
       dc_database = ''iceberg_catalog'', dc_ssl = ''disable'', dc_max_open = 25, dc_max_idle = 5,
       dc_lifetime = (5 * 60 * second), dc_idle_time = (5 * 60 * second)\<rparr>,
     cf_storage = \<lparr>st_type = ''local'',
       st_s3 = \<lparr>ss_endpoint = '''', ss_region = ''us-east-1'', ss_access_key = '''', ss_secret_key = '''',
         ss_bucket = '''', ss_path_style = False, ss_role = '''', ss_external = '''',
         ss_session = (3600 * second)\<rparr>,
       st_gcs = \<lparr>gs_project = '''', gs_file = '''', gs_bucket = '''', gs_account = '''',
         gs_lifetime = (3600 * second)\<rparr>,
       st_local = ''/tmp/iceberg/data'',
       st_warehouse = ''/tmp/iceberg/warehouse''\<rparr>,
     cf_auth = \<lparr>as_enabled = False,
       as_oauth2 = \<lparr>oc_enabled = False, oc_issuer = '''', oc_client_id = '''', oc_client_secret = ''''\<rparr>,
       as_api_key = False,
       as_acl = \<lparr>ac_enabled = False, ac_default = ''none''\<rparr>,
       as_token_expiry = (3600 * second),
       as_signing_key = ''''\<rparr>,
     cf_audit = \<lparr>ad_enabled = False, ad_retention = 90, ad_level = ''all''\<rparr>,
     cf_catalog = \<lparr>cs_prefix = '''', cs_warehouse = '''', cs_timeout = (30 * second), cs_interval = 100000000,
       cs_max_retries = 100\<rparr>,
     cf_pool = \<lparr>po_initial = 4096, po_max = 65536\<rparr>,
     cf_compat = \<lparr>co_polaris = False\<rparr>,
     cf_telemetry = \<lparr>te_enabled = False, te_endpoint = ''localhost:4318'', te_rate = (1, 10),
       te_insecure = True\<rparr>\<rparr>"

section \<open>The configuration without a file\<close>

lemma config_of_defaults: "config_of (map_of setDefaults) = default_config"
  by code_simp

lemma default_kinds:
  "list_all (\<lambda>(k, t). case map_of setDefaults k of None \<Rightarrow> True | Some s \<Rightarrow> has_kind t s) config_fields"
  by code_simp

lemma config_of_cong:
  assumes "list_all (\<lambda>(k, t). g k = h k) config_fields"
  shows "config_of g = config_of h"
  using assms unfolding config_of_def str_at_def bool_at_def int_at_def dur_at_def float_at_def config_fields_def
  by (simp only: list.pred_inject prod.case simp_thms)

text \<open>The fields that no environment variable can set without a file.\<close>

lemma unknown_keys_are:
  "unknown_keys =
     [''server.tls.cert_file'', ''server.tls.key_file'', ''storage.s3.endpoint'', ''storage.s3.access_key_id'',
      ''storage.s3.secret_access_key'', ''storage.s3.bucket'', ''storage.s3.role_arn'', ''storage.s3.external_id'',
      ''storage.gcs.project'', ''storage.gcs.credentials_file'', ''storage.gcs.bucket'',
      ''storage.gcs.impersonate_service_account'', ''auth.oauth2.issuer'', ''catalog.default_warehouse'']"
  by code_simp

lemma distinct_fields: "distinct (map fst config_fields)"
  by code_simp

lemma upper_chars:
  "upper CHR ''a'' = CHR ''A''" "upper CHR ''b'' = CHR ''B''" "upper CHR ''c'' = CHR ''C''"
  "upper CHR ''d'' = CHR ''D''" "upper CHR ''e'' = CHR ''E''" "upper CHR ''f'' = CHR ''F''"
  "upper CHR ''g'' = CHR ''G''" "upper CHR ''h'' = CHR ''H''" "upper CHR ''i'' = CHR ''I''"
  "upper CHR ''j'' = CHR ''J''" "upper CHR ''k'' = CHR ''K''" "upper CHR ''l'' = CHR ''L''"
  "upper CHR ''m'' = CHR ''M''" "upper CHR ''n'' = CHR ''N''" "upper CHR ''o'' = CHR ''O''"
  "upper CHR ''p'' = CHR ''P''" "upper CHR ''q'' = CHR ''Q''" "upper CHR ''r'' = CHR ''R''"
  "upper CHR ''s'' = CHR ''S''" "upper CHR ''t'' = CHR ''T''" "upper CHR ''u'' = CHR ''U''"
  "upper CHR ''v'' = CHR ''V''" "upper CHR ''w'' = CHR ''W''" "upper CHR ''x'' = CHR ''X''"
  "upper CHR ''y'' = CHR ''Y''" "upper CHR ''z'' = CHR ''Z''"
  "upper CHR ''_'' = CHR ''_''" "upper CHR ''2'' = CHR ''2''" "upper CHR ''3'' = CHR ''3''"
  by code_simp+

lemma unknown_names:
  "map (env_name load_setup) unknown_keys =
     [''ICEBERG_SERVER_TLS_CERT_FILE'', ''ICEBERG_SERVER_TLS_KEY_FILE'', ''ICEBERG_STORAGE_S3_ENDPOINT'',
      ''ICEBERG_STORAGE_S3_ACCESS_KEY_ID'', ''ICEBERG_STORAGE_S3_SECRET_ACCESS_KEY'', ''ICEBERG_STORAGE_S3_BUCKET'',
      ''ICEBERG_STORAGE_S3_ROLE_ARN'', ''ICEBERG_STORAGE_S3_EXTERNAL_ID'', ''ICEBERG_STORAGE_GCS_PROJECT'',
      ''ICEBERG_STORAGE_GCS_CREDENTIALS_FILE'', ''ICEBERG_STORAGE_GCS_BUCKET'',
      ''ICEBERG_STORAGE_GCS_IMPERSONATE_SERVICE_ACCOUNT'', ''ICEBERG_AUTH_OAUTH2_ISSUER'',
      ''ICEBERG_CATALOG_DEFAULT_WAREHOUSE'']"
  by (simp add: unknown_keys_are env_name_def load_setup_def upper_chars)

text \<open>None of these is a variable of a known key.\<close>

lemma unknown_names_free:
  "list_all (\<lambda>k. list_all (\<lambda>n. n \<notin> set (map (env_name load_setup) unknown_keys)) (env_names load_setup k))
     (known_keys load_setup)"
  unfolding unknown_names
  by (simp add: known_keys_def env_names_def env_name_def load_setup_def bindings_def setDefaults_def upper_chars)

lemma unknown_disjoint: "set (map (env_name load_setup) unknown_keys) \<inter> set known_variables = {}"
  using unknown_names_free unfolding known_variables_def list_all_iff set_concat set_map by blast

lemma known_variable: "k \<in> set (known_keys load_setup) \<Longrightarrow> n \<in> set (env_names load_setup k) \<Longrightarrow> n \<in> set known_variables"
  by (auto simp: known_variables_def)

lemma settings_default:
  assumes "documented v load_setup env (\<lambda>k. None)" "\<forall>n \<in> set known_variables. \<not> set_in env n"
  shows "vi_settings v load_setup k = map_of setDefaults k"
proof (cases "k \<in> set (known_keys load_setup)")
  case True
  then have "List.find (set_in env) (env_names load_setup k) = None"
    using assms(2) known_variable by (auto simp: find_None_iff)
  with True assms(1) show ?thesis by (simp add: documented_def looked_up_def load_setup_def)
next
  case False
  then have "map_of setDefaults k = None" by (auto simp: known_keys_def load_setup_def map_of_eq_None_iff)
  with False assms(1) show ?thesis by (simp add: documented_def looked_up_def)
qed

lemma converted_default:
  assumes "documented v load_setup env (\<lambda>k. None)" "\<forall>n \<in> set known_variables. \<not> set_in env n"
    "(k, t) \<in> set config_fields"
  shows "converted v load_setup k = map_of setDefaults k"
proof -
  from assms(3) have "map_of config_fields k = Some t" by (rule map_of_is_SomeI [OF distinct_fields])
  moreover have "has_kind t s" if "map_of setDefaults k = Some s" for s
    using bspec [OF default_kinds [unfolded list_all_iff] assms(3)] that by simp
  ultimately show ?thesis
    using settings_default [OF assms(1,2)] assms(1)
    by (cases "map_of setDefaults k") (simp_all add: converted_def documented_def)
qed

lemma default_loaded:
  assumes "documented v load_setup env (\<lambda>k. None)" "vi_read v load_setup = ReadNotFound"
    "\<forall>n \<in> set known_variables. \<not> set_in env n"
  shows "Load v = Inr default_config"
proof -
  note c = converted_default [OF assms(1,3)]
  have "unconvertible v load_setup = []"
    using c settings_default [OF assms(1,3)] by (auto simp: unconvertible_def filter_empty_conv)
  moreover have "config_of (converted v load_setup) = default_config"
    unfolding config_of_defaults [symmetric] by (rule config_of_cong) (use c in \<open>auto simp: list_all_iff\<close>)
  ultimately show ?thesis by (simp add: Load_def assms(2))
qed

text \<open>Only the variables of known keys are looked at.\<close>

lemma looked_up_cong:
  assumes "\<forall>n \<in> set known_variables. env' n = env n"
  shows "looked_up load_setup env' (\<lambda>k. None) = looked_up load_setup env (\<lambda>k. None)"
proof
  fix k
  show "looked_up load_setup env' (\<lambda>k. None) k = looked_up load_setup env (\<lambda>k. None) k"
  proof (cases "k \<in> set (known_keys load_setup)")
    case True
    then have e: "env' n = env n" if "n \<in> set (env_names load_setup k)" for n using that assms known_variable by blast
    then have f: "List.find (set_in env') (env_names load_setup k) = List.find (set_in env) (env_names load_setup k)"
      by (intro find_cong) (simp_all add: set_in_def)
    have "env' n = env n" if "List.find (set_in env) (env_names load_setup k) = Some n" for n
      using that e by (auto simp: find_Some_iff)
    with f show ?thesis by (auto simp: looked_up_def split: option.split)
  qed (simp add: looked_up_def)
qed

lemma Load_cong:
  assumes "vi_read v' load_setup = vi_read v load_setup" "vi_settings v' load_setup = vi_settings v load_setup"
    "vi_convert v' = vi_convert v" "vi_report v' = vi_report v"
  shows "Load v' = Load v"
proof -
  have c: "converted v' load_setup = converted v load_setup" unfolding converted_def assms ..
  have u: "unconvertible v' load_setup = unconvertible v load_setup" unfolding unconvertible_def assms c ..
  show ?thesis unfolding Load_def assms c u ..
qed

text \<open>A text field whose variable is set.\<close>

lemma converted_text:
  assumes "documented v load_setup env (\<lambda>k. None)" "set_in env n" "map_of config_fields k = Some KStr"
    "k \<in> set (known_keys load_setup)" "env_names load_setup k = [n] \<or> env_names load_setup k = [n, n]"
  shows "str_at (converted v load_setup) k = the (env n)"
proof -
  have "List.find (set_in env) (env_names load_setup k) = Some n" using assms(2,5) by auto
  moreover obtain s where "env n = Some s" using assms(2) by (auto simp: set_in_def split: option.splits)
  ultimately show ?thesis
    using assms(1,3,4) by (simp add: str_at_def converted_def documented_def looked_up_def)
qed

lemma text_keys:
  "map_of config_fields ''database.host'' = Some KStr" "''database.host'' \<in> set (known_keys load_setup)"
  "env_names load_setup ''database.host'' = [''ICEBERG_DATABASE_HOST'']"
  "map_of config_fields ''auth.oauth2.client_id'' = Some KStr" "''auth.oauth2.client_id'' \<in> set (known_keys load_setup)"
  "env_names load_setup ''auth.oauth2.client_id'' = [''ICEBERG_AUTH_OAUTH2_CLIENT_ID'', ''ICEBERG_AUTH_OAUTH2_CLIENT_ID'']"
  by (simp_all add: config_fields_def known_keys_def env_names_def env_name_def load_setup_def setDefaults_def bindings_def
      upper_chars)

lemma loaded_text:
  assumes "documented v load_setup env (\<lambda>k. None)" "Load v = Inr c"
  shows "set_in env ''ICEBERG_DATABASE_HOST'' \<longrightarrow> dc_host (cf_database c) = the (env ''ICEBERG_DATABASE_HOST'')"
    "set_in env ''ICEBERG_AUTH_OAUTH2_CLIENT_ID'' \<longrightarrow>
       oc_client_id (as_oauth2 (cf_auth c)) = the (env ''ICEBERG_AUTH_OAUTH2_CLIENT_ID'')"
proof -
  have c: "c = config_of (converted v load_setup)"
    using assms(2) by (auto simp: Load_def split: read_result.splits list.splits)
  have "dc_host (cf_database c) = str_at (converted v load_setup) ''database.host''"
    "oc_client_id (as_oauth2 (cf_auth c)) = str_at (converted v load_setup) ''auth.oauth2.client_id''"
    unfolding c by (simp_all only: config_of_def config.simps database_config.simps auth_settings.simps oauth2_settings.simps)
  then show "set_in env ''ICEBERG_DATABASE_HOST'' \<longrightarrow> dc_host (cf_database c) = the (env ''ICEBERG_DATABASE_HOST'')"
    "set_in env ''ICEBERG_AUTH_OAUTH2_CLIENT_ID'' \<longrightarrow>
       oc_client_id (as_oauth2 (cf_auth c)) = the (env ''ICEBERG_AUTH_OAUTH2_CLIENT_ID'')"
    using converted_text [OF assms(1) _ text_keys(1,2)] converted_text [OF assms(1) _ text_keys(4,5)] text_keys(3,6)
    by (simp_all only: simp_thms) blast+
qed


text \<open>The environment of a container: variables that are none of the program's, and those of \<open>docker-compose.yml\<close> for S3.\<close>

definition sample_vars :: "(string \<times> string) list" where
  "sample_vars =
     [(''PATH'', ''/usr/bin''), (''HOME'', ''/root''),
      (''ICEBERG_STORAGE_S3_ENDPOINT'', ''http://minio:9000''), (''ICEBERG_STORAGE_S3_ACCESS_KEY_ID'', ''minioadmin''),
      (''ICEBERG_STORAGE_S3_SECRET_ACCESS_KEY'', ''minioadmin''), (''ICEBERG_STORAGE_S3_BUCKET'', ''warehouse'')]"

definition sample_viper :: "(string \<Rightarrow> string option) \<Rightarrow> viper" where
  "sample_viper env =
     \<lparr>vi_read = (\<lambda>setup. ReadNotFound), vi_settings = (\<lambda>setup. looked_up setup env (\<lambda>k. None)),
      vi_convert = (\<lambda>t s. if has_kind t s then Some s else None), vi_report = concat\<rparr>"

lemma sample_viper_documented: "documented (sample_viper env) setup env (\<lambda>k. None)"
  by (simp add: documented_def sample_viper_def)

lemma known_prefix:
  assumes "n \<in> set known_variables"
  shows "take 8 n = ''ICEBERG_''"
proof -
  have b: "list_all (\<lambda>(k, n). take 8 n = ''ICEBERG_'') bindings" by (simp add: bindings_def)
  from assms obtain k where "n \<in> set (env_names load_setup k)" by (auto simp only: known_variables_def set_concat set_map)
  then consider "n = env_name load_setup k" | "map_of bindings k = Some n"
    by (auto simp: env_names_def load_setup_def split: option.splits)
  then show ?thesis
  proof cases
    case 1
    then show ?thesis by (simp add: env_name_def load_setup_def)
  next
    case 2
    then have "(k, n) \<in> set bindings" by (rule map_of_SomeD)
    with b show ?thesis unfolding list_all_iff by blast
  qed
qed

lemma sample_vars_unknown:
  "list_all (\<lambda>(n, v). take 8 n \<noteq> ''ICEBERG_'' \<or> n \<in> set (map (env_name load_setup) unknown_keys)) sample_vars"
  unfolding unknown_names sample_vars_def by simp

lemma sample_vars_unset: "n \<in> set known_variables \<Longrightarrow> map_of sample_vars n = None"
proof (rule ccontr)
  assume n: "n \<in> set known_variables" and "map_of sample_vars n \<noteq> None"
  then obtain v where "(n, v) \<in> set sample_vars" by (auto dest: map_of_SomeD)
  then have "take 8 n \<noteq> ''ICEBERG_'' \<or> n \<in> set (map (env_name load_setup) unknown_keys)"
    using sample_vars_unknown unfolding list_all_iff by blast
  with n show False using known_prefix [OF n] unknown_disjoint by blast
qed


end
