(* ===== verification/Startup.thy ===== *)
theory Startup
  imports Config
begin

text \<open>
  The life of the process: \<open>cmd/iceberg-catalog/main.go\<close>, \<open>internal/db/postgres.go\<close>, \<open>NewServer\<close>, \<open>Start\<close> and
  \<open>Shutdown\<close> of \<open>internal/api/server.go\<close>, and \<open>internal/telemetry/otel.go\<close>.  What the code does to the outside is a
  list of actions.  \<open>libs\<close> holds the answers of what is not in the repository: viper, pgx, golang-migrate.  The
  start-up is a function (\<open>boot\<close>); from then on the main goroutine and the one that listens are two threads of a
  step relation.
\<close>

section \<open>The database\<close>

record pgx_config =
  px_dsn :: string
  px_max_conns :: int
  px_min_conns :: int
  px_lifetime :: int
  px_idle_time :: int

datatype action =
    OpenPool pgx_config | ClosePool
  | OpenMigrator string | MigrateUp | CloseMigrator
  | Listen string | ListenTLS string string string
  | CloseEvents | ShutdownApp int

datatype migrate_error = ErrNoChange | ErrNilVersion | OtherMigrateError string

record libs =
  lb_viper :: viper
  lb_parse :: "string \<Rightarrow> string + pgx_config"
  lb_pool :: "pgx_config \<Rightarrow> string option"
  lb_ping :: "string option"
  lb_source :: "string option"
  lb_migrator :: "string \<Rightarrow> string option"
  lb_up :: "migrate_error option"
  lb_version :: "migrate_error option"
  lb_text :: "migrate_error \<Rightarrow> string"

text \<open>Go's conversion \<open>int32(x)\<close> keeps the low 32 bits.\<close>

definition int32 :: "int \<Rightarrow> int" where
  "int32 i = signed_take_bit 31 i"

definition pool_config_of :: "database_config \<Rightarrow> pgx_config \<Rightarrow> pgx_config" where
  "pool_config_of cfg p =
     p\<lparr>px_max_conns := int32 (dc_max_open cfg), px_min_conns := int32 (dc_max_idle cfg),
       px_lifetime := dc_lifetime cfg, px_idle_time := dc_idle_time cfg\<rparr>"

text \<open>The error or nothing, and what was done.\<close>

definition New :: "libs \<Rightarrow> database_config \<Rightarrow> string option \<times> action list" where
  "New lb cfg =
     (case lb_parse lb (DSN cfg) of
        Inl e \<Rightarrow> (Some (''parsing database config: '' @ e), [])
      | Inr parsed \<Rightarrow>
          (let p = pool_config_of cfg parsed in
           case lb_pool lb p of
             Some e \<Rightarrow> (Some (''creating connection pool: '' @ e), [])
           | None \<Rightarrow>
               (case lb_ping lb of
                  Some e \<Rightarrow> (Some (''pinging database: '' @ e), [OpenPool p, ClosePool])
                | None \<Rightarrow> (None, [OpenPool p]))))"

definition migrate_url :: "database_config \<Rightarrow> string" where
  "migrate_url c =
     ''postgres://'' @ dc_user c @ '':'' @ dc_password c @ ''@'' @ dc_host c @ '':'' @ show_int (dc_port c) @
     ''/'' @ dc_database c @ ''?sslmode='' @ dc_ssl c"

definition Migrate :: "libs \<Rightarrow> database_config \<Rightarrow> string option \<times> action list" where
  "Migrate lb cfg =
     (case lb_source lb of
        Some e \<Rightarrow> (Some (''creating migration source: '' @ e), [])
      | None \<Rightarrow>
          (let dsn = migrate_url cfg in
           case lb_migrator lb dsn of
             Some e \<Rightarrow> (Some (''creating migrator: '' @ e), [])
           | None \<Rightarrow>
               (let t = [OpenMigrator dsn, MigrateUp, CloseMigrator] in
                if lb_up lb \<noteq> None \<and> lb_up lb \<noteq> Some ErrNoChange
                then (Some (''running migrations: '' @ lb_text lb (the (lb_up lb))), t)
                else if lb_version lb \<noteq> None \<and> lb_version lb \<noteq> Some ErrNilVersion
                then (Some (''getting migration version: '' @ lb_text lb (the (lb_version lb))), t)
                else (None, t))))"

section \<open>The server\<close>

record fiber_config =
  fb_app :: string
  fb_header :: string
  fb_read_timeout :: int
  fb_write_timeout :: int
  fb_idle_timeout :: int
  fb_strict :: bool

record server =
  sr_fiber :: fiber_config
  sr_config :: config
  sr_audit :: bool

definition NewServer :: "config \<Rightarrow> server" where
  "NewServer cfg =
     \<lparr>sr_fiber = \<lparr>fb_app = ''Iceberg REST Catalog'', fb_header = ''iceberg-catalog'',
        fb_read_timeout = se_read_timeout (cf_server cfg), fb_write_timeout = se_write_timeout (cf_server cfg),
        fb_idle_timeout = se_idle_timeout (cf_server cfg), fb_strict = False\<rparr>,
      sr_config = cfg, sr_audit = ad_enabled (cf_audit cfg)\<rparr>"

definition Start :: "server \<Rightarrow> action" where
  "Start s =
     (let c = cf_server (sr_config s); addr = se_host c @ '':'' @ show_int (se_port c) in
      if tl_enabled (se_tls c) then ListenTLS addr (tl_cert (se_tls c)) (tl_key (se_tls c)) else Listen addr)"

definition Shutdown :: "action list" where
  "Shutdown = [CloseEvents, ShutdownApp (30 * second)]"

section \<open>The process\<close>

text \<open>\<open>run\<close> up to the start of the listening goroutine; a deferred \<open>Close\<close> follows an error of \<open>Migrate\<close>.\<close>

definition boot :: "libs \<Rightarrow> (string + server) \<times> action list" where
  "boot lb =
     (case Load (lb_viper lb) of
        Inl e \<Rightarrow> (Inl e, [])
      | Inr cfg \<Rightarrow>
          (case New lb (cf_database cfg) of
             (Some e, t) \<Rightarrow> (Inl e, t)
           | (None, t) \<Rightarrow>
               (case Migrate lb (cf_database cfg) of
                  (Some e, u) \<Rightarrow> (Inl e, t @ u @ [ClosePool])
                | (None, u) \<Rightarrow> (Inr (NewServer cfg), t @ u))))"

datatype main_phase = Waiting | EventsClosed | AppDown | Exited int

datatype serve_phase = NotStarted | Serving | Ended

record process =
  pr_main :: main_phase
  pr_serve :: serve_phase
  pr_done :: bool
  pr_log :: "action list"

definition begin_main :: "libs \<Rightarrow> process" where
  "begin_main lb =
     (case boot lb of
        (Inl e, t) \<Rightarrow> \<lparr>pr_main = Exited 1, pr_serve = NotStarted, pr_done = False, pr_log = t\<rparr>
      | (Inr s, t) \<Rightarrow> \<lparr>pr_main = Waiting, pr_serve = NotStarted, pr_done = False, pr_log = t\<rparr>)"

definition exited :: "process \<Rightarrow> bool" where
  "exited p = (case pr_main p of Exited c \<Rightarrow> True | _ \<Rightarrow> False)"

text \<open>
  \<open>listens\<close>, \<open>fails\<close>: the goroutine calls \<open>Start\<close>, which may come back with an error and then stops the process.
  \<open>signalled\<close>: SIGINT or SIGTERM.  \<open>closing\<close>, \<open>draining\<close>, \<open>returning\<close>: the main goroutine after \<open>ctx.Done\<close>, in
  \<open>Shutdown\<close> and at the deferred \<open>Close\<close> of the pool; the end of main ends the other goroutine.
\<close>

inductive process_step :: "server \<Rightarrow> process \<Rightarrow> process \<Rightarrow> bool" for s where
  listens: "\<not> exited p \<Longrightarrow> pr_serve p = NotStarted \<Longrightarrow>
    process_step s p (p\<lparr>pr_serve := Serving, pr_log := pr_log p @ [Start s]\<rparr>)"
| fails: "\<not> exited p \<Longrightarrow> pr_serve p = Serving \<Longrightarrow> process_step s p (p\<lparr>pr_serve := Ended, pr_done := True\<rparr>)"
| signalled: "\<not> exited p \<Longrightarrow> process_step s p (p\<lparr>pr_done := True\<rparr>)"
| closing: "pr_main p = Waiting \<Longrightarrow> pr_done p \<Longrightarrow>
    process_step s p (p\<lparr>pr_main := EventsClosed, pr_log := pr_log p @ [Shutdown ! 0]\<rparr>)"
| draining: "pr_main p = EventsClosed \<Longrightarrow>
    process_step s p (p\<lparr>pr_main := AppDown, pr_serve := (if pr_serve p = Serving then Ended else pr_serve p),
      pr_log := pr_log p @ [Shutdown ! 1]\<rparr>)"
| returning: "pr_main p = AppDown \<Longrightarrow>
    process_step s p (p\<lparr>pr_main := Exited 0, pr_log := pr_log p @ [ClosePool]\<rparr>)"

text \<open>The states of a process started with the answers \<open>lb\<close>.\<close>

inductive process_reach :: "libs \<Rightarrow> process \<Rightarrow> bool" for lb where
  start: "process_reach lb (begin_main lb)"
| more: "process_reach lb p \<Longrightarrow> boot lb = (Inr s, t) \<Longrightarrow> process_step s p q \<Longrightarrow> process_reach lb q"

section \<open>Telemetry\<close>

datatype sampler = AlwaysSample | NeverSample | TraceIDRatioBased "int \<times> int"

record tracer_provider =
  tp_endpoint :: string
  tp_insecure :: bool
  tp_service :: string
  tp_version :: string
  tp_sampler :: sampler

text \<open>The rate is the ratio of its two numbers, the second positive.\<close>

definition sampler_of :: "int \<times> int \<Rightarrow> sampler" where
  "sampler_of r =
     (if snd r \<le> fst r then AlwaysSample else if fst r \<le> 0 then NeverSample else TraceIDRatioBased r)"

text \<open>
  \<open>NewProvider\<close>: an error, or the provider (\<open>None\<close> when telemetry is disabled) and the global provider
  afterwards.  \<open>exporter\<close> and \<open>resource\<close> are the errors of \<open>otlptracehttp.New\<close> and \<open>resource.Merge\<close>.
\<close>

definition NewProvider ::
    "(string \<Rightarrow> bool \<Rightarrow> string option) \<Rightarrow> (string \<Rightarrow> string \<Rightarrow> string option) \<Rightarrow> telemetry_config \<Rightarrow> string \<Rightarrow> string \<Rightarrow>
     tracer_provider option \<Rightarrow> string + tracer_provider option \<times> tracer_provider option" where
  "NewProvider exporter resource cfg name version global =
     (if \<not> te_enabled cfg then Inr (None, global)
      else
        (case exporter (te_endpoint cfg) (te_insecure cfg) of
           Some e \<Rightarrow> Inl (''creating OTLP exporter: '' @ e)
         | None \<Rightarrow>
             (case resource name version of
                Some e \<Rightarrow> Inl (''creating resource: '' @ e)
              | None \<Rightarrow>
                  (let tp = \<lparr>tp_endpoint = te_endpoint cfg, tp_insecure = te_insecure cfg, tp_service = name,
                     tp_version = version, tp_sampler = sampler_of (te_rate cfg)\<rparr>
                   in Inr (Some tp, Some tp)))))"

text \<open>\<open>Shutdown\<close> and \<open>Tracer\<close> of a provider that may be nil.\<close>

definition ShutdownProvider :: "(tracer_provider \<Rightarrow> string option) \<Rightarrow> tracer_provider option \<Rightarrow> string option" where
  "ShutdownProvider down p = (case p of None \<Rightarrow> None | Some tp \<Rightarrow> down tp)"

definition Tracer :: "tracer_provider option \<Rightarrow> tracer_provider option \<Rightarrow> string \<Rightarrow> tracer_provider option \<times> string" where
  "Tracer global p name = (case p of None \<Rightarrow> (global, name) | Some tp \<Rightarrow> (Some tp, name))"

section \<open>The life of the process\<close>

lemma Start_cases: "\<exists>addr cert key. Start s = Listen addr \<or> Start s = ListenTLS addr cert key"
  by (auto simp: Start_def Let_def)

lemma Start_differs [simp]:
  "Start s \<noteq> OpenPool c" "Start s \<noteq> ClosePool" "Start s \<noteq> OpenMigrator u" "Start s \<noteq> MigrateUp" "Start s \<noteq> CloseMigrator"
  "Start s \<noteq> CloseEvents" "Start s \<noteq> ShutdownApp n"
  using Start_cases [of s] by auto

lemmas differs_Start [simp] = Start_differs [symmetric]

text \<open>What a failed start-up leaves open: nothing.\<close>

definition is_open_pool :: "action \<Rightarrow> bool" where
  "is_open_pool a = (case a of OpenPool c \<Rightarrow> True | _ \<Rightarrow> False)"

definition is_open_migrator :: "action \<Rightarrow> bool" where
  "is_open_migrator a = (case a of OpenMigrator u \<Rightarrow> True | _ \<Rightarrow> False)"

definition is_listen :: "action \<Rightarrow> bool" where
  "is_listen a = (case a of Listen x \<Rightarrow> True | ListenTLS x c k \<Rightarrow> True | _ \<Rightarrow> False)"

definition released :: "action list \<Rightarrow> bool" where
  "released t \<longleftrightarrow>
     length (filter is_open_pool t) = length (filter ((=) ClosePool) t) \<and>
     length (filter is_open_migrator t) = length (filter ((=) CloseMigrator) t)"

lemmas action_kinds = is_open_pool_def is_open_migrator_def is_listen_def released_def

lemma New_cases:
  assumes "New lb cfg = (r, t)"
  obtains e where "r = Some e" "t = []"
  | e c where "r = Some e" "t = [OpenPool c, ClosePool]"
  | c where "r = None" "t = [OpenPool c]"
  using assms by (auto simp: New_def Let_def split: sum.splits option.splits)

lemma Migrate_cases:
  assumes "Migrate lb cfg = (r, t)"
  obtains e where "r = Some e" "t = [] \<or> t = [OpenMigrator (migrate_url cfg), MigrateUp, CloseMigrator]"
  | "r = None" "t = [OpenMigrator (migrate_url cfg), MigrateUp, CloseMigrator]" "lb_up lb \<in> {None, Some ErrNoChange}"
  using assms by (auto simp: Migrate_def Let_def split: option.splits if_splits)

lemma boot_failed:
  assumes "boot lb = (Inl e, t)"
  shows "released t \<and> filter is_listen t = []"
  using assms
  by (auto simp: boot_def action_kinds split: sum.splits prod.splits option.splits elim!: New_cases Migrate_cases)

lemma boot_succeeded:
  assumes "boot lb = (Inr s, t)"
  obtains cfg c where "Load (lb_viper lb) = Inr cfg" "s = NewServer cfg" "lb_up lb \<in> {None, Some ErrNoChange}"
    "t = [OpenPool c, OpenMigrator (migrate_url (cf_database cfg)), MigrateUp, CloseMigrator]"
  using assms
  by (auto simp: boot_def split: sum.splits prod.splits option.splits elim!: New_cases Migrate_cases)

text \<open>What follows the start-up: the actions of the main goroutine in their order, and at most one call of \<open>Start\<close>.\<close>

definition main_actions :: "main_phase \<Rightarrow> action list" where
  "main_actions m =
     (case m of
        Waiting \<Rightarrow> []
      | EventsClosed \<Rightarrow> [CloseEvents]
      | AppDown \<Rightarrow> [CloseEvents, ShutdownApp (30 * second)]
      | Exited c \<Rightarrow> [CloseEvents, ShutdownApp (30 * second), ClosePool])"

definition after_boot :: "server \<Rightarrow> process \<Rightarrow> action list \<Rightarrow> bool" where
  "after_boot s p rest \<longleftrightarrow>
     filter (\<lambda>a. a \<noteq> Start s) rest = main_actions (pr_main p) \<and>
     filter ((=) (Start s)) rest = (if pr_serve p = NotStarted then [] else [Start s]) \<and>
     (pr_main p \<noteq> Waiting \<longrightarrow> pr_done p) \<and> pr_main p \<noteq> Exited 1"

lemma after_boot_step:
  assumes "process_step s p q" "after_boot s p rest" "pr_log p = t @ rest"
  shows "\<exists>rest'. after_boot s q rest' \<and> pr_log q = t @ rest'"
  using assms(1)
proof cases
  case listens
  then show ?thesis using assms(2,3)
    by (intro exI [of _ "rest @ [Start s]"]) (auto simp: after_boot_def main_actions_def exited_def)
next
  case closing
  then show ?thesis using assms(2,3)
    by (intro exI [of _ "rest @ [Shutdown ! 0]"]) (auto simp: after_boot_def main_actions_def Shutdown_def)
next
  case draining
  then show ?thesis using assms(2,3)
    by (intro exI [of _ "rest @ [Shutdown ! 1]"]) (auto simp: after_boot_def main_actions_def Shutdown_def)
next
  case returning
  then show ?thesis using assms(2,3)
    by (intro exI [of _ "rest @ [ClosePool]"]) (auto simp: after_boot_def main_actions_def)
qed (use assms(2,3) in \<open>auto simp: after_boot_def exited_def\<close>)

lemma process_failed: "process_reach lb p \<Longrightarrow> boot lb = (Inl e, t) \<Longrightarrow> pr_main p = Exited 1 \<and> pr_log p = t"
  by (induction rule: process_reach.induct) (simp_all add: begin_main_def)

lemma process_booted:
  assumes "process_reach lb p" "boot lb = (Inr s, t)"
  shows "\<exists>rest. after_boot s p rest \<and> pr_log p = t @ rest"
  using assms
proof (induction rule: process_reach.induct)
  case start
  then show ?case by (simp add: begin_main_def after_boot_def main_actions_def)
next
  case (more p s' t' q)
  then show ?case using after_boot_step by fastforce
qed

text \<open>C30: the life of the process.  If the start-up fails, the process ends with exit code 1, it has never listened,
  and every pool and migrator it opened is closed.  Otherwise it has opened the pool and run the migrations with
  success before anything else; it listens at most once; and what the main goroutine does is, in this order, to
  close the event broker, shut the application down and close the pool, each once and only after a signal or a
  failed listener; the exit code is then 0, for a failed listener too.\<close>

theorem process_lifecycle:
  assumes "process_reach lb p"
  shows "case boot lb of
      (Inl e, t) \<Rightarrow> pr_main p = Exited 1 \<and> pr_log p = t \<and> released t \<and> filter is_listen t = []
    | (Inr s, t) \<Rightarrow>
        (\<exists>cfg c rest. Load (lb_viper lb) = Inr cfg \<and> s = NewServer cfg \<and> (lb_up lb = None \<or> lb_up lb = Some ErrNoChange) \<and>
           pr_log p = [OpenPool c, OpenMigrator (migrate_url (cf_database cfg)), MigrateUp, CloseMigrator] @ rest \<and>
           filter (\<lambda>a. a \<noteq> Start s) rest = main_actions (pr_main p) \<and>
           filter ((=) (Start s)) rest = (if pr_serve p = NotStarted then [] else [Start s]) \<and>
           (pr_main p \<noteq> Waiting \<longrightarrow> pr_done p) \<and> pr_main p \<noteq> Exited 1)"
proof (cases "boot lb")
  case (Pair r t)
  show ?thesis
  proof (cases r)
    case (Inl e)
    with Pair process_failed [OF assms] boot_failed show ?thesis by simp
  next
    case (Inr s)
    with Pair have b: "boot lb = (Inr s, t)" by simp
    obtain cfg c where c: "Load (lb_viper lb) = Inr cfg" "s = NewServer cfg" "lb_up lb \<in> {None, Some ErrNoChange}"
        "t = [OpenPool c, OpenMigrator (migrate_url (cf_database cfg)), MigrateUp, CloseMigrator]"
      by (rule boot_succeeded [OF b])
    from process_booted [OF assms b] obtain rest where "after_boot s p rest" "pr_log p = t @ rest" by blast
    with c show ?thesis unfolding b prod.case sum.case after_boot_def
      by (intro exI [of _ cfg] exI [of _ c] exI [of _ rest]) auto
  qed
qed

text \<open>A start with the defaults, whose address is taken.\<close>

definition sample_libs :: libs where
  "sample_libs =
     \<lparr>lb_viper = sample_viper (\<lambda>n. None),
      lb_parse = (\<lambda>dsn. Inr \<lparr>px_dsn = dsn, px_max_conns = 4, px_min_conns = 0, px_lifetime = 0, px_idle_time = 0\<rparr>),
      lb_pool = (\<lambda>c. None), lb_ping = None, lb_source = None, lb_migrator = (\<lambda>u. None), lb_up = None, lb_version = None,
      lb_text = (\<lambda>e. [])\<rparr>"

lemma sample_load: "Load (lb_viper sample_libs) = Inr default_config"
proof -
  have "vi_read (sample_viper (\<lambda>n. None)) load_setup = ReadNotFound" by (simp add: sample_viper_def)
  moreover have "\<forall>n \<in> set known_variables. \<not> set_in (\<lambda>n. None) n" by (simp add: set_in_def)
  ultimately show ?thesis
    unfolding sample_libs_def by (simp add: default_loaded [OF sample_viper_documented])
qed

lemma sample_boot: "\<exists>t. boot sample_libs = (Inr (NewServer default_config), t)"
proof -
  have "fst (New sample_libs cfg) = None" "fst (Migrate sample_libs cfg) = None" for cfg
    by (simp_all add: New_def Migrate_def sample_libs_def Let_def)
  then obtain t u where "New sample_libs (cf_database default_config) = (None, t)"
      "Migrate sample_libs (cf_database default_config) = (None, u)" by (metis prod.collapse)
  then show ?thesis by (simp add: boot_def sample_load)
qed

lemma failed_listener_exit:
  assumes "boot lb = (Inr s, t)"
  shows "process_reach lb \<lparr>pr_main = Exited 0, pr_serve = Ended, pr_done = True,
    pr_log = t @ [Start s, CloseEvents, ShutdownApp (30 * second), ClosePool]\<rparr>"
proof -
  note step = process_reach.more [OF _ assms]
  have "process_reach lb \<lparr>pr_main = Waiting, pr_serve = NotStarted, pr_done = False, pr_log = t\<rparr>"
    using process_reach.start [of lb] assms by (simp add: begin_main_def)
  from step [OF this process_step.listens] step [OF step [OF this process_step.listens] process_step.fails]
  have "process_reach lb \<lparr>pr_main = Waiting, pr_serve = Ended, pr_done = True, pr_log = t @ [Start s]\<rparr>"
    by (simp add: exited_def)
  from step [OF this process_step.closing] step [OF step [OF this process_step.closing] process_step.draining]
    step [OF step [OF step [OF this process_step.closing] process_step.draining] process_step.returning]
  show ?thesis by (simp add: Shutdown_def)
qed

theorem process_lifecycle_witness:
  "\<exists>p t. process_reach sample_libs p \<and> pr_main p = Exited 0 \<and> pr_serve p = Ended \<and> pr_log p = t \<and>
    filter is_open_pool t \<noteq> [] \<and> last t = ClosePool"
proof -
  obtain t where t: "boot sample_libs = (Inr (NewServer default_config), t)" using sample_boot by blast
  note r = failed_listener_exit [OF t]
  from process_lifecycle [OF r] obtain c rest where "t @ [Start (NewServer default_config), CloseEvents, ShutdownApp (30 * second), ClosePool] =
      OpenPool c # rest"
    unfolding t prod.case sum.case by auto
  then have "filter is_open_pool (t @ [Start (NewServer default_config), CloseEvents, ShutdownApp (30 * second), ClosePool]) \<noteq> []"
    by (simp add: is_open_pool_def)
  with r show ?thesis by (intro exI conjI) (assumption | simp)+
qed

section \<open>Other facts\<close>

text \<open>The parts of the migration URL are not escaped: different settings can give the same URL.\<close>

lemma migrate_url_ambiguous:
  "migrate_url (c\<lparr>dc_password := ''x'', dc_host := ''y@z''\<rparr>) = migrate_url (c\<lparr>dc_password := ''x@y'', dc_host := ''z''\<rparr>)"
  by (simp add: migrate_url_def)

text \<open>The size of the pool is cut to 32 bits.\<close>

lemma pool_size_wraps: "px_max_conns (pool_config_of (c\<lparr>dc_max_open := 2 ^ 32\<rparr>) p) = 0"
  by (simp add: pool_config_of_def int32_def)

lemma sampler_of_ratio: "sampler_of r = TraceIDRatioBased r' \<longleftrightarrow> r' = r \<and> 0 < fst r \<and> fst r < snd r"
  by (auto simp: sampler_of_def)

end
