(* ===== verification/Pipeline.thy ===== *)
theory Pipeline
  imports Startup Server
begin

text \<open>
  The middleware of \<open>internal/api/server.go\<close> around a handler: \<open>setupMiddleware\<close>, \<open>errorHandler\<close> and
  \<open>middleware/logging.go\<close>.  A handler of Fiber takes the context of a request and leaves a response in it, and
  returns an error or panics.  The middleware that comes with Fiber is a parameter; \<open>stack_ok\<close> is what its
  documentation says: \<open>recover\<close> makes an error of a panic, and the others hand a request on to the next handler
  and its result back, unless they answer it themselves (\<open>/metrics\<close>, a preflight request).
\<close>

section \<open>Contexts and results\<close>

record ctx =
  cx_method :: string
  cx_path :: string
  cx_status :: int
  cx_body :: "gval option"

text \<open>A new context has the status 200.\<close>

definition new_ctx :: "string \<Rightarrow> string \<Rightarrow> ctx" where
  "new_ctx m p = \<lparr>cx_method = m, cx_path = p, cx_status = 200, cx_body = None\<rparr>"

datatype returned = NoError | FiberError int string | GoError string | Panicked string

datatype level = LevelInfo | LevelWarn | LevelError

record log_line =
  ll_message :: string
  ll_level :: level
  ll_method :: string
  ll_path :: string
  ll_status :: int
  ll_error :: "returned option"

type_synonym fiber_handler = "ctx \<Rightarrow> (ctx \<times> returned) \<times> log_line list"

section \<open>The middleware of the program\<close>

definition log_level :: "int \<Rightarrow> level" where
  "log_level status = (if 500 \<le> status then LevelError else if 400 \<le> status then LevelWarn else LevelInfo)"

definition Logger :: "fiber_handler \<Rightarrow> fiber_handler" where
  "Logger next_handler c =
     (case next_handler c of
        ((c', Panicked p), lines) \<Rightarrow> ((c', Panicked p), lines)
      | ((c', err), lines) \<Rightarrow>
          ((c', err), lines @ [\<lparr>ll_message = ''request completed'', ll_level = log_level (cx_status c'),
             ll_method = cx_method c', ll_path = cx_path c', ll_status = cx_status c', ll_error = (if err = NoError then None else Some err)\<rparr>]))"

definition RewritePath :: "fiber_handler \<Rightarrow> fiber_handler" where
  "RewritePath next_handler c = next_handler (c\<lparr>cx_path := rewrite_path True (cx_path c)\<rparr>)"

text \<open>The middleware in its order; what is enabled depends on the configuration.\<close>

datatype middleware = RequestID | OTel | Recover bool | Prometheus | MetricsRoute | CORS | LoggerMW | PolarisMW

definition setupMiddleware :: "config \<Rightarrow> middleware list" where
  "setupMiddleware cfg =
     [RequestID] @ (if te_enabled (cf_telemetry cfg) then [OTel] else []) @
     [Recover (se_debug (cf_server cfg)), Prometheus, MetricsRoute, CORS, LoggerMW] @
     (if co_polaris (cf_compat cfg) then [PolarisMW] else [])"

text \<open>\<open>fiber m\<close> is the middleware \<open>m\<close> of Fiber.\<close>

fun middleware_of :: "(middleware \<Rightarrow> fiber_handler \<Rightarrow> fiber_handler) \<Rightarrow> middleware \<Rightarrow> fiber_handler \<Rightarrow> fiber_handler" where
  "middleware_of fiber LoggerMW = Logger"
| "middleware_of fiber PolarisMW = RewritePath"
| "middleware_of fiber m = fiber m"

definition stack :: "(middleware \<Rightarrow> fiber_handler \<Rightarrow> fiber_handler) \<Rightarrow> config \<Rightarrow> fiber_handler \<Rightarrow> fiber_handler" where
  "stack fiber cfg h = foldr (middleware_of fiber) (setupMiddleware cfg) h"

text \<open>What Fiber does with an error: \<open>errorHandler\<close> of the application logs it and writes the response.\<close>

definition handle_error :: "ctx \<Rightarrow> returned \<Rightarrow> ctx \<times> log_line" where
  "handle_error c err =
     (let (code, message) = (case err of FiberError code message \<Rightarrow> (code, message) | _ \<Rightarrow> (500, ''Internal Server Error'')) in
      (c\<lparr>cx_status := code, cx_body := Some (error_body message ''ServerError'' code)\<rparr>,
       \<lparr>ll_message = ''request error'', ll_level = LevelError, ll_method = cx_method c, ll_path = cx_path c,
        ll_status = code, ll_error = Some err\<rparr>))"

definition respond :: "(middleware \<Rightarrow> fiber_handler \<Rightarrow> fiber_handler) \<Rightarrow> config \<Rightarrow> fiber_handler \<Rightarrow> ctx \<Rightarrow> ctx \<times> log_line list" where
  "respond fiber cfg h c =
     (case stack fiber cfg h c of
        ((c', NoError), lines) \<Rightarrow> (c', lines)
      | ((c', err), lines) \<Rightarrow> (case handle_error c' err of (c'', line) \<Rightarrow> (c'', lines @ [line])))"

section \<open>What is answered and what is logged\<close>

definition recovered :: "(ctx \<times> returned) \<times> log_line list \<Rightarrow> (ctx \<times> returned) \<times> log_line list" where
  "recovered r = (case r of ((c, Panicked p), lines) \<Rightarrow> ((c, GoError p), lines) | _ \<Rightarrow> r)"

text \<open>For the request \<open>c\<close>, which is none that the middleware of Fiber answers itself.\<close>

definition stack_ok :: "(middleware \<Rightarrow> fiber_handler \<Rightarrow> fiber_handler) \<Rightarrow> ctx \<Rightarrow> bool" where
  "stack_ok fiber c \<longleftrightarrow>
     (\<forall>debug h. fiber (Recover debug) h c = recovered (h c)) \<and>
     (\<forall>h. fiber RequestID h c = h c) \<and> (\<forall>h. fiber OTel h c = h c) \<and> (\<forall>h. fiber Prometheus h c = h c) \<and>
     (\<forall>h. fiber MetricsRoute h c = h c) \<and> (\<forall>h. fiber CORS h c = h c)"

lemma stack_eq:
  assumes "stack_ok fiber c"
  shows "stack fiber cfg h c =
    recovered (Logger (if co_polaris (cf_compat cfg) then RewritePath h else h) c)"
  using assms by (simp add: stack_def setupMiddleware_def stack_ok_def)

text \<open>C39: the answer and the log.  A request that reaches its handler is answered with what the handler wrote, or, where it
  returned an error or panicked, with the status of that error or a 500.  The line of \<open>Logger\<close> has the status that
  stood in the context before the error handler ran: a request whose handler returns an error of Fiber (a failed
  transaction, a missing upgrade, a path without a route) is answered with its code, and its line says 200 at level
  Info; one that panics is answered 500 and has no line of \<open>Logger\<close>.  Both have the line of the error handler.\<close>

theorem answered_and_logged:
  assumes "stack_ok fiber c" "h (c\<lparr>cx_path := rewrite_path (co_polaris (cf_compat cfg)) (cx_path c)\<rparr>) = ((c', err), [])"
    "line = \<lparr>ll_message = ''request completed'', ll_level = log_level (cx_status c'), ll_method = cx_method c',
       ll_path = cx_path c', ll_status = cx_status c', ll_error = (if err = NoError then None else Some err)\<rparr>"
  shows "respond fiber cfg h c =
    (case err of
       NoError \<Rightarrow> (c', [line])
     | FiberError code msg \<Rightarrow>
         (c'\<lparr>cx_status := code, cx_body := Some (error_body msg ''ServerError'' code)\<rparr>, [line, snd (handle_error c' err)])
     | GoError msg \<Rightarrow>
         (c'\<lparr>cx_status := 500, cx_body := Some (error_body ''Internal Server Error'' ''ServerError'' 500)\<rparr>,
          [line, snd (handle_error c' err)])
     | Panicked msg \<Rightarrow>
         (c'\<lparr>cx_status := 500, cx_body := Some (error_body ''Internal Server Error'' ''ServerError'' 500)\<rparr>,
          [snd (handle_error c' (GoError msg))]))"
proof -
  have "(if co_polaris (cf_compat cfg) then RewritePath h else h) c = ((c', err), [])"
    using assms(2) by (cases "co_polaris (cf_compat cfg)") (simp_all add: RewritePath_def rewrite_path_def)
  then show ?thesis
    by (cases err) (simp_all add: respond_def stack_eq [OF assms(1)] Logger_def recovered_def handle_error_def assms(3))
qed

definition sample_fiber :: "middleware \<Rightarrow> fiber_handler \<Rightarrow> fiber_handler" where
  "sample_fiber m h = (case m of Recover b \<Rightarrow> (\<lambda>c. recovered (h c)) | _ \<Rightarrow> h)"

text \<open>A path without a route: Fiber returns a 404, the line of \<open>Logger\<close> says 200.\<close>

theorem answered_and_logged_witness:
  "\<exists>c' lines. respond sample_fiber default_config (\<lambda>c. ((c, FiberError 404 ''Cannot GET /x''), [])) (new_ctx ''GET'' ''/x'') = (c', lines) \<and>
     cx_status c' = 404 \<and> map ll_status lines = [200, 404] \<and> map ll_level lines = [LevelInfo, LevelError]"
proof -
  have "stack_ok sample_fiber (new_ctx ''GET'' ''/x'')" by (simp add: stack_ok_def sample_fiber_def)
  moreover have "(\<lambda>c. ((c, FiberError 404 ''Cannot GET /x''), [])) ((new_ctx ''GET'' ''/x'')\<lparr>cx_path :=
      rewrite_path (co_polaris (cf_compat default_config)) (cx_path (new_ctx ''GET'' ''/x''))\<rparr>) =
      ((new_ctx ''GET'' ''/x'', FiberError 404 ''Cannot GET /x''), [] :: log_line list)"
    by (simp add: default_config_def rewrite_path_def new_ctx_def)
  ultimately show ?thesis
    by (simp add: answered_and_logged [OF _ _ refl] handle_error_def new_ctx_def log_level_def)
qed

end
