(* ===== verification/Spec2Isabelle.thy ===== *)
theory Spec2Isabelle
  imports UpdateProps Budget Isolation Announce Pool Streams Runner Pipeline
begin

text \<open>
  A model of \<open>bingsan\<close>, a catalog server for Apache Iceberg with a REST interface and its state in PostgreSQL.
  It follows the Go code under \<open>internal\<close>, function by function and under the code's names.

  \<^bold>\<open>The program.\<close>  A request passes the middleware of \<open>internal/api/server.go\<close>, path rewriting for Polaris,
  authentication (\<open>middleware/auth.go\<close>) and authorization (\<open>middleware/authz.go\<close>), to a handler of
  \<open>internal/api/handlers\<close>.  A handler is a short sequence of SQL statements and the choice of an answer.
  Commits to a table and replacements of a view lock a row, with retries (\<open>internal/db/lock.go\<close>); a commit
  checks the requirements of the request and gives the metadata of the table to the update processor
  (\<open>handlers/updates\<close>).  Handlers publish events to a broker (\<open>internal/events\<close>), which streams them to
  WebSockets.  Beside the requests there are periodic tasks (\<open>internal/background\<close>), run by the node that holds
  an advisory lock (\<open>internal/leader\<close>), and pools of buffers (\<open>internal/pool\<close>).  The process reads its
  configuration (\<open>internal/config\<close>), opens the pool of connections, migrates the database, serves until a signal and
  shuts down (\<open>cmd/iceberg-catalog/main.go\<close>, \<open>internal/db/postgres.go\<close>); it reports what it does in logs, metrics and
  traces (\<open>middleware/logging.go\<close>, \<open>internal/metrics\<close>, \<open>internal/telemetry\<close>).

  \<^bold>\<open>Values and metadata.\<close>
  \<^item> \<open>Prelude\<close>: Go maps as association lists, hints for booleans and splits.
  \<^item> \<open>GoJson\<close>: Go values (\<open>gval\<close>), JSON texts (\<open>json\<close>), \<open>float64\<close>, and the decoding and encoding of
    \<open>encoding/json\<close> (a member that repeats decodes over what the earlier one left, elements of its list included).
    \<open>Storable\<close> is the type of metadata: storing and loading storable metadata gives the same metadata with its
    numbers as \<open>float64\<close>, and updates keep metadata storable.
  \<^item> \<open>MetaUtil\<close> (\<open>updates/util.go\<close>), \<open>UpdateTypes\<close> (\<open>types.go\<close>, \<open>errors.go\<close>, parsing), one theory per file of
    update handlers (\<open>UpdSchema\<close>, \<open>UpdPartition\<close>, \<open>UpdSortOrder\<close>, \<open>UpdSnapshot\<close>, \<open>UpdStatistics\<close>,
    \<open>UpdProperties\<close>) and \<open>Processor\<close> (\<open>processor.go\<close>).  The handlers share three interfaces, the locales of
    \<open>UpdateIfaces\<close>: \<open>versioned_items\<close> (add an item, select the current one), \<open>removable_items\<close> and \<open>keyed_items\<close>
    (one entry per key), interpreted on schemas, specs, sort orders and both kinds of statistics.
    \<open>update_steps\<close> carries a relation over a whole run of the processor from its single updates.
  \<^item> \<open>UpdateProps\<close>: \<open>Apply\<close> is a stable sort and a fold; it keeps the integrity of snapshots and references, of
    schemas, specs and orders, of keyed entries; counters never fall; how it can end; what it leaves alone; the
    commit of a snapshot by a writer, whichever of its two updates comes first.

  \<^bold>\<open>The database and the handlers.\<close>
  \<^item> \<open>Database\<close>: the tables of \<open>internal/db/migrations\<close> with their constraints and cascades, and one function
    per SQL statement.  \<open>db_ok\<close> is what the constraints guarantee; \<open>Content\<close> adds what the catalog relies on in
    the metadata (\<open>catalog_ok\<close>).
  \<^item> \<open>Http\<close>: a handler is a tree of statements (\<open>prog\<close>); each may fail, and between two of them the statements of
    other requests may run (\<open>cstep\<close>, \<open>creach\<close>).  \<open>run\<close> is a run alone without failures.  \<open>safe\<close> is the condition on a
    single handler from which invariants of all interleavings follow.
  \<^item> \<open>Lock\<close>: \<open>WithLock\<close>; a transaction is one atomic step that takes effect or fails.
  \<^item> \<open>Namespaces\<close>, \<open>Tables\<close>, \<open>Views\<close>, \<open>Transactions\<close>, \<open>Scans\<close>, \<open>Keys\<close>: the handlers of the files of these names
    (keys: \<open>apikeys.go\<close>, \<open>oauth.go\<close>), their answers on every branch, and their safety.  \<open>Items\<close> holds the interface
    \<open>item_store\<close> that tables and views share, with the abstraction of a store to a map from namespace and name to
    location and metadata; \<open>TableProps\<close> shows the handlers to be steps of that map, that what a writer is told is what
    readers get, and what \<open>CommitTransaction\<close> answers from it.  The listings are ordered by the collation of
    the database, a locale \<open>collation\<close> interpreted on the order of bytes; \<open>arriving\<close> cuts a listing off where the
    connection breaks, which the code does not notice.
  \<^item> \<open>Auth\<close>, \<open>AuthProps\<close>: the two middlewares.  \<open>Settings\<close>: the defaults of the configuration, what clients are told
    of it, and the credentials vended to them.  \<open>Server\<close>: routes, middleware in order, and the handlers without state.
  \<^item> \<open>Catalog\<close>: all requests of the routes \<open>/v1\<close> at once.  Whatever is in flight, and however statements
    interleave and fail, the catalog stays consistent, no handler panics, and answers have a status of the API;
    and the two races that the code leaves open.  \<open>Budget\<close>: the largest number of steps of each request, retries and
    pauses included, and with it of all requests in flight.
  \<^item> \<open>Serial\<close>: requests that take effect at a single point (a statement, or a locked transaction) are serialisable
    among each other, and commits that require a snapshot of a reference are compare and swap.
  \<^item> \<open>RowLocks\<close>, \<open>Names\<close>, \<open>Isolation\<close>: the transactions statement by statement under row locks and \<open>READ COMMITTED\<close>.
    Every run of this system is one of the system with atomic transactions, so consistency, answers and serialisability
    hold here too; commits to single tables never deadlock, multi-table commits can.

  \<^bold>\<open>Concurrency beside the database.\<close>
  \<^item> \<open>Events\<close>: the broker with its channels, publishers interleaved at every send; the audit log; admission to the
    event stream.  \<open>Announce\<close>: of all types of events, requests publish the creation and the deletion of namespaces only.
  \<^item> \<open>Election\<close>: electors of many nodes over session locks; mutual exclusion holds as long as no connection is
    closed, and not otherwise.  \<open>Background\<close>: the tasks and what they delete.  \<open>Runner\<close>: their goroutines with
    contexts and wait group; no task runs after \<open>Stop\<close> has returned, and what a second \<open>Start\<close> breaks.
  \<^item> \<open>Streams\<close>: the connections of the event stream beside the broker; a client gets the accepted events of its topic
    in order, and an ended connection leaves no subscription.
  \<^item> \<open>Pool\<close>: the pools, and their counters at 64 bits.

  \<^bold>\<open>The process.\<close>
  \<^item> \<open>Config\<close>: the structure of the configuration and \<open>Load\<close> over viper; which variables have an effect, whatever
    else is in the environment.
  \<^item> \<open>Startup\<close>: the pool of connections, migrations, server and \<open>main\<close>, as the sequence of what they do to the outside;
    the tracer provider.
  \<^item> \<open>Gauges\<close>: the metrics, each counted by a step of its own after the statements of the handler (\<open>gstep\<close>), and how
    far the number of namespaces they show is that of the database.
  \<^item> \<open>Pipeline\<close>: the middleware around a handler, the error handler and the line that is logged.

  \<^bold>\<open>Parameters\<close> stand for what is not in the repository: the collation, SHA-256, \<open>uuid.New\<close> and the parsing and
  printing of UUIDs, the clock (one reading per request, where the code takes two within a request), random bytes,
  the printing and parsing of times, AWS STS and Google IAM, which connection or pooled item is used, how many rows of
  a listing arrive, the order in which Go visits a map that a request brings, viper (with what
  its documentation says of environment variables, files and defaults as a hypothesis), the answers of pgx, golang-migrate and
  the SDK of OpenTelemetry, and the middleware that comes with Fiber.

  \<^bold>\<open>Bounds.\<close>  Loops over lists are structural recursions.  The loop of \<open>WithLock\<close> counts its attempts down from
  \<open>MaxRetries + 1\<close>; no other fuel is needed, and \<open>requests_take_bounded_steps\<close> bounds the steps of requests.  Numbers keep
  their width where it matters: identifiers and durations at 64 bits, \<open>float64\<close> by its rounding, seconds for STS at
  32 bits, counters as words.  Snapshot ids of metadata are compared as \<open>float64\<close>, so what is shown of conditional
  commits (\<open>one_commit_wins\<close>, \<open>stale_commit_rejected\<close>) is for ids of at most 2^53 in absolute value.

  \<^bold>\<open>Failures.\<close>  A statement outside a transaction, and a transaction as a whole, takes effect or fails without effect.
  The failure that has an effect, a \<open>COMMIT\<close> or single statement that the server carries out but whose answer the
  connection loses, is not among the behaviours.  The error of a failed transaction is arbitrary; that includes a
  lock timeout of a statement the function ignores (the insert into \<open>commit_log\<close>), after which the code sees only that
  the \<open>COMMIT\<close> was rolled back and does not try again: the model may retry where the code gives up, which only adds
  behaviours.  \<open>commitTableInTx\<close> gives back the database it leaves; it leaves it as it was because the code that
  would write the new metadata is a TODO in \<open>transaction.go\<close>.  An error that passes the tracing middleware is handled
  by that middleware with the same error handler; the model hands it on, with the same answer.

  \<^bold>\<open>Not modelled.\<close>  Fiber's parsing and matching of requests (paths are taken in the case the routes have; Fiber also
  matches others) and the frames of the WebSocket (third-party code that the
  sources only call), the texts and the export format of the metrics, the log lines other than that of a request, the
  counters of \<open>internal/pool/metrics.go\<close> as Prometheus shows them, and the tests, benchmarks and deployments.
\<close>

end
